(* ===== verification/Hop_Prelude.thy ===== *)
theory Hop_Prelude
  imports Main "HOL-Library.Word" "HOL-Library.Monad_Syntax" "HOL-Library.Sublist"
begin

text \<open>
  Shared vocabulary of the development: Go's \<^verbatim>\<open>byte\<close>, \<^verbatim>\<open>int32\<close>, \<^verbatim>\<open>uint16\<close> as machine
  words, byte strings, the named bytes of the HTTP grammar, the fact collections the component
  theories fill, and the generic list and word lemmas their proofs share.
\<close>

section \<open>Types and bytes\<close>

type_synonym byte = "8 word"
type_synonym bytes = "8 word list"
type_synonym int8 = "8 word"
type_synonym int32 = "32 word"
type_synonym uint16 = "16 word"

abbreviation (input) CR :: byte where "CR \<equiv> 13"
abbreviation (input) LF :: byte where "LF \<equiv> 10"
abbreviation (input) SP :: byte where "SP \<equiv> 32"
abbreviation (input) HTAB :: byte where "HTAB \<equiv> 9"
abbreviation (input) COLON :: byte where "COLON \<equiv> 58"
abbreviation (input) SEMICOLON :: byte where "SEMICOLON \<equiv> 59"
abbreviation (input) COMMA :: byte where "COMMA \<equiv> 44"
abbreviation (input) DOT :: byte where "DOT \<equiv> 46"
abbreviation (input) DIGIT0 :: byte where "DIGIT0 \<equiv> 48"
abbreviation (input) DIGIT9 :: byte where "DIGIT9 \<equiv> 57"

text \<open>The bytes of a Go string literal.\<close>

definition str :: "string \<Rightarrow> bytes" where
  "str s = map of_char s"

abbreviation (input) CRLF :: bytes where "CRLF \<equiv> [CR, LF]"

section \<open>Fact collections\<close>

named_theorems scan_simps \<open>equations of the byte scanners on a split input\<close>
named_theorems cursor_simps \<open>cursor operations expressed over the unread bytes\<close>
named_theorems wf_intros \<open>operations keep the invariant of their component\<close>
named_theorems frame_simps \<open>fields an operation leaves alone\<close>

section \<open>Generic lemmas\<close>

lemma str_Nil [simp]: "str [] = []"
  by (simp add: str_def)

lemma str_Cons [simp]: "str (c # cs) = of_char c # str cs"
  by (simp add: str_def)

lemma length_str [simp]: "length (str s) = length s"
  by (simp add: str_def)

lemma str_append: "str (s @ t) = str s @ str t"
  by (simp add: str_def)

lemma drop_append_exact [simp]: "drop (length xs) (xs @ ys) = ys"
  by simp

lemma take_append_exact [simp]: "take (length xs) (xs @ ys) = xs"
  by simp

lemma drop_Suc_append_exact: "drop (Suc (length xs)) (xs @ y # ys) = ys"
  by simp

lemma drop_add_append: "drop (length xs + n) (xs @ ys) = drop n ys"
  by simp

lemma list_split_at: "i < length xs \<Longrightarrow> xs = take i xs @ xs ! i # drop (Suc i) xs"
  by (simp add: id_take_nth_drop)

lemma byte_less_256: "unat (b :: byte) < 256"
  using unsigned_less [of b] by simp

text \<open>Signed reading of a 32-bit word that holds a small natural number.\<close>

lemma sint_word_of_nat32:
  assumes "n < 2 ^ 31"
  shows "sint (word_of_nat n :: int32) = int n"
proof -
  have "sint (word_of_nat n :: int32) = signed_take_bit 31 (int n)"
    by (simp add: signed_of_nat)
  also have "\<dots> = int n"
    using assms by (simp add: signed_take_bit_int_eq_self)
  finally show ?thesis .
qed

lemma word_of_nat32_eq_0:
  assumes "n < 2 ^ 31"
  shows "(word_of_nat n :: int32) = 0 \<longleftrightarrow> n = 0"
proof
  assume "(word_of_nat n :: int32) = 0"
  then have "sint (word_of_nat n :: int32) = 0" by simp
  with sint_word_of_nat32 [OF assms] show "n = 0" by simp
qed simp

lemma sint_eq_0 [simp]: "sint (x :: int32) = 0 \<longleftrightarrow> x = 0"
  by (rule signed_eq_0_iff)

text \<open>The result of a computation in Go's \<^verbatim>\<open>int\<close> and \<^verbatim>\<open>int64\<close>.\<close>

definition wrap64 :: "int \<Rightarrow> int" where
  "wrap64 n = sint (word_of_int n :: 64 word)"

lemma wrap64_small: "0 \<le> n \<Longrightarrow> n < 2 ^ 63 \<Longrightarrow> wrap64 n = n"
  unfolding wrap64_def sint_sbintrunc' by (rule signed_take_bit_int_eq_self) simp_all

end
