(* ===== verification/Byte_Scan.thy ===== *)
theory Byte_Scan
  imports Hop_Prelude
begin

text \<open>
  The byte scanners of \<^verbatim>\<open>internal/parser/scan.go\<close>, the hexadecimal table of
  \<^verbatim>\<open>unhex.go\<close> and \<^verbatim>\<open>scanCRLFBytes\<close> of \<^verbatim>\<open>engine.go\<close>. A Go result pair
  \<^verbatim>\<open>(value, ok)\<close> is an option. Integers keep their width: the decimal reader works in a
  32-bit word and wraps as the source does.
\<close>

section \<open>Definitions\<close>

fun skipSpaces :: "bytes \<Rightarrow> nat" where
  "skipSpaces [] = 0"
| "skipSpaces (c # cs) = (if c \<noteq> SP \<and> c \<noteq> HTAB then 0 else Suc (skipSpaces cs))"

fun scanToByte :: "bytes \<Rightarrow> byte \<Rightarrow> nat option" where
  "scanToByte [] target = None"
| "scanToByte (c # cs) target =
     (if c = target then Some 0 else map_option Suc (scanToByte cs target))"

fun scanCRLFBytes :: "bytes \<Rightarrow> nat option" where
  "scanCRLFBytes [] = None"
| "scanCRLFBytes [a] = None"
| "scanCRLFBytes (a # b # r) =
     (if a = CR \<and> b = LF then Some 0 else map_option Suc (scanCRLFBytes (b # r)))"

definition parseHTTPVersionDigits :: "bytes \<Rightarrow> (byte \<times> byte) option" where
  "parseHTTPVersionDigits b =
     (if length b < 3 \<or> b ! 1 \<noteq> DOT then None
      else if b ! 0 < DIGIT0 \<or> b ! 0 > DIGIT9 \<or> b ! 2 < DIGIT0 \<or> b ! 2 > DIGIT9 then None
      else Some (b ! 0 - DIGIT0, b ! 2 - DIGIT0))"

definition responseStatusHasNoBody :: "uint16 \<Rightarrow> bool" where
  "responseStatusHasNoBody status \<longleftrightarrow>
     (if status \<ge> 100 \<and> status < 200 then True else status = 204 \<or> status = 304)"

fun decimalLoop :: "int32 \<Rightarrow> bytes \<Rightarrow> int32 option" where
  "decimalLoop n [] = Some n"
| "decimalLoop n (c # cs) =
     (if c < DIGIT0 \<or> c > DIGIT9 then None
      else decimalLoop (n * 10 + ucast (c - DIGIT0)) cs)"

definition parseDecimalInt32 :: "bytes \<Rightarrow> int32 option" where
  "parseDecimalInt32 b = (if length b = 0 then None else decimalLoop 0 b)"

definition lowerByte :: "byte \<Rightarrow> byte" where
  "lowerByte c = (if 65 \<le> c \<and> c \<le> 90 then c + (97 - 65) else c)"

fun foldLoop :: "bytes \<Rightarrow> bytes \<Rightarrow> bool" where
  "foldLoop (b # bs) (s # ss) = (if lowerByte b \<noteq> s then False else foldLoop bs ss)"
| "foldLoop _ _ = True"

definition equalFoldToken :: "bytes \<Rightarrow> string \<Rightarrow> bool" where
  "equalFoldToken b s = (if length b \<noteq> length s then False else foldLoop b (str s))"

text \<open>
  The table of \<^verbatim>\<open>initUnhex\<close>: 256 entries of \<^verbatim>\<open>-1\<close>, then the three loops that store the
  digit values.
\<close>

definition storeRange :: "nat \<Rightarrow> nat \<Rightarrow> (nat \<Rightarrow> int8) \<Rightarrow> int8 list \<Rightarrow> int8 list" where
  "storeRange lo hi f table = foldl (\<lambda>t ch. t[ch := f ch]) table [lo ..< Suc hi]"

definition initUnhex :: "int8 list" where
  "initUnhex =
     (let table = replicate 256 (-1);
          table = storeRange 48 57 (\<lambda>ch. word_of_nat ch - 48) table;
          table = storeRange 97 102 (\<lambda>ch. (word_of_nat ch - 97) + 10) table;
          table = storeRange 65 70 (\<lambda>ch. (word_of_nat ch - 65) + 10) table
      in table)"

definition unhex :: "byte \<Rightarrow> int8" where
  "unhex ch = initUnhex ! unat ch"

section \<open>Spaces and single bytes\<close>

lemma skipSpaces_le: "skipSpaces b \<le> length b"
  by (induction b) auto

lemma skipSpaces_drop_hd:
  "drop (skipSpaces b) b = [] \<or> hd (drop (skipSpaces b) b) \<notin> {SP, HTAB}"
  by (induction b) auto

lemma skipSpaces_take: "set (take (skipSpaces b) b) \<subseteq> {SP, HTAB}"
  by (induction b) auto

lemma skipSpaces_none [scan_simps]:
  "b = [] \<or> hd b \<notin> {SP, HTAB} \<Longrightarrow> skipSpaces b = 0"
  by (cases b) auto

lemma skipSpaces_spaces [scan_simps]:
  "set ws \<subseteq> {SP, HTAB} \<Longrightarrow> skipSpaces (ws @ b) = length ws + skipSpaces b"
  by (induction ws) auto

lemma scanToByte_lt: "scanToByte b t = Some i \<Longrightarrow> i < length b"
  by (induction b arbitrary: i) (auto split: if_splits)

lemma scanToByte_None: "scanToByte b t = None \<longleftrightarrow> t \<notin> set b"
  by (induction b) auto

lemma scanToByte_append [scan_simps]:
  "t \<notin> set xs \<Longrightarrow> scanToByte (xs @ t # ys) t = Some (length xs)"
  by (induction xs) auto

lemma scanToByte_SomeD:
  "scanToByte b t = Some i \<Longrightarrow> b = take i b @ t # drop (Suc i) b \<and> t \<notin> set (take i b)"
  by (induction b arbitrary: i) (auto split: if_splits)

section \<open>Line ends\<close>

lemma scanCRLFBytes_SomeD:
  "scanCRLFBytes b = Some i \<Longrightarrow>
     b = take i b @ CR # LF # drop (i + 2) b \<and> scanCRLFBytes (take i b @ [CR]) = None"
proof (induction b arbitrary: i rule: scanCRLFBytes.induct)
  case (3 a b r)
  show ?case
  proof (cases "a = CR \<and> b = LF")
    case True
    with "3.prems" show ?thesis by simp
  next
    case False
    with "3.prems" obtain j where j: "scanCRLFBytes (b # r) = Some j" "i = Suc j"
      by auto
    from "3.IH" [OF False j(1)] have IH:
      "b # r = take j (b # r) @ CR # LF # drop (j + 2) (b # r)"
      "scanCRLFBytes (take j (b # r) @ [CR]) = None" by auto
    show ?thesis
      using IH j(2) False by (cases j) auto
  qed
qed simp_all

lemma scanCRLFBytes_bound: "scanCRLFBytes b = Some i \<Longrightarrow> i + 2 \<le> length b"
proof (induction b arbitrary: i rule: scanCRLFBytes.induct)
  case (3 a b r)
  then show ?case by (fastforce split: if_splits)
qed simp_all

lemma scanCRLFBytes_append [scan_simps]:
  "scanCRLFBytes (xs @ [CR]) = None \<Longrightarrow> scanCRLFBytes (xs @ CR # LF # ys) = Some (length xs)"
proof (induction xs rule: scanCRLFBytes.induct)
  case (2 a)
  then show ?case by (auto split: if_splits)
qed (auto split: if_splits)

lemma scanCRLFBytes_append_eq:
  "scanCRLFBytes (xs @ [CR]) = None \<Longrightarrow> scanCRLFBytes (xs @ CRLF @ ys) = Some (length xs)"
  by (simp add: scanCRLFBytes_append)

text \<open>A text without line feeds (or without carriage returns) holds no line end.\<close>

lemma scanCRLFBytes_no_LF: "LF \<notin> set xs \<Longrightarrow> scanCRLFBytes (xs @ [CR]) = None"
proof (induction xs rule: scanCRLFBytes.induct)
qed auto

section \<open>Decimal numbers, modulo 2 to the 32\<close>

definition isDigit :: "byte \<Rightarrow> bool" where
  "isDigit c \<longleftrightarrow> DIGIT0 \<le> c \<and> c \<le> DIGIT9"

definition decValue :: "bytes \<Rightarrow> nat" where
  "decValue b = foldl (\<lambda>n c. n * 10 + unat (c - DIGIT0)) 0 b"

lemma decimalLoop_eq:
  "decimalLoop (word_of_nat n) b =
     (if list_all isDigit b
      then Some (word_of_nat (foldl (\<lambda>n c. n * 10 + unat (c - DIGIT0)) n b)) else None)"
proof (induction b arbitrary: n)
  case (Cons c cs)
  have "(word_of_nat n * 10 + ucast (c - DIGIT0) :: int32) = word_of_nat (n * 10 + unat (c - DIGIT0))"
    by simp
  then show ?case
    using Cons.IH [of "n * 10 + unat (c - DIGIT0)"] by (auto simp: isDigit_def not_less)
qed simp

lemma parseDecimalInt32_eq:
  "parseDecimalInt32 b =
     (if b \<noteq> [] \<and> list_all isDigit b then Some (word_of_nat (decValue b)) else None)"
  using decimalLoop_eq [of 0 b] by (simp add: parseDecimalInt32_def decValue_def)

section \<open>Case-insensitive comparison\<close>

lemma foldLoop_eq: "length b = length s \<Longrightarrow> foldLoop b s \<longleftrightarrow> map lowerByte b = s"
  by (induction b s rule: list_induct2) auto

lemma equalFoldToken_eq: "equalFoldToken b s \<longleftrightarrow> map lowerByte b = str s"
proof (cases "length b = length s")
  case True
  then show ?thesis by (simp add: equalFoldToken_def foldLoop_eq)
next
  case False
  then have "map lowerByte b \<noteq> str s" by (metis length_map length_str)
  with False show ?thesis by (simp add: equalFoldToken_def)
qed

section \<open>The hexadecimal table\<close>

definition hexDigit :: "byte \<Rightarrow> int8" where
  "hexDigit ch =
     (if 48 \<le> ch \<and> ch \<le> 57 then ch - 48
      else if 97 \<le> ch \<and> ch \<le> 102 then ch - 97 + 10
      else if 65 \<le> ch \<and> ch \<le> 70 then ch - 65 + 10 else - 1)"

lemma length_storeRange [simp]: "length (storeRange lo hi f t) = length t"
proof -
  have "length (foldl (\<lambda>t ch. t[ch := f ch]) t xs) = length t" for xs :: "nat list"
    by (induction xs arbitrary: t) auto
  then show ?thesis by (simp add: storeRange_def)
qed

lemma nth_storeRange:
  assumes "i < length t"
  shows "storeRange lo hi f t ! i = (if lo \<le> i \<and> i \<le> hi then f i else t ! i)"
proof -
  have "foldl (\<lambda>t ch. t[ch := f ch]) t xs ! i = (if i \<in> set xs then f i else t ! i)"
    if "i < length t" for xs :: "nat list" and t :: "int8 list"
    using that by (induction xs arbitrary: t) (auto simp: nth_list_update)
  from this [OF assms] show ?thesis by (auto simp: storeRange_def)
qed

lemma unhex_eq: "unhex ch = hexDigit ch"
proof -
  have "unat ch < 256" by (rule byte_less_256)
  then show ?thesis
    by (simp add: unhex_def initUnhex_def nth_storeRange hexDigit_def word_le_nat_alt)
qed

text \<open>The value of a hexadecimal digit as a natural number.\<close>

definition hexVal :: "byte \<Rightarrow> nat option" where
  "hexVal ch =
     (if 48 \<le> ch \<and> ch \<le> 57 then Some (unat ch - 48)
      else if 97 \<le> ch \<and> ch \<le> 102 then Some (unat ch - 87)
      else if 65 \<le> ch \<and> ch \<le> 70 then Some (unat ch - 55) else None)"

lemma sint_int8_small:
  assumes "d < 16"
  shows "sint (word_of_nat d :: int8) = int d"
proof -
  have "sint (word_of_nat d :: int8) = signed_take_bit 7 (int d)"
    by (simp add: signed_of_nat)
  also have "\<dots> = int d"
    using assms by (simp add: signed_take_bit_int_eq_self)
  finally show ?thesis .
qed

lemma hexVal_lt_16: "hexVal ch = Some d \<Longrightarrow> d < 16"
  by (auto simp: hexVal_def word_le_nat_alt split: if_splits)

lemma byte_sub_of_nat: "unat k \<le> unat (ch :: byte) \<Longrightarrow> ch - k = word_of_nat (unat ch - unat k)"
  by (metis of_nat_diff of_nat_unat ucast_id)

lemma unhex_Some: "hexVal ch = Some d \<Longrightarrow> unhex ch = word_of_nat d"
proof -
  assume a: "hexVal ch = Some d"
  have s: "48 \<le> unat ch \<Longrightarrow> ch - 48 = word_of_nat (unat ch - 48)"
    "97 \<le> unat ch \<Longrightarrow> ch - 97 + 10 = word_of_nat (unat ch - 87)"
    "65 \<le> unat ch \<Longrightarrow> ch - 65 + 10 = word_of_nat (unat ch - 55)"
    using byte_sub_of_nat [of 48 ch] byte_sub_of_nat [of 87 ch] byte_sub_of_nat [of 55 ch]
    by simp_all
  from a s show ?thesis
    by (auto simp: unhex_eq hexDigit_def hexVal_def word_le_nat_alt split: if_splits)
qed

lemma unhex_None: "hexVal ch = None \<Longrightarrow> unhex ch = - 1"
  by (auto simp: unhex_eq hexDigit_def hexVal_def split: if_splits)

lemma unhex_sign: "sint (unhex ch) < 0 \<longleftrightarrow> hexVal ch = None"
  by (cases "hexVal ch") (auto simp: unhex_None unhex_Some sint_int8_small hexVal_lt_16)

lemma unhex_scast: "hexVal ch = Some d \<Longrightarrow> (scast (unhex ch) :: int32) = word_of_nat d"
proof -
  assume a: "hexVal ch = Some d"
  then have "sint (unhex ch) = int d"
    by (simp add: unhex_Some sint_int8_small hexVal_lt_16)
  then show ?thesis by (simp add: scast_eq)
qed

section \<open>Properties\<close>

text \<open>
  C40: \<^verbatim>\<open>parseDecimalInt32\<close> reads every non-empty string of digits and nothing else, and its result
  is the number reduced to the signed 32-bit range: a number below 2 to the 31 is itself, a larger
  one wraps (4294967296 reads as 0).
\<close>

theorem parseDecimalInt32_wraps:
  "case parseDecimalInt32 b of
     None \<Rightarrow> b = [] \<or> (\<exists>c \<in> set b. \<not> isDigit c)
   | Some n \<Rightarrow> b \<noteq> [] \<and> list_all isDigit b \<and>
       sint n = (int (decValue b) + 2 ^ 31) mod 2 ^ 32 - 2 ^ 31"
proof -
  have "sint (word_of_nat k :: int32) = (int k + 2 ^ 31) mod 2 ^ 32 - 2 ^ 31" for k
    by (simp add: signed_of_nat signed_take_bit_eq_take_bit_shift take_bit_eq_mod)
  then show ?thesis by (auto simp: parseDecimalInt32_eq list_all_iff)
qed

end
