(* ===== verification/Byte_Cursor.thy ===== *)
theory Byte_Cursor
  imports Byte_Scan
begin

text \<open>
  The read cursor of \<^verbatim>\<open>internal/parser/cursor.go\<close> with \<^verbatim>\<open>scanCRLF\<close> of
  \<^verbatim>\<open>startline.go\<close>. The interface the parsers rely on is the locale \<open>byte_cursor\<close>: every
  operation is a function of the unread bytes. The parsers' theories use it through the
  interpretation \<open>cur\<close> on the source's buffer-and-offset representation.
\<close>

section \<open>Definitions\<close>

record cursor =
  cur_buf :: bytes
  cur_pos :: nat

definition newCursor :: "bytes \<Rightarrow> cursor" where
  "newCursor b = \<lparr>cur_buf = b, cur_pos = 0\<rparr>"

definition remaining :: "cursor \<Rightarrow> nat" where
  "remaining c =
     (if cur_pos c \<ge> length (cur_buf c) then 0 else length (cur_buf c) - cur_pos c)"

definition peek :: "cursor \<Rightarrow> byte option" where
  "peek c = (if cur_pos c \<ge> length (cur_buf c) then None else Some (cur_buf c ! cur_pos c))"

definition advance :: "cursor \<Rightarrow> nat \<Rightarrow> cursor" where
  "advance c n =
     (let c = c\<lparr>cur_pos := cur_pos c + n\<rparr>
      in if cur_pos c > length (cur_buf c) then c\<lparr>cur_pos := length (cur_buf c)\<rparr> else c)"

definition slice :: "cursor \<Rightarrow> nat \<Rightarrow> bytes" where
  "slice c n =
     (let stop = cur_pos c + n;
          stop = (if stop > length (cur_buf c) then length (cur_buf c) else stop)
      in drop (cur_pos c) (take stop (cur_buf c)))"

text \<open>
  \<^verbatim>\<open>slice\<close> takes a Go \<^verbatim>\<open>int\<close>. Lengths of lines are never negative; a length that comes
  from a 32-bit header value can be. Then the upper bound of the slice expression lies below
  its lower bound and the program panics: \<open>None\<close>.
\<close>

definition slice_int :: "cursor \<Rightarrow> int \<Rightarrow> bytes option" where
  "slice_int c n = (if n < 0 then None else Some (slice c (nat n)))"

function scanCRLF_at :: "bytes \<Rightarrow> nat \<Rightarrow> nat option" where
  "scanCRLF_at b i =
     (if i + 1 < length b
      then if b ! i = CR \<and> b ! (i + 1) = LF then Some i else scanCRLF_at b (i + 1)
      else None)"
  by pat_completeness auto
termination
  by (relation "measure (\<lambda>(b, i). length b - i)") auto

definition scanCRLF :: "cursor \<Rightarrow> nat option" where
  "scanCRLF c = map_option (\<lambda>i. i - cur_pos c) (scanCRLF_at (cur_buf c) (cur_pos c))"

declare scanCRLF_at.simps [simp del]

section \<open>The interface\<close>

text \<open>
  \<open>rest c\<close> is what is left to read. The laws determine every operation from it, so a
  parser written against a cursor is a parser of byte strings.
\<close>

locale byte_cursor =
  fixes rest :: "'c \<Rightarrow> bytes"
    and rem_op :: "'c \<Rightarrow> nat"
    and peek_op :: "'c \<Rightarrow> byte option"
    and adv_op :: "'c \<Rightarrow> nat \<Rightarrow> 'c"
    and slice_op :: "'c \<Rightarrow> nat \<Rightarrow> bytes"
    and scan_op :: "'c \<Rightarrow> nat option"
  assumes rem_rest: "rem_op c = length (rest c)"
    and peek_rest: "peek_op c = (case rest c of [] \<Rightarrow> None | b # _ \<Rightarrow> Some b)"
    and adv_rest: "rest (adv_op c n) = drop n (rest c)"
    and slice_rest: "slice_op c n = take n (rest c)"
    and scan_rest: "scan_op c = scanCRLFBytes (rest c)"
begin

lemmas over_rest = rem_rest peek_rest adv_rest slice_rest scan_rest

lemma peek_None_iff: "peek_op c = None \<longleftrightarrow> rem_op c = 0"
  by (simp add: over_rest split: list.split)

lemma adv_add: "rest (adv_op (adv_op c m) n) = rest (adv_op c (m + n))"
  by (simp add: over_rest add.commute)

lemma slice_adv: "slice_op c n @ rest (adv_op c n) = rest c"
  by (simp add: over_rest)

text \<open>Reading a line: scan, slice, advance past the line end.\<close>

lemma scan_line:
  assumes "scan_op c = Some n"
  shows "rest c = slice_op c n @ CRLF @ rest (adv_op c (n + 2))"
    and "scanCRLFBytes (slice_op c n @ [CR]) = None"
    and "length (slice_op c n) = n"
proof -
  from assms have s: "scanCRLFBytes (rest c) = Some n" by (simp add: over_rest)
  show "rest c = slice_op c n @ CRLF @ rest (adv_op c (n + 2))"
    and "scanCRLFBytes (slice_op c n @ [CR]) = None"
    using scanCRLFBytes_SomeD [OF s] by (simp_all add: over_rest)
  show "length (slice_op c n) = n"
    using scanCRLFBytes_bound [OF s] by (simp add: over_rest)
qed

lemma scan_line_append:
  assumes "rest c = line @ CRLF @ r" and "scanCRLFBytes (line @ [CR]) = None"
  shows "scan_op c = Some (length line)" and "slice_op c (length line) = line"
    and "rest (adv_op c (length line + 2)) = r"
  using assms by (simp_all add: over_rest scanCRLFBytes_append)

lemma scan_decreases: "scan_op c = Some n \<Longrightarrow> rem_op (adv_op c (n + 2)) < rem_op c"
  using scanCRLFBytes_bound [of "rest c" n] by (simp add: over_rest)

end

section \<open>The source's cursor implements it\<close>

definition cur_rest :: "cursor \<Rightarrow> bytes" where
  "cur_rest c = drop (cur_pos c) (cur_buf c)"

lemma scanCRLFBytes_drop:
  "scanCRLFBytes (drop i b) =
     (if i + 1 < length b
      then if b ! i = CR \<and> b ! (i + 1) = LF then Some 0
           else map_option Suc (scanCRLFBytes (drop (Suc i) b))
      else None)"
proof (cases "i + 1 < length b")
  case True
  then have "drop i b = b ! i # b ! Suc i # drop (Suc (Suc i)) b"
    and "drop (Suc i) b = b ! Suc i # drop (Suc (Suc i)) b"
    by (simp_all add: Cons_nth_drop_Suc)
  with True show ?thesis by simp
next
  case False
  then have "length (drop i b) \<le> 1" by simp
  then show ?thesis
    using False by (cases "drop i b" rule: scanCRLFBytes.cases) simp_all
qed

lemma scanCRLF_at_eq: "scanCRLF_at b i = map_option (\<lambda>k. i + k) (scanCRLFBytes (drop i b))"
proof (induction b i rule: scanCRLF_at.induct)
  case (1 b i)
  then show ?case
    by (subst scanCRLF_at.simps, subst scanCRLFBytes_drop)
      (auto simp: option.map_comp comp_def)
qed

interpretation cur: byte_cursor cur_rest remaining peek advance slice scanCRLF
proof unfold_locales
  fix c :: cursor and n :: nat
  show "remaining c = length (cur_rest c)"
    by (simp add: remaining_def cur_rest_def)
  show "peek c = (case cur_rest c of [] \<Rightarrow> None | b # _ \<Rightarrow> Some b)"
    by (auto simp: peek_def cur_rest_def not_le Cons_nth_drop_Suc [symmetric])
  show "cur_rest (advance c n) = drop n (cur_rest c)"
    by (simp add: advance_def cur_rest_def Let_def add.commute)
  show "slice c n = take n (cur_rest c)"
    by (auto simp: slice_def cur_rest_def take_drop Let_def add.commute)
  show "scanCRLF c = scanCRLFBytes (cur_rest c)"
    by (simp add: scanCRLF_def scanCRLF_at_eq cur_rest_def option.map_comp comp_def option.map_ident)
qed

lemmas [cursor_simps] = cur.over_rest

lemma newCursor_rest [cursor_simps]: "cur_rest (newCursor b) = b"
  by (simp add: newCursor_def cur_rest_def)

lemma peek_two:
  assumes "\<not> remaining c < 2"
  shows "peek c = Some (cur_rest c ! 0)" and "peek (advance c 1) = Some (cur_rest c ! 1)"
proof -
  from assms obtain x y r where "cur_rest c = x # y # r"
    by (cases "cur_rest c" rule: remdups_adj.cases) (auto simp: cursor_simps)
  then show "peek c = Some (cur_rest c ! 0)" and "peek (advance c 1) = Some (cur_rest c ! 1)"
    by (simp_all add: cursor_simps)
qed

section \<open>The offset stays inside the buffer\<close>

definition cursor_wf :: "cursor \<Rightarrow> bool" where
  "cursor_wf c \<longleftrightarrow> cur_pos c \<le> length (cur_buf c)"

lemma newCursor_wf [wf_intros]: "cursor_wf (newCursor b)"
  by (simp add: cursor_wf_def newCursor_def)

lemma advance_wf [wf_intros]: "cursor_wf (advance c n)"
  by (simp add: cursor_wf_def advance_def Let_def)

lemma advance_buf [frame_simps]: "cur_buf (advance c n) = cur_buf c"
  by (simp add: advance_def Let_def)

text \<open>A well-formed cursor is determined by its buffer and what is left to read.\<close>

definition at_rest :: "bytes \<Rightarrow> bytes \<Rightarrow> cursor" where
  "at_rest b r = \<lparr>cur_buf = b, cur_pos = length b - length r\<rparr>"

lemma at_rest_eq: "cursor_wf c \<Longrightarrow> at_rest (cur_buf c) (cur_rest c) = c"
  by (cases c) (simp add: at_rest_def cur_rest_def cursor_wf_def)

lemma advance_at_rest:
  "cursor_wf c \<Longrightarrow> advance c n = at_rest (cur_buf c) (drop n (cur_rest c))"
  using at_rest_eq [OF advance_wf, of c n] by (simp add: advance_buf cur.adv_rest)

lemma cur_rest_at_rest [cursor_simps]: "cur_rest (at_rest (xs @ r) r) = r"
  by (simp add: at_rest_def cur_rest_def)

lemma at_rest_pos: "cur_pos (at_rest b r) = length b - length r"
  by (simp add: at_rest_def)

lemma at_rest_buf [simp]: "cur_buf (at_rest b r) = b"
  by (simp add: at_rest_def)

lemma cursor_pos_rest: "cursor_wf c \<Longrightarrow> cur_pos c = length (cur_buf c) - length (cur_rest c)"
  by (simp add: cur_rest_def cursor_wf_def)

end
