(* ===== verification/Http_Method.thy ===== *)
theory Http_Method
  imports Byte_Scan
begin

text \<open>
  \<^verbatim>\<open>internal/parser/method.go\<close> and \<^verbatim>\<open>matchMethod\<close> of \<^verbatim>\<open>scan.go\<close>. A \<^verbatim>\<open>Method\<close> is
  the source's \<^verbatim>\<open>int8\<close>; its constants count from 1, and 0 is the zero value of a parser that
  has seen no request line. The theory shows that recognising a method name and printing it
  are inverse up to letter case.
\<close>

section \<open>Definitions\<close>

type_synonym Method = int8

abbreviation (input) GET :: Method where "GET \<equiv> 1"
abbreviation (input) HEAD :: Method where "HEAD \<equiv> 2"
abbreviation (input) POST :: Method where "POST \<equiv> 3"
abbreviation (input) PUT :: Method where "PUT \<equiv> 4"
abbreviation (input) DELETE :: Method where "DELETE \<equiv> 5"
abbreviation (input) CONNECT :: Method where "CONNECT \<equiv> 6"
abbreviation (input) OPTIONS :: Method where "OPTIONS \<equiv> 7"
abbreviation (input) TRACE :: Method where "TRACE \<equiv> 8"
abbreviation (input) ACL :: Method where "ACL \<equiv> 9"
abbreviation (input) BIND :: Method where "BIND \<equiv> 10"
abbreviation (input) COPY :: Method where "COPY \<equiv> 11"
abbreviation (input) CHECKOUT :: Method where "CHECKOUT \<equiv> 12"
abbreviation (input) LOCK :: Method where "LOCK \<equiv> 13"
abbreviation (input) UNLOCK :: Method where "UNLOCK \<equiv> 14"
abbreviation (input) LINK :: Method where "LINK \<equiv> 15"
abbreviation (input) MKCOL :: Method where "MKCOL \<equiv> 16"
abbreviation (input) MOVE :: Method where "MOVE \<equiv> 17"
abbreviation (input) MKACTIVITY :: Method where "MKACTIVITY \<equiv> 18"
abbreviation (input) MERGE :: Method where "MERGE \<equiv> 19"
abbreviation (input) MSEARCH :: Method where "MSEARCH \<equiv> 20"
abbreviation (input) MKCALENDAR :: Method where "MKCALENDAR \<equiv> 21"
abbreviation (input) NOTIFY :: Method where "NOTIFY \<equiv> 22"
abbreviation (input) PROPFIND :: Method where "PROPFIND \<equiv> 23"
abbreviation (input) PROPPATCH :: Method where "PROPPATCH \<equiv> 24"
abbreviation (input) PATCH :: Method where "PATCH \<equiv> 25"
abbreviation (input) PURGE :: Method where "PURGE \<equiv> 26"
abbreviation (input) REPORT :: Method where "REPORT \<equiv> 27"
abbreviation (input) REBIND :: Method where "REBIND \<equiv> 28"
abbreviation (input) SUBSCRIBE :: Method where "SUBSCRIBE \<equiv> 29"
abbreviation (input) SEARCH :: Method where "SEARCH \<equiv> 30"
abbreviation (input) SOURCE :: Method where "SOURCE \<equiv> 31"
abbreviation (input) UNSUBSCRIBE :: Method where "UNSUBSCRIBE \<equiv> 32"
abbreviation (input) UNBIND :: Method where "UNBIND \<equiv> 33"
abbreviation (input) UNLINK :: Method where "UNLINK \<equiv> 34"

definition methodNames :: "string list" where
  "methodNames =
     ['''',
      ''GET'', ''HEAD'', ''POST'', ''PUT'', ''DELETE'',
      ''CONNECT'', ''OPTIONS'', ''TRACE'', ''ACL'', ''BIND'',
      ''COPY'', ''CHECKOUT'', ''LOCK'', ''UNLOCK'', ''LINK'',
      ''MKCOL'', ''MOVE'', ''MKACTIVITY'', ''MERGE'', ''M-SEARCH'',
      ''MKCALENDAR'', ''NOTIFY'', ''PROPFIND'', ''PROPPATCH'', ''PATCH'',
      ''PURGE'', ''REPORT'', ''REBIND'', ''SUBSCRIBE'', ''SEARCH'',
      ''SOURCE'', ''UNSUBSCRIBE'', ''UNBIND'', ''UNLINK'']"

definition Method_String :: "Method \<Rightarrow> string" where
  "Method_String m =
     (if sint m > 0 \<and> sint m < int (length methodNames)
      then (let name = methodNames ! nat (sint m)
            in if name \<noteq> '''' then name else ''UNKNOWN'')
      else ''UNKNOWN'')"

text \<open>A \<^verbatim>\<open>switch\<close> over \<^verbatim>\<open>equalFoldToken\<close> cases: the first case that matches gives the result.\<close>

fun switchFold :: "(string \<times> 'a) list \<Rightarrow> bytes \<Rightarrow> 'a option" where
  "switchFold [] b = None"
| "switchFold ((token, r) # cases) b =
     (if equalFoldToken b token then Some r else switchFold cases b)"

definition methodSwitch :: "(string \<times> Method) list" where
  "methodSwitch =
      [(''get'', GET), (''head'', HEAD), (''post'', POST),
       (''put'', PUT), (''delete'', DELETE), (''connect'', CONNECT),
       (''options'', OPTIONS), (''trace'', TRACE), (''acl'', ACL),
       (''bind'', BIND), (''copy'', COPY), (''checkout'', CHECKOUT),
       (''lock'', LOCK), (''unlock'', UNLOCK), (''link'', LINK),
       (''mkcol'', MKCOL), (''move'', MOVE), (''mkactivity'', MKACTIVITY),
       (''merge'', MERGE), (''m-search'', MSEARCH), (''mkcalendar'', MKCALENDAR),
       (''notify'', NOTIFY), (''propfind'', PROPFIND), (''proppatch'', PROPPATCH),
       (''patch'', PATCH), (''purge'', PURGE), (''report'', REPORT),
       (''rebind'', REBIND), (''subscribe'', SUBSCRIBE), (''search'', SEARCH),
       (''source'', SOURCE), (''unsubscribe'', UNSUBSCRIBE), (''unbind'', UNBIND),
       (''unlink'', UNLINK)]"

definition matchMethod :: "bytes \<Rightarrow> Method option" where
  "matchMethod b = switchFold methodSwitch b"

section \<open>Names and methods\<close>

lemma switchFold_SomeE:
  assumes "switchFold cases b = Some r"
  obtains t where "(t, r) \<in> set cases" "equalFoldToken b t"
proof -
  from assms have "\<exists>t. (t, r) \<in> set cases \<and> equalFoldToken b t"
    by (induction cases b rule: switchFold.induct) (auto split: if_splits)
  then show thesis using that by blast
qed

lemma switchFold_Some_iff:
  "distinct (map (str \<circ> fst) cases) \<Longrightarrow>
     switchFold cases b = Some r \<longleftrightarrow> (\<exists>t. (t, r) \<in> set cases \<and> map lowerByte b = str t)"
  by (induction cases b rule: switchFold.induct) (auto simp: equalFoldToken_eq, force+)

lemma methodSwitch_distinct: "distinct (map (str \<circ> fst) methodSwitch)"
  by code_simp

lemma methodSwitch_names:
  "list_all (\<lambda>(t, m). map lowerByte (str (Method_String m)) = str t) methodSwitch"
  by code_simp

lemma methodSwitch_codes: "map snd methodSwitch = map word_of_nat [1 ..< 35]"
  by code_simp

lemma method_code_range:
  "m \<in> snd ` set methodSwitch \<longleftrightarrow> 1 \<le> sint m \<and> sint m \<le> 34"
proof -
  have "snd ` set methodSwitch = word_of_nat ` {1 ..< 35}"
    using arg_cong [OF methodSwitch_codes, of set] by simp
  moreover have "m \<in> word_of_nat ` {1 ..< 35} \<longleftrightarrow> 1 \<le> sint m \<and> sint m \<le> 34"
  proof
    assume "m \<in> word_of_nat ` {1 ..< 35}"
    then obtain k where "m = word_of_nat k" "1 \<le> k" "k < 35" by auto
    moreover from this have "sint (word_of_nat k :: int8) = int k"
      by (simp add: signed_of_nat signed_take_bit_int_eq_self)
    ultimately show "1 \<le> sint m \<and> sint m \<le> 34" by simp
  next
    assume r: "1 \<le> sint m \<and> sint m \<le> 34"
    have "m = word_of_nat (nat (sint m))" using r by simp
    moreover from r have "nat (sint m) \<in> {1 ..< 35}" by auto
    ultimately show "m \<in> word_of_nat ` {1 ..< 35}" by (rule image_eqI)
  qed
  ultimately show ?thesis by simp
qed

lemma matchMethod_names:
  "matchMethod b = Some m \<longleftrightarrow>
     m \<in> snd ` set methodSwitch \<and> map lowerByte b = map lowerByte (str (Method_String m))"
proof -
  have names: "str t = map lowerByte (str (Method_String m))" if "(t, m) \<in> set methodSwitch" for t
    using methodSwitch_names that by (auto simp: list_all_iff)
  have "matchMethod b = Some m \<longleftrightarrow> (\<exists>t. (t, m) \<in> set methodSwitch \<and> map lowerByte b = str t)"
    by (simp add: matchMethod_def switchFold_Some_iff methodSwitch_distinct)
  also have "\<dots> \<longleftrightarrow> m \<in> snd ` set methodSwitch \<and>
      map lowerByte b = map lowerByte (str (Method_String m))"
    using names by force
  finally show ?thesis .
qed

lemma matchMethod_String: "1 \<le> sint m \<Longrightarrow> sint m \<le> 34 \<Longrightarrow> matchMethod (str (Method_String m)) = Some m"
  by (simp add: matchMethod_names method_code_range)

section \<open>Properties\<close>

text \<open>
  C39: \<^verbatim>\<open>matchMethod\<close> inverts \<^verbatim>\<open>Method.String\<close>: a token is recognised as a method exactly when it
  spells that method's name, in any letter case, and each of the 34 methods is recognised.
\<close>

theorem matchMethod_iff:
  "matchMethod b = Some m \<longleftrightarrow>
     1 \<le> sint m \<and> sint m \<le> 34 \<and> map lowerByte b = map lowerByte (str (Method_String m))"
  by (simp add: matchMethod_names method_code_range)

end
