(* ===== verification/Start_Line.thy ===== *)
theory Start_Line
  imports Byte_Cursor Http_Method
begin

text \<open>
  Start lines and header lines: \<^verbatim>\<open>internal/parser/startline.go\<close> and \<^verbatim>\<open>headers.go\<close>. Each
  parser is shown equivalent to the grammar it accepts: the exact set of lines, with the fields
  it returns.
\<close>

section \<open>Definitions\<close>

record requestLine =
  rl_Method :: Method
  rl_Target :: bytes
  rl_Major :: byte
  rl_Minor :: byte

record responseLine =
  sl_Major :: byte
  sl_Minor :: byte
  sl_StatusCode :: uint16
  sl_Reason :: bytes

record headerLine =
  h_Name :: bytes
  h_Value :: bytes

definition parseHTTPVersionToken :: "bytes \<Rightarrow> (byte \<times> byte) option" where
  "parseHTTPVersionToken b =
     (if length b \<noteq> 8 \<or> take 5 b \<noteq> str ''HTTP/'' then None
      else parseHTTPVersionDigits (drop 5 b))"

definition parseRequestLineBytes :: "bytes \<Rightarrow> requestLine option" where
  "parseRequestLineBytes line = do {
     firstSpace \<leftarrow> scanToByte line SP;
     second \<leftarrow> scanToByte (drop (firstSpace + 1) line) SP;
     let secondSpace = second + (firstSpace + 1);
     method \<leftarrow> matchMethod (take firstSpace line);
     (major, minor) \<leftarrow> parseHTTPVersionToken (drop (secondSpace + 1) line);
     Some \<lparr>rl_Method = method, rl_Target = drop (firstSpace + 1) (take secondSpace line),
           rl_Major = major, rl_Minor = minor\<rparr>
   }"

definition parseRequestLine :: "cursor \<Rightarrow> requestLine option" where
  "parseRequestLine c =
     (case scanCRLF c of
        None \<Rightarrow> None
      | Some lineEnd \<Rightarrow> parseRequestLineBytes (slice c lineEnd))"

definition parseResponseLineBytes :: "bytes \<Rightarrow> responseLine option" where
  "parseResponseLineBytes line =
     (if length line < length ''HTTP/1.1 1 X'' \<or> take 5 line \<noteq> str ''HTTP/'' then None
      else do {
        (major, minor) \<leftarrow> parseHTTPVersionDigits (drop 5 line);
        (if length line < 12 \<or> line ! 8 \<noteq> SP then None
         else do {
           status32 \<leftarrow> parseDecimalInt32 (drop 9 (take 12 line));
           let reason = (if length line > 13 then drop 13 line else []);
           Some \<lparr>sl_Major = major, sl_Minor = minor, sl_StatusCode = ucast status32,
                 sl_Reason = reason\<rparr>
         })
      })"

definition parseResponseLine :: "cursor \<Rightarrow> responseLine option" where
  "parseResponseLine c =
     (case scanCRLF c of
        None \<Rightarrow> None
      | Some lineEnd \<Rightarrow> parseResponseLineBytes (slice c lineEnd))"

definition parseHeaderLineBytes :: "bytes \<Rightarrow> headerLine option" where
  "parseHeaderLineBytes line = do {
     sep \<leftarrow> scanToByte line COLON;
     let value = drop (sep + 1) line;
     let value = drop (skipSpaces value) value;
     Some \<lparr>h_Name = take sep line, h_Value = value\<rparr>
   }"

definition parseHeaderLine :: "cursor \<Rightarrow> headerLine option" where
  "parseHeaderLine c =
     (case scanCRLF c of
        None \<Rightarrow> None
      | Some lineEnd \<Rightarrow> parseHeaderLineBytes (slice c lineEnd))"

section \<open>Version tokens\<close>

lemma digit_sub: "(48 :: byte) \<le> x \<Longrightarrow> x \<le> 57 \<Longrightarrow> x - 48 \<le> 9"
  by unat_arith

lemma digit_add: "(x :: byte) \<le> 9 \<Longrightarrow> \<not> x + 48 < 48 \<and> \<not> 57 < x + 48"
  by (simp add: not_less word_le_nat_alt unat_word_ariths)

lemma parseHTTPVersionDigits_Some_iff:
  "parseHTTPVersionDigits b = Some (major, minor) \<longleftrightarrow>
     (\<exists>r. b = (major + 48) # DOT # (minor + 48) # r) \<and> major \<le> 9 \<and> minor \<le> 9"
  (is "?l \<longleftrightarrow> ?r")
proof
  assume l: ?l
  then obtain x y z r where b: "b = x # y # z # r"
    by (cases b rule: remdups_adj.cases; cases "tl (tl b)")
      (auto simp: parseHTTPVersionDigits_def split: if_splits)
  from l b show ?r
    by (auto simp: parseHTTPVersionDigits_def digit_sub not_less split: if_splits)
next
  assume ?r
  then show ?l by (auto simp: parseHTTPVersionDigits_def digit_add)
qed

lemma parseHTTPVersionToken_Some_iff:
  "parseHTTPVersionToken b = Some (major, minor) \<longleftrightarrow>
     b = str ''HTTP/'' @ [major + 48, DOT, minor + 48] \<and> major \<le> 9 \<and> minor \<le> 9"
  (is "?l \<longleftrightarrow> ?r")
proof
  assume l: ?l
  then have len: "length b = 8" and pre: "take 5 b = str ''HTTP/''"
    and d: "parseHTTPVersionDigits (drop 5 b) = Some (major, minor)"
    by (auto simp: parseHTTPVersionToken_def split: if_splits)
  from d obtain r where r: "drop 5 b = (major + 48) # DOT # (minor + 48) # r"
    and le: "major \<le> 9" "minor \<le> 9"
    by (auto simp: parseHTTPVersionDigits_Some_iff)
  from arg_cong [OF r, of length] len have "r = []" by simp
  with r pre le show ?r by (metis append_take_drop_id)
next
  assume ?r
  then show ?l by (auto simp: parseHTTPVersionToken_def parseHTTPVersionDigits_Some_iff)
qed

section \<open>Request lines\<close>

lemma lowerByte_SP: "lowerByte b = SP \<longleftrightarrow> b = SP"
  by (auto simp: lowerByte_def)

lemma methodSwitch_no_space: "list_all (\<lambda>(t, m). SP \<notin> set (str t)) methodSwitch"
  by code_simp

lemma matchMethod_no_space:
  assumes "matchMethod name = Some m"
  shows "SP \<notin> set name"
proof -
  from assms obtain t where t: "(t, m) \<in> set methodSwitch" "map lowerByte name = str t"
    by (auto simp: matchMethod_def switchFold_Some_iff methodSwitch_distinct)
  with methodSwitch_no_space have "SP \<notin> set (map lowerByte name)"
    by (auto simp: list_all_iff)
  then show ?thesis by (auto simp: lowerByte_SP image_iff)
qed

lemma parseRequestLineBytes_intro:
  assumes line: "line = name @ SP # rl_Target rl @ SP # str ''HTTP/'' @
        [rl_Major rl + 48, DOT, rl_Minor rl + 48]"
    and m: "matchMethod name = Some (rl_Method rl)" and t: "SP \<notin> set (rl_Target rl)"
    and v: "rl_Major rl \<le> 9" "rl_Minor rl \<le> 9"
  shows "parseRequestLineBytes line = Some rl"
proof -
  let ?v = "str ''HTTP/'' @ [rl_Major rl + 48, DOT, rl_Minor rl + 48]"
  have "scanToByte line SP = Some (length name)"
    unfolding line by (rule scanToByte_append) (rule matchMethod_no_space [OF m])
  moreover have "drop (length name + 1) line = rl_Target rl @ SP # ?v"
    unfolding line by simp
  moreover have "scanToByte (rl_Target rl @ SP # ?v) SP = Some (length (rl_Target rl))"
    using t by (rule scanToByte_append)
  moreover have "take (length name) line = name"
    unfolding line by simp
  moreover have "drop (length (rl_Target rl) + (length name + 1) + 1) line = ?v"
    unfolding line by simp
  moreover have "drop (length name + 1) (take (length (rl_Target rl) + (length name + 1)) line) = rl_Target rl"
    unfolding line by simp
  moreover have "parseHTTPVersionToken ?v = Some (rl_Major rl, rl_Minor rl)"
    using v by (simp only: parseHTTPVersionToken_Some_iff simp_thms)
  ultimately show ?thesis
    using m unfolding parseRequestLineBytes_def Let_def by simp
qed

text \<open>
  The exact grammar of request lines. A line is accepted exactly when it is a method name, a
  space, a target without spaces (possibly empty), a space and a version of one digit each, and
  the fields returned are those parts.
\<close>

lemma parseRequestLineBytes_Some_iff:
  "parseRequestLineBytes line = Some rl \<longleftrightarrow>
     (\<exists>name. line = name @ SP # rl_Target rl @ SP # str ''HTTP/'' @
                     [rl_Major rl + 48, DOT, rl_Minor rl + 48] \<and>
        matchMethod name = Some (rl_Method rl) \<and> SP \<notin> set (rl_Target rl) \<and>
        rl_Major rl \<le> 9 \<and> rl_Minor rl \<le> 9)"
  (is "?l \<longleftrightarrow> ?r")
proof
  assume ?l
  then obtain i j m maj mnr where i: "scanToByte line SP = Some i"
    and j: "scanToByte (drop (i + 1) line) SP = Some j"
    and m: "matchMethod (take i line) = Some m"
    and v: "parseHTTPVersionToken (drop (j + (i + 1) + 1) line) = Some (maj, mnr)"
    and rl: "rl = \<lparr>rl_Method = m, rl_Target = drop (i + 1) (take (j + (i + 1)) line),
                  rl_Major = maj, rl_Minor = mnr\<rparr>"
    by (auto simp: parseRequestLineBytes_def Let_def bind_eq_Some_conv split: prod.splits)
  note li = scanToByte_SomeD [OF i] and lj = scanToByte_SomeD [OF j]
  have tgt: "drop (i + 1) (take (j + (i + 1)) line) = take j (drop (i + 1) line)"
    by (simp add: take_drop)
  have "drop (Suc j) (drop (i + 1) line) = drop (j + (i + 1) + 1) line"
    by simp
  with li lj have "line = take i line @ SP # take j (drop (i + 1) line) @ SP #
      drop (j + (i + 1) + 1) line"
    by (metis Suc_eq_plus1)
  with m v rl tgt lj show ?r
    by (intro exI [of _ "take i line"]) (auto simp: parseHTTPVersionToken_Some_iff)
next
  assume ?r
  then show ?l using parseRequestLineBytes_intro by blast
qed

section \<open>Response lines\<close>

lemma list_of_length_12:
  assumes "12 \<le> length l"
  shows "l = take 5 l @ [l ! 5, l ! 6, l ! 7, l ! 8, l ! 9, l ! 10, l ! 11] @ drop 12 l"
proof -
  have "drop 5 l = [l ! 5, l ! 6, l ! 7, l ! 8, l ! 9, l ! 10, l ! 11] @ drop 12 l"
    using assms by (simp add: Cons_nth_drop_Suc [symmetric] eval_nat_numeral)
  then show ?thesis by (metis append_take_drop_id)
qed

lemma parseResponseLineBytes_intro:
  assumes line: "line = str ''HTTP/'' @ [sl_Major sl + 48, DOT, sl_Minor sl + 48, SP, d1, d2, d3] @ t"
    and dig: "list_all isDigit [d1, d2, d3]" and v: "sl_Major sl \<le> 9" "sl_Minor sl \<le> 9"
    and st: "sl_StatusCode sl = ucast (word_of_nat (decValue [d1, d2, d3]) :: int32)"
    and rs: "sl_Reason sl = drop 1 t"
  shows "parseResponseLineBytes line = Some sl"
proof -
  have "parseHTTPVersionDigits (drop 5 line) = Some (sl_Major sl, sl_Minor sl)"
    using v by (simp add: line parseHTTPVersionDigits_Some_iff)
  moreover have "parseDecimalInt32 (drop 9 (take 12 line)) = Some (word_of_nat (decValue [d1, d2, d3]))"
    using dig by (simp add: line parseDecimalInt32_eq)
  moreover have "(if length line > 13 then drop 13 line else []) = drop 1 t"
    by (simp add: line)
  ultimately show ?thesis
    using st rs by (simp add: parseResponseLineBytes_def Let_def line)
qed

text \<open>
  The exact grammar of status lines: a version, a space, three digits, and whatever follows,
  whose first byte is skipped without being looked at.
\<close>

lemma parseResponseLineBytes_Some_iff:
  "parseResponseLineBytes line = Some sl \<longleftrightarrow>
     (\<exists>d1 d2 d3 t. line = str ''HTTP/'' @ [sl_Major sl + 48, DOT, sl_Minor sl + 48, SP, d1, d2, d3] @ t \<and>
        list_all isDigit [d1, d2, d3] \<and> sl_Major sl \<le> 9 \<and> sl_Minor sl \<le> 9 \<and>
        sl_StatusCode sl = ucast (word_of_nat (decValue [d1, d2, d3]) :: int32) \<and>
        sl_Reason sl = drop 1 t)"
  (is "?l \<longleftrightarrow> ?r")
proof
  assume l: ?l
  then have len: "12 \<le> length line" and pre: "take 5 line = str ''HTTP/''"
    by (auto simp: parseResponseLineBytes_def split: if_splits)
  define d1 d2 d3 t where d: "d1 = line ! 9" "d2 = line ! 10" "d3 = line ! 11" "t = drop 12 line"
  have line: "line = str ''HTTP/'' @ [line ! 5, line ! 6, line ! 7, line ! 8, d1, d2, d3] @ t"
    using list_of_length_12 [OF len] pre d by simp
  obtain x5 x6 x7 x8 where line': "line = str ''HTTP/'' @ [x5, x6, x7, x8, d1, d2, d3] @ t"
    using line by blast
  have dt: "drop 13 line = drop 1 t" unfolding line' by simp
  have reason: "(if length line > 13 then drop 13 line else []) = drop 1 t"
    using dt by (auto simp: line')
  from l have "parseHTTPVersionDigits ([x5, x6, x7, x8, d1, d2, d3] @ t) = Some (sl_Major sl, sl_Minor sl)"
    and "x8 = SP" and "parseDecimalInt32 [d1, d2, d3] = Some st \<Longrightarrow> sl_StatusCode sl = ucast st"
    and "parseDecimalInt32 [d1, d2, d3] \<noteq> None"
    and "sl_Reason sl = drop 1 t" for st
    unfolding parseResponseLineBytes_def reason
    by (auto simp: line' bind_eq_Some_conv Let_def split: if_splits)
  then show ?r
    using line' by (auto simp: parseHTTPVersionDigits_Some_iff parseDecimalInt32_eq split: if_splits)
next
  assume ?r
  then show ?l using parseResponseLineBytes_intro by blast
qed

section \<open>Header lines\<close>

text \<open>A value the parser leaves as it is.\<close>

definition trimmed :: "bytes \<Rightarrow> bool" where
  "trimmed v = (case v of [] \<Rightarrow> True | c # _ \<Rightarrow> c \<noteq> SP \<and> c \<noteq> HTAB)"

lemma trimmed_iff: "trimmed v \<longleftrightarrow> v = [] \<or> hd v \<notin> {SP, HTAB}"
  by (cases v) (auto simp: trimmed_def)

lemma parseHeaderLineBytes_intro:
  assumes line: "line = h_Name h @ COLON # ws @ h_Value h"
    and n: "COLON \<notin> set (h_Name h)" and ws: "set ws \<subseteq> {SP, HTAB}" and v: "trimmed (h_Value h)"
  shows "parseHeaderLineBytes line = Some h"
proof -
  have "skipSpaces (ws @ h_Value h) = length ws"
    using ws v by (simp add: skipSpaces_spaces skipSpaces_none trimmed_iff)
  then show ?thesis
    using n by (simp add: parseHeaderLineBytes_def line scanToByte_append)
qed

text \<open>
  The exact grammar of header lines: a name without colon, a colon, optional spaces and tabs,
  and a value that does not start with one. Trailing space and empty names are kept.
\<close>

lemma parseHeaderLineBytes_Some_iff:
  "parseHeaderLineBytes line = Some h \<longleftrightarrow>
     (\<exists>ws. line = h_Name h @ COLON # ws @ h_Value h \<and> COLON \<notin> set (h_Name h) \<and>
        set ws \<subseteq> {SP, HTAB} \<and> trimmed (h_Value h))"
  (is "?l \<longleftrightarrow> ?r")
proof
  assume ?l
  then obtain i where i: "scanToByte line COLON = Some i" and
    h: "h = \<lparr>h_Name = take i line,
            h_Value = drop (skipSpaces (drop (i + 1) line)) (drop (i + 1) line)\<rparr>"
    by (auto simp: parseHeaderLineBytes_def Let_def bind_eq_Some_conv)
  let ?v = "drop (i + 1) line"
  have "line = take i line @ COLON # take (skipSpaces ?v) ?v @ drop (skipSpaces ?v) ?v"
    unfolding append_take_drop_id using scanToByte_SomeD [OF i] by simp
  then show ?r
    using h scanToByte_SomeD [OF i] skipSpaces_take [of ?v] skipSpaces_drop_hd [of ?v]
    by (intro exI [of _ "take (skipSpaces ?v) ?v"]) (simp add: trimmed_iff)
next
  assume ?r
  then show ?l using parseHeaderLineBytes_intro by blast
qed

section \<open>Lines read through a cursor\<close>

text \<open>
  On a cursor, each line parser is its byte-string parser on the first line of the unread
  bytes.
\<close>

definition firstLine :: "bytes \<Rightarrow> bytes option" where
  "firstLine b = map_option (\<lambda>n. take n b) (scanCRLFBytes b)"

lemma cursor_line_parsers [cursor_simps]:
  "parseRequestLine c = Option.bind (firstLine (cur_rest c)) parseRequestLineBytes"
  "parseResponseLine c = Option.bind (firstLine (cur_rest c)) parseResponseLineBytes"
  "parseHeaderLine c = Option.bind (firstLine (cur_rest c)) parseHeaderLineBytes"
  by (simp_all add: parseRequestLine_def parseResponseLine_def parseHeaderLine_def firstLine_def
      cursor_simps split: option.split)

lemma firstLine_append [scan_simps]:
  "scanCRLFBytes (line @ [CR]) = None \<Longrightarrow> firstLine (line @ CR # LF # r) = Some line"
  by (simp add: firstLine_def scan_simps)

end
