(* ===== verification/Framing.thy ===== *)
theory Framing
  imports Start_Line
begin

text \<open>
  Message framing: \<^verbatim>\<open>internal/parser/framing.go\<close>, \<^verbatim>\<open>setting.go\<close>'s \<^verbatim>\<open>ReqOrRsp\<close>, the error
  values of \<^verbatim>\<open>parser.go\<close> and the header semantics of \<^verbatim>\<open>engine.go\<close> (\<^verbatim>\<open>applyHeaderMeta\<close>,
  \<^verbatim>\<open>headerSemanticError\<close>). The chunked body of \<^verbatim>\<open>chunked.go\<close> is here too, with the encoder
  it inverts.
\<close>

section \<open>Definitions\<close>

datatype ReqOrRsp = REQUEST | RESPONSE | BOTH

datatype bodyMode = bodyModeNone | bodyModeContentLength | bodyModeChunked | bodyModeEOF

text \<open>
  The sentinel errors the parser returns, then the \<^verbatim>\<open>fmt.Errorf\<close> values by their
  format, then the errors of the buffered reader under \<^verbatim>\<open>ReadRequest\<close>.
\<close>

datatype error =
    ErrStatusLineHTTP
  | ErrHeaderOverflow
  | ErrNoEndLF
  | ErrChunkSize
  | ErrReqMethod
  | ErrScratchOverflow
  | ErrDuplicateContentLength
  | ErrInvalidContentLength bytes
  | ErrHeaderSemantics
  | ErrUnsupportedBodyMode
  | ErrURL bytes
  | ErrEOF
  | ErrIO string

record messageMeta =
  m_kind :: ReqOrRsp
  m_statusCode :: uint16
  m_hasContentLength :: bool
  m_contentLength :: int32
  m_hasTransferEncoding :: bool

definition newMeta :: "ReqOrRsp \<Rightarrow> uint16 \<Rightarrow> messageMeta" where
  "newMeta k status =
     \<lparr>m_kind = k, m_statusCode = status, m_hasContentLength = False, m_contentLength = 0,
      m_hasTransferEncoding = False\<rparr>"

definition decideBodyMode :: "messageMeta \<Rightarrow> bodyMode" where
  "decideBodyMode meta =
     (if m_hasTransferEncoding meta then bodyModeChunked
      else if m_hasContentLength meta
      then if m_contentLength meta = 0 then bodyModeNone else bodyModeContentLength
      else if m_kind meta = RESPONSE \<and> \<not> responseStatusHasNoBody (m_statusCode meta)
      then bodyModeEOF
      else bodyModeNone)"

text \<open>\<open>None\<close> is the source's \<^verbatim>\<open>false\<close>, returned before \<^verbatim>\<open>meta\<close> is written.\<close>

definition applyHeaderMeta :: "messageMeta \<Rightarrow> headerLine \<Rightarrow> messageMeta option" where
  "applyHeaderMeta meta h =
     (if equalFoldToken (h_Name h) ''content-length''
      then if m_hasContentLength meta then None
           else (case parseDecimalInt32 (h_Value h) of
                   None \<Rightarrow> None
                 | Some n \<Rightarrow> Some (meta\<lparr>m_hasContentLength := True, m_contentLength := n\<rparr>))
      else if equalFoldToken (h_Name h) ''transfer-encoding'' \<and> equalFoldToken (h_Value h) ''chunked''
      then Some (meta\<lparr>m_hasTransferEncoding := True\<rparr>)
      else Some meta)"

definition headerSemanticError :: "messageMeta \<Rightarrow> headerLine \<Rightarrow> error" where
  "headerSemanticError meta h =
     (if equalFoldToken (h_Name h) ''content-length''
      then if m_hasContentLength meta then ErrDuplicateContentLength
           else ErrInvalidContentLength (h_Value h)
      else ErrHeaderSemantics)"

subsection \<open>Chunked bodies\<close>

fun hexLoop :: "int32 \<Rightarrow> bytes \<Rightarrow> int32 option" where
  "hexLoop n [] = Some n"
| "hexLoop n (ch # r) =
     (let digit = unhex ch
      in if sint digit < 0 then None else hexLoop (n * 16 + scast digit) r)"

definition parseChunkSizeLineBytes :: "bytes \<Rightarrow> int32 option" where
  "parseChunkSizeLineBytes line =
     (let line = (case scanToByte line SEMICOLON of Some semi \<Rightarrow> take semi line | None \<Rightarrow> line)
      in if length line = 0 then None else hexLoop 0 line)"

definition parseChunkSizeLine :: "cursor \<Rightarrow> (int32 \<times> cursor) option" where
  "parseChunkSizeLine c =
     (case scanCRLF c of
        None \<Rightarrow> None
      | Some lineEnd \<Rightarrow>
          (case parseChunkSizeLineBytes (slice c lineEnd) of
             None \<Rightarrow> None
           | Some n \<Rightarrow> Some (n, advance c (lineEnd + 2))))"

definition consumeChunkData :: "cursor \<Rightarrow> int32 \<Rightarrow> (bytes \<times> cursor) option" where
  "consumeChunkData c sz =
     (if sint sz < 0 \<or> int (remaining c) < sint sz + 2 then None
      else
        let data = slice c (nat (sint sz));
            c = advance c (nat (sint sz))
        in if remaining c < 2 then None
           else if peek c \<noteq> Some CR then None
           else
             let c = advance c 1
             in if peek c \<noteq> Some LF then None
                else Some (data, advance c 1))"

section \<open>Chunk sizes\<close>

definition hexValue :: "bytes \<Rightarrow> nat" where
  "hexValue b = foldl (\<lambda>n ch. n * 16 + the (hexVal ch)) 0 b"

definition isHex :: "byte \<Rightarrow> bool" where
  "isHex ch \<longleftrightarrow> hexVal ch \<noteq> None"

lemma hexLoop_eq:
  "hexLoop (word_of_nat n) b =
     (if list_all isHex b
      then Some (word_of_nat (foldl (\<lambda>n ch. n * 16 + the (hexVal ch)) n b)) else None)"
proof (induction b arbitrary: n)
  case (Cons ch r)
  show ?case
  proof (cases "hexVal ch")
    case None
    then show ?thesis by (simp add: unhex_sign isHex_def)
  next
    case (Some d)
    have "(word_of_nat n * 16 + scast (unhex ch) :: int32) = word_of_nat (n * 16 + d)"
      by (simp add: unhex_scast [OF Some])
    then show ?thesis using Cons.IH [of "n * 16 + d"] Some by (simp add: unhex_sign isHex_def)
  qed
qed simp

lemma parseChunkSizeLineBytes_eq:
  "parseChunkSizeLineBytes line =
     (let digits = takeWhile (\<lambda>ch. ch \<noteq> SEMICOLON) line
      in if digits \<noteq> [] \<and> list_all isHex digits
         then Some (word_of_nat (hexValue digits)) else None)"
proof -
  have "(case scanToByte line SEMICOLON of Some semi \<Rightarrow> take semi line | None \<Rightarrow> line) =
      takeWhile (\<lambda>ch. ch \<noteq> SEMICOLON) line"
    by (induction line) (auto split: option.splits)
  then show ?thesis
    using hexLoop_eq [of 0] by (simp add: parseChunkSizeLineBytes_def hexValue_def Let_def)
qed

text \<open>Go's \<^verbatim>\<open>strconv.AppendInt(nil, n, 16)\<close>: lower-case digits, no leading zero.\<close>

definition hexChar :: "nat \<Rightarrow> byte" where
  "hexChar d = (if d < 10 then word_of_nat (48 + d) else word_of_nat (87 + d))"

fun appendInt16 :: "nat \<Rightarrow> bytes" where
  "appendInt16 n = (if n < 16 then [hexChar n] else appendInt16 (n div 16) @ [hexChar (n mod 16)])"

declare appendInt16.simps [simp del]

lemma hexVal_hexChar: "d < 16 \<Longrightarrow> hexVal (hexChar d) = Some d"
proof -
  assume "d < 16"
  then have "d = 0 \<or> d = 1 \<or> d = 2 \<or> d = 3 \<or> d = 4 \<or> d = 5 \<or> d = 6 \<or> d = 7 \<or> d = 8 \<or>
      d = 9 \<or> d = 10 \<or> d = 11 \<or> d = 12 \<or> d = 13 \<or> d = 14 \<or> d = 15"
    by arith
  then show ?thesis by (elim disjE) (simp_all add: hexVal_def hexChar_def)
qed

lemma isHex_hexChar: "d < 16 \<Longrightarrow> isHex (hexChar d)"
  by (simp add: isHex_def hexVal_hexChar)

lemma appendInt16_nonempty: "appendInt16 n \<noteq> []"
  by (subst appendInt16.simps) simp

lemma appendInt16_digits:
  "list_all isHex (appendInt16 n)"
proof (induction n rule: appendInt16.induct)
  case (1 n)
  then show ?case by (subst appendInt16.simps) (auto simp: isHex_hexChar)
qed

lemma hexValue_appendInt16: "hexValue (appendInt16 n) = n"
proof (induction n rule: appendInt16.induct)
  case (1 n)
  then show ?case
    by (subst appendInt16.simps) (auto simp: hexValue_def hexVal_hexChar)
qed

lemma isHex_not_sep:
  "isHex ch \<Longrightarrow> ch \<noteq> SEMICOLON \<and> ch \<noteq> LF \<and> ch \<noteq> CR"
  by (auto simp: hexVal_def isHex_def)

lemma appendInt16_no_sep: "ch \<in> set (appendInt16 n) \<Longrightarrow> ch \<noteq> SEMICOLON \<and> ch \<noteq> LF \<and> ch \<noteq> CR"
  using appendInt16_digits isHex_not_sep by (auto simp: list_all_iff)

lemma parseChunkSize_appendInt16 [scan_simps]:
  assumes "ext = [] \<or> hd ext = SEMICOLON"
  shows "parseChunkSizeLineBytes (appendInt16 n @ ext) = Some (word_of_nat n)"
proof -
  have "takeWhile (\<lambda>ch. ch \<noteq> SEMICOLON) (appendInt16 n @ ext) = appendInt16 n"
    using assms appendInt16_no_sep [of _ n] by (cases ext) (auto simp: takeWhile_append)
  then show ?thesis
    by (simp add: parseChunkSizeLineBytes_eq Let_def appendInt16_nonempty appendInt16_digits
        hexValue_appendInt16)
qed

section \<open>Chunked bodies over byte strings\<close>

text \<open>
  The cursor operations as functions of the unread bytes, and the reference decoder the four
  chunk loops of \<^verbatim>\<open>engine.go\<close> are compared with: the chunks in order and how the loop ended.
\<close>

definition chunkSizeB :: "bytes \<Rightarrow> (int32 \<times> bytes) option" where
  "chunkSizeB b = do {
     n \<leftarrow> scanCRLFBytes b;
     sz \<leftarrow> parseChunkSizeLineBytes (take n b);
     Some (sz, drop (n + 2) b)
   }"

definition chunkDataB :: "bytes \<Rightarrow> int32 \<Rightarrow> (bytes \<times> bytes) option" where
  "chunkDataB b sz =
     (if 0 \<le> sint sz \<and> take 2 (drop (nat (sint sz)) b) = CRLF
      then Some (take (nat (sint sz)) b, drop (nat (sint sz) + 2) b) else None)"

datatype chunkStop = ChunksDone bytes | ChunksShort | ChunksBad

lemma chunkSizeB_shorter: "chunkSizeB b = Some (sz, r) \<Longrightarrow> length r < length b"
  using scanCRLFBytes_bound [of b] by (auto simp: chunkSizeB_def bind_eq_Some_conv)

lemma chunkDataB_shorter: "chunkDataB b sz = Some (d, r) \<Longrightarrow> length r \<le> length b"
  by (auto simp: chunkDataB_def split: if_splits)

function decodeChunks :: "bytes \<Rightarrow> bytes list \<times> chunkStop" where
  "decodeChunks b =
     (case chunkSizeB b of
        None \<Rightarrow> ([], ChunksShort)
      | Some (sz, r) \<Rightarrow>
          if sz = 0
          then if length r < 2 then ([], ChunksShort)
               else if take 2 r = CRLF then ([], ChunksDone (drop 2 r)) else ([], ChunksBad)
          else (case chunkDataB r sz of
                  None \<Rightarrow> ([], ChunksShort)
                | Some (d, r') \<Rightarrow> apfst ((#) d) (decodeChunks r')))"
  by pat_completeness auto
termination
  by (relation "measure length")
    (auto dest!: chunkSizeB_shorter chunkDataB_shorter)

declare decodeChunks.simps [simp del]

lemma parseChunkSizeLine_rest [cursor_simps]:
  "map_option (apsnd cur_rest) (parseChunkSizeLine c) = chunkSizeB (cur_rest c)"
  by (simp add: parseChunkSizeLine_def chunkSizeB_def cursor_simps split: option.split)

lemma take_2_CRLF: "take 2 r = CRLF \<longleftrightarrow> 2 \<le> length r \<and> r ! 0 = CR \<and> r ! 1 = LF"
  by (cases r rule: remdups_adj.cases) auto

lemma consumeChunkData_rest [cursor_simps]:
  "map_option (apsnd cur_rest) (consumeChunkData c sz) = chunkDataB (cur_rest c) sz"
proof -
  have p: "(case r of [] \<Rightarrow> None | b # _ \<Rightarrow> Some b) = Some x \<longleftrightarrow> r \<noteq> [] \<and> r ! 0 = x" for r :: bytes and x
    by (cases r) auto
  show ?thesis
    by (auto simp: consumeChunkData_def chunkDataB_def Let_def cursor_simps p take_2_CRLF
        drop_eq_Nil not_less)
qed

lemma parseChunkSizeLine_SomeD:
  "parseChunkSizeLine c = Some (sz, c') \<Longrightarrow> chunkSizeB (cur_rest c) = Some (sz, cur_rest c')"
  using parseChunkSizeLine_rest [of c] by simp

lemma consumeChunkData_SomeD:
  "consumeChunkData c sz = Some (d, c') \<Longrightarrow> chunkDataB (cur_rest c) sz = Some (d, cur_rest c')"
  using consumeChunkData_rest [of c sz] by simp

lemma parseChunkSizeLine_remaining:
  "parseChunkSizeLine c = Some (sz, c') \<Longrightarrow> remaining c' < remaining c"
  using parseChunkSizeLine_SomeD chunkSizeB_shorter by (fastforce simp: cursor_simps)

lemma consumeChunkData_remaining:
  "consumeChunkData c sz = Some (d, c') \<Longrightarrow> remaining c' \<le> remaining c"
  using consumeChunkData_SomeD chunkDataB_shorter by (fastforce simp: cursor_simps)

lemma chunk_step_remaining:
  "parseChunkSizeLine c = Some (sz, c') \<Longrightarrow> consumeChunkData c' sz' = Some (d, c'') \<Longrightarrow>
     remaining c'' < remaining c"
  by (meson consumeChunkData_remaining le_less_trans parseChunkSizeLine_remaining)

text \<open>
  One turn of a chunk loop: no size line, the last chunk, a chunk that is not complete, or a
  chunk and a shorter rest. Every chunk loop is analysed with this rule.
\<close>

lemma chunk_cases:
  fixes c :: cursor
  obtains (short) "parseChunkSizeLine c = None" "decodeChunks (cur_rest c) = ([], ChunksShort)"
  | (last) c' where "parseChunkSizeLine c = Some (0, c')"
      "decodeChunks (cur_rest c) =
         ([], if remaining c' < 2 then ChunksShort
              else if peek c' = Some CR \<and> peek (advance c' 1) = Some LF
              then ChunksDone (cur_rest (advance (advance c' 1) 1)) else ChunksBad)"
  | (cut) sz c' where "parseChunkSizeLine c = Some (sz, c')" "sz \<noteq> 0" "consumeChunkData c' sz = None"
      "decodeChunks (cur_rest c) = ([], ChunksShort)"
  | (data) sz c' d c'' where "parseChunkSizeLine c = Some (sz, c')" "sz \<noteq> 0"
      "consumeChunkData c' sz = Some (d, c'')"
      "decodeChunks (cur_rest c) = apfst ((#) d) (decodeChunks (cur_rest c''))"
      "remaining c'' < remaining c"
proof (cases "parseChunkSizeLine c")
  case None
  then have "chunkSizeB (cur_rest c) = None"
    using parseChunkSizeLine_rest [of c] by simp
  with None show ?thesis using short by (simp add: decodeChunks.simps)
next
  case (Some p)
  obtain sz c' where p: "p = (sz, c')" by (cases p)
  note ps = Some [unfolded p]
  note B = parseChunkSizeLine_SomeD [OF ps]
  show ?thesis
  proof (cases "sz = 0")
    case True
    have "take 2 (cur_rest c') = CRLF \<longleftrightarrow> peek c' = Some CR \<and> peek (advance c' 1) = Some LF"
      if "\<not> remaining c' < 2"
      using peek_two [OF that] that by (auto simp: take_2_CRLF cur.rem_rest)
    with ps B True show ?thesis
      using last [of c'] by (simp add: decodeChunks.simps cur.adv_rest cur.rem_rest numeral_2_eq_2)
  next
    case False
    show ?thesis
    proof (cases "consumeChunkData c' sz")
      case None
      then have "chunkDataB (cur_rest c') sz = None"
        using consumeChunkData_rest [of c' sz] by simp
      with ps B False None show ?thesis using cut by (simp add: decodeChunks.simps)
    next
      case (Some q)
      obtain d c'' where q: "q = (d, c'')" by (cases q)
      have "decodeChunks (cur_rest c) = apfst ((#) d) (decodeChunks (cur_rest c''))"
        using B False consumeChunkData_SomeD [OF Some [unfolded q]]
        by (subst decodeChunks.simps) simp
      with ps False Some q show ?thesis
        using data chunk_step_remaining by blast
    qed
  qed
qed

section \<open>The encoder the decoder inverts\<close>

definition encodeChunk :: "bytes \<Rightarrow> bytes" where
  "encodeChunk d = appendInt16 (length d) @ CRLF @ d @ CRLF"

definition encodeChunks :: "bytes list \<Rightarrow> bytes" where
  "encodeChunks ds = concat (map encodeChunk ds) @ str ''0'' @ CRLF @ CRLF"

definition chunk_ok :: "bytes \<Rightarrow> bool" where
  "chunk_ok d \<longleftrightarrow> d \<noteq> [] \<and> length d < 2 ^ 31"

lemma appendInt16_line: "scanCRLFBytes (appendInt16 n @ CR # LF # r) = Some (length (appendInt16 n))"
  by (rule scanCRLFBytes_append, rule scanCRLFBytes_no_LF) (auto dest: appendInt16_no_sep)

lemma chunkSizeB_appendInt16 [scan_simps]:
  "chunkSizeB (appendInt16 n @ CR # LF # r) = Some (word_of_nat n, r)"
  using parseChunkSize_appendInt16 [of "[]" n]
  by (simp add: chunkSizeB_def appendInt16_line)

lemma chunkDataB_append [scan_simps]:
  "length d < 2 ^ 31 \<Longrightarrow> chunkDataB (d @ CR # LF # r) (word_of_nat (length d)) = Some (d, r)"
  by (simp add: chunkDataB_def sint_word_of_nat32)

lemma decodeChunks_chunk [scan_simps]:
  assumes "chunk_ok d"
  shows "decodeChunks (encodeChunk d @ r) = apfst ((#) d) (decodeChunks r)"
proof -
  from assms have "(word_of_nat (length d) :: int32) \<noteq> 0"
    using word_of_nat32_eq_0 [of "length d"] by (simp add: chunk_ok_def)
  with assms show ?thesis
    by (subst decodeChunks.simps) (simp add: encodeChunk_def chunk_ok_def scan_simps)
qed

lemma decodeChunks_last [scan_simps]:
  "decodeChunks (str ''0'' @ CRLF @ CRLF @ r) = ([], ChunksDone r)"
proof -
  have "chunkSizeB (str ''0'' @ CRLF @ CRLF @ r) = Some (0, CRLF @ r)"
    using chunkSizeB_appendInt16 [of 0 "CRLF @ r"] by (simp add: appendInt16.simps hexChar_def)
  then show ?thesis by (subst decodeChunks.simps) simp
qed

lemma decodeChunks_encodeChunks [scan_simps]:
  "list_all chunk_ok ds \<Longrightarrow> decodeChunks (encodeChunks ds @ r) = (ds, ChunksDone r)"
proof (induction ds)
  case Nil
  then show ?case using decodeChunks_last [of r] by (simp add: encodeChunks_def)
next
  case (Cons d ds)
  have "encodeChunks (d # ds) @ r = encodeChunk d @ (encodeChunks ds @ r)"
    by (simp add: encodeChunks_def)
  with Cons show ?case by (simp add: decodeChunks_chunk)
qed

section \<open>Header semantics over a list of headers\<close>

fun applyMetas :: "messageMeta \<Rightarrow> headerLine list \<Rightarrow> messageMeta option" where
  "applyMetas meta [] = Some meta"
| "applyMetas meta (h # hs) =
     (case applyHeaderMeta meta h of None \<Rightarrow> None | Some meta' \<Rightarrow> applyMetas meta' hs)"

lemma applyHeaderMeta_kind:
  "applyHeaderMeta meta h = Some meta' \<Longrightarrow>
     m_kind meta' = m_kind meta \<and> m_statusCode meta' = m_statusCode meta"
  by (auto simp: applyHeaderMeta_def split: if_splits option.splits)

lemma applyMetas_kind:
  "applyMetas meta hs = Some meta' \<Longrightarrow>
     m_kind meta' = m_kind meta \<and> m_statusCode meta' = m_statusCode meta"
  by (induction hs arbitrary: meta) (auto dest: applyHeaderMeta_kind split: option.splits)

lemma decideBodyMode_request: "m_kind meta = REQUEST \<Longrightarrow> decideBodyMode meta \<noteq> bodyModeEOF"
  by (simp add: decideBodyMode_def)

end
