(* ===== verification/Message.thy ===== *)
theory Message
  imports Framing
begin

text \<open>
  The reference parser \<^verbatim>\<open>parseMessageDetailed\<close> of \<^verbatim>\<open>internal/parser/engine.go\<close>: one whole
  message in one buffer. It is first shown to be a function of byte strings (no cursor left),
  then to invert the rendering of a message, and its results are characterised by the grammar
  of the buffer.
\<close>

section \<open>Definitions\<close>

record parsedMessage =
  pm_kind :: ReqOrRsp
  pm_request :: requestLine
  pm_response :: responseLine
  pm_headers :: "headerLine list"
  pm_body :: bytes
  pm_mode :: bodyMode
  pm_meta :: messageMeta

definition zeroRequestLine :: requestLine where
  "zeroRequestLine = \<lparr>rl_Method = 0, rl_Target = [], rl_Major = 0, rl_Minor = 0\<rparr>"

definition zeroResponseLine :: responseLine where
  "zeroResponseLine = \<lparr>sl_Major = 0, sl_Minor = 0, sl_StatusCode = 0, sl_Reason = []\<rparr>"

text \<open>
  The pair of \<^verbatim>\<open>parsedMessage\<close> and \<^verbatim>\<open>messageParseResult\<close>: a message, \<^verbatim>\<open>{ok: false}\<close>
  (wait for more bytes), an error, or a run-time panic of the parser.
\<close>

datatype 'a parseResult = Parsed 'a | Incomplete | ParseError error | ParsePanic

function headerLoop ::
    "cursor \<Rightarrow> messageMeta \<Rightarrow> headerLine list \<Rightarrow> (cursor \<times> messageMeta \<times> headerLine list) parseResult" where
  "headerLoop c meta hs =
     (if remaining c < 2 then Incomplete
      else if peek c = Some CR
      then
        (let c = advance c 1
         in if peek c \<noteq> Some LF then Incomplete else Parsed (advance c 1, meta, hs))
      else
        (case parseHeaderLine c of
           None \<Rightarrow> Incomplete
         | Some h \<Rightarrow>
             (let hs = hs @ [h]
              in case applyHeaderMeta meta h of
                   None \<Rightarrow> ParseError (headerSemanticError meta h)
                 | Some meta \<Rightarrow>
                     (let lineEnd = (case scanCRLF c of Some n \<Rightarrow> n | None \<Rightarrow> 0)
                      in headerLoop (advance c (lineEnd + 2)) meta hs))))"
  by pat_completeness auto
termination
  by (relation "measure (\<lambda>(c, _). remaining c)") (auto simp: cursor_simps)

function chunkLoop :: "cursor \<Rightarrow> bytes \<Rightarrow> (cursor \<times> bytes) option" where
  "chunkLoop c body =
     (case parseChunkSizeLine c of
        None \<Rightarrow> None
      | Some (sz, c) \<Rightarrow>
          if sz = 0
          then
            (if remaining c < 2 then None
             else if peek c \<noteq> Some CR then None
             else
               (let c = advance c 1
                in if peek c \<noteq> Some LF then None else Some (advance c 1, body)))
          else
            (case consumeChunkData c sz of
               None \<Rightarrow> None
             | Some (chunk, c) \<Rightarrow> chunkLoop c (body @ chunk)))"
  by pat_completeness auto
termination
  by (relation "measure (\<lambda>(c, _). remaining c)") (auto dest: chunk_step_remaining)

declare headerLoop.simps [simp del] chunkLoop.simps [simp del]

text \<open>The \<^verbatim>\<open>switch kind\<close> at the top of \<^verbatim>\<open>parseMessageDetailed\<close>.\<close>

definition parseStart :: "cursor \<Rightarrow> ReqOrRsp \<Rightarrow> (cursor \<times> requestLine \<times> responseLine \<times> messageMeta) option" where
  "parseStart c kind =
     (case kind of
        REQUEST \<Rightarrow> do {
          line \<leftarrow> parseRequestLine c;
          lineEnd \<leftarrow> scanCRLF c;
          Some (advance c (lineEnd + 2), line, zeroResponseLine, newMeta REQUEST 0)
        }
      | RESPONSE \<Rightarrow> do {
          line \<leftarrow> parseResponseLine c;
          lineEnd \<leftarrow> scanCRLF c;
          Some (advance c (lineEnd + 2), zeroRequestLine, line,
                newMeta RESPONSE (sl_StatusCode line))
        }
      | BOTH \<Rightarrow> None)"

definition parseMessageDetailed :: "bytes \<Rightarrow> ReqOrRsp \<Rightarrow> parsedMessage parseResult" where
  "parseMessageDetailed b kind =
     (case parseStart (newCursor b) kind of
        None \<Rightarrow> Incomplete
      | Some (c, request, response, meta) \<Rightarrow>
          (case headerLoop c meta [] of
             Incomplete \<Rightarrow> Incomplete
           | ParseError e \<Rightarrow> ParseError e
           | ParsePanic \<Rightarrow> ParsePanic
           | Parsed (c, meta, headers) \<Rightarrow>
               (let mode = decideBodyMode meta;
                    finish = (\<lambda>c body.
                      if remaining c \<noteq> 0 then Incomplete
                      else Parsed \<lparr>pm_kind = kind, pm_request = request, pm_response = response,
                                   pm_headers = headers, pm_body = body, pm_mode = mode,
                                   pm_meta = meta\<rparr>)
                in if mode = bodyModeContentLength
                   then if int (remaining c) < sint (m_contentLength meta) then Incomplete
                        else (case slice_int c (sint (m_contentLength meta)) of
                                None \<Rightarrow> ParsePanic
                              | Some body \<Rightarrow>
                                  finish (advance c (nat (sint (m_contentLength meta)))) body)
                   else if mode = bodyModeChunked
                   then (case chunkLoop c [] of
                           None \<Rightarrow> Incomplete
                         | Some (c, body) \<Rightarrow> finish c body)
                   else finish c [])))"

section \<open>The same parser over byte strings\<close>

fun mapResult :: "('a \<Rightarrow> 'b) \<Rightarrow> 'a parseResult \<Rightarrow> 'b parseResult" where
  "mapResult f (Parsed x) = Parsed (f x)"
| "mapResult f Incomplete = Incomplete"
| "mapResult f (ParseError e) = ParseError e"
| "mapResult f ParsePanic = ParsePanic"

text \<open>
  The header block: the unread bytes after it, the framing data and the headers in order.
\<close>

function headersB :: "bytes \<Rightarrow> messageMeta \<Rightarrow> (bytes \<times> messageMeta \<times> headerLine list) parseResult" where
  "headersB b meta =
     (if length b < 2 then Incomplete
      else if b ! 0 = CR
      then if b ! 1 = LF then Parsed (drop 2 b, meta, []) else Incomplete
      else
        (case scanCRLFBytes b of
           None \<Rightarrow> Incomplete
         | Some n \<Rightarrow>
             (case parseHeaderLineBytes (take n b) of
                None \<Rightarrow> Incomplete
              | Some h \<Rightarrow>
                  (case applyHeaderMeta meta h of
                     None \<Rightarrow> ParseError (headerSemanticError meta h)
                   | Some meta' \<Rightarrow>
                       mapResult (apsnd (apsnd ((#) h))) (headersB (drop (n + 2) b) meta')))))"
  by pat_completeness auto
termination
  by (relation "measure (\<lambda>(b, _). length b)") (auto)

declare headersB.simps [simp del]

lemma mapResult_iffs [simp]:
  "mapResult f r = Parsed y \<longleftrightarrow> (\<exists>x. r = Parsed x \<and> y = f x)"
  "Parsed y = mapResult f r \<longleftrightarrow> (\<exists>x. r = Parsed x \<and> y = f x)"
  "mapResult f r = Incomplete \<longleftrightarrow> r = Incomplete"
  "mapResult f r = ParseError e \<longleftrightarrow> r = ParseError e"
  "mapResult f r = ParsePanic \<longleftrightarrow> r = ParsePanic"
  by (cases r; auto)+

lemma mapResult_comp [simp]: "mapResult f (mapResult g r) = mapResult (f \<circ> g) r"
  by (cases r) simp_all

text \<open>
  One turn of a header loop. Every header loop of \<^verbatim>\<open>engine.go\<close> is analysed with this rule:
  too few bytes, the blank line, a carriage return without line feed, a line without end, a
  line without colon, a header the framing rules reject, or a header and a shorter rest.
\<close>

lemma header_cases:
  fixes c :: cursor and meta :: messageMeta
  obtains (short) "remaining c < 2" "headersB (cur_rest c) meta = Incomplete"
  | (blank) "\<not> remaining c < 2" "peek c = Some CR" "peek (advance c 1) = Some LF"
      "headersB (cur_rest c) meta = Parsed (cur_rest (advance (advance c 1) 1), meta, [])"
  | (stray) "\<not> remaining c < 2" "peek c = Some CR" "peek (advance c 1) \<noteq> Some LF"
      "headersB (cur_rest c) meta = Incomplete"
  | (unended) "\<not> remaining c < 2" "peek c \<noteq> Some CR" "scanCRLF c = None"
      "headersB (cur_rest c) meta = Incomplete"
  | (malformed) n where "\<not> remaining c < 2" "peek c \<noteq> Some CR" "scanCRLF c = Some n"
      "parseHeaderLineBytes (slice c n) = None" "headersB (cur_rest c) meta = Incomplete"
  | (rejected) n h where "\<not> remaining c < 2" "peek c \<noteq> Some CR" "scanCRLF c = Some n"
      "parseHeaderLineBytes (slice c n) = Some h" "applyHeaderMeta meta h = None"
      "headersB (cur_rest c) meta = ParseError (headerSemanticError meta h)"
  | (header) n h meta' where "\<not> remaining c < 2" "peek c \<noteq> Some CR" "scanCRLF c = Some n"
      "parseHeaderLineBytes (slice c n) = Some h" "applyHeaderMeta meta h = Some meta'"
      "headersB (cur_rest c) meta =
         mapResult (apsnd (apsnd ((#) h))) (headersB (cur_rest (advance c (n + 2))) meta')"
      "remaining (advance c (n + 2)) < remaining c"
proof (cases "remaining c < 2")
  case True
  then show ?thesis using short by (simp add: headersB.simps cur.rem_rest)
next
  case long: False
  note pk = peek_two [OF long]
  note eq = headersB.simps [of "cur_rest c" meta]
  have two: "\<not> length (cur_rest c) < 2" using long by (simp add: cur.rem_rest)
  show ?thesis
  proof (cases "cur_rest c ! 0 = CR")
    case True
    then show ?thesis
      using blank stray long two pk eq
      by (cases "cur_rest c ! 1 = LF") (simp_all add: cur.adv_rest numeral_2_eq_2)
  next
    case False
    then have pc: "peek c \<noteq> Some CR" using pk by simp
    show ?thesis
    proof (cases "scanCRLF c")
      case None
      with False two eq show ?thesis using unended [OF long pc] by (simp add: cur.scan_rest)
    next
      case (Some n)
      note sn = Some [unfolded cur.scan_rest]
      show ?thesis
      proof (cases "parseHeaderLineBytes (slice c n)")
        case None
        with False two eq sn show ?thesis
          using malformed [OF long pc Some] by (simp add: cur.slice_rest)
      next
        case (Some h)
        show ?thesis
        proof (cases "applyHeaderMeta meta h")
          case None
          with False two eq sn Some show ?thesis
            using rejected [OF long pc \<open>scanCRLF c = Some n\<close> Some] by (simp add: cur.slice_rest)
        next
          case (Some meta')
          with False two eq sn \<open>parseHeaderLineBytes (slice c n) = Some h\<close> show ?thesis
            using header [OF long pc \<open>scanCRLF c = Some n\<close> _ Some]
              cur.scan_decreases [OF \<open>scanCRLF c = Some n\<close>]
            by (simp add: cur.slice_rest cur.adv_rest)
        qed
      qed
    qed
  qed
qed

lemma parseHeaderLine_scan: "scanCRLF c = Some n \<Longrightarrow> parseHeaderLine c = parseHeaderLineBytes (slice c n)"
  by (simp add: parseHeaderLine_def)

lemma snoc_headers: "apsnd (apsnd ((@) (hs @ [h]))) = apsnd (apsnd ((@) hs)) \<circ> apsnd (apsnd ((#) h))"
  by (auto simp: fun_eq_iff)

lemma headerLoop_rest [cursor_simps]:
  "mapResult (apfst cur_rest) (headerLoop c meta hs) =
     mapResult (apsnd (apsnd ((@) hs))) (headersB (cur_rest c) meta)"
proof (induction "remaining c" arbitrary: c meta hs rule: less_induct)
  case less
  show ?case
  proof (cases c meta rule: header_cases)
    case (header n h meta')
    then show ?thesis
      using less [OF header(7), of meta' "hs @ [h]"]
      by (subst headerLoop.simps) (simp add: parseHeaderLine_scan snoc_headers)
  qed (subst headerLoop.simps; simp add: Let_def parseHeaderLine_scan parseHeaderLine_def)+
qed

lemma chunkLoop_rest [cursor_simps]:
  "map_option (apfst cur_rest) (chunkLoop c body) =
     (case decodeChunks (cur_rest c) of
        (ds, ChunksDone r) \<Rightarrow> Some (r, body @ concat ds)
      | _ \<Rightarrow> None)"
proof (induction "remaining c" arbitrary: c body rule: less_induct)
  case less
  show ?case
  proof (cases c rule: chunk_cases)
    case (data sz c' d c'')
    then show ?thesis
      using less [OF data(5), of "body @ d"]
      by (subst chunkLoop.simps) (simp split: prod.splits chunkStop.splits)
  qed (subst chunkLoop.simps; auto simp: Let_def)+
qed

text \<open>The body of a message from the bytes after the header block.\<close>

definition bodyB :: "messageMeta \<Rightarrow> bytes \<Rightarrow> bytes parseResult" where
  "bodyB meta r =
     (case decideBodyMode meta of
        bodyModeContentLength \<Rightarrow>
          (if sint (m_contentLength meta) < 0 then ParsePanic
           else if int (length r) = sint (m_contentLength meta) then Parsed r
           else Incomplete)
      | bodyModeChunked \<Rightarrow>
          (case decodeChunks r of
             (ds, ChunksDone []) \<Rightarrow> Parsed (concat ds)
           | _ \<Rightarrow> Incomplete)
      | _ \<Rightarrow> if r = [] then Parsed [] else Incomplete)"

lemma bodyB_no_error: "bodyB meta r \<noteq> ParseError e"
  by (auto simp: bodyB_def split: bodyMode.splits prod.splits chunkStop.splits list.splits)

definition startB :: "bytes \<Rightarrow> ReqOrRsp \<Rightarrow> (bytes \<times> requestLine \<times> responseLine \<times> messageMeta) option" where
  "startB b kind = do {
     n \<leftarrow> scanCRLFBytes b;
     (case kind of
        REQUEST \<Rightarrow>
          map_option (\<lambda>line. (drop (n + 2) b, line, zeroResponseLine, newMeta REQUEST 0))
            (parseRequestLineBytes (take n b))
      | RESPONSE \<Rightarrow>
          map_option (\<lambda>line. (drop (n + 2) b, zeroRequestLine, line,
                             newMeta RESPONSE (sl_StatusCode line)))
            (parseResponseLineBytes (take n b))
      | BOTH \<Rightarrow> None)
   }"

definition messageB :: "bytes \<Rightarrow> ReqOrRsp \<Rightarrow> parsedMessage parseResult" where
  "messageB b kind =
     (case startB b kind of
        None \<Rightarrow> Incomplete
      | Some (r, request, response, meta) \<Rightarrow>
          (case headersB r meta of
             Incomplete \<Rightarrow> Incomplete
           | ParseError e \<Rightarrow> ParseError e
           | ParsePanic \<Rightarrow> ParsePanic
           | Parsed (r, meta, headers) \<Rightarrow>
               mapResult (\<lambda>body. \<lparr>pm_kind = kind, pm_request = request, pm_response = response,
                                 pm_headers = headers, pm_body = body,
                                 pm_mode = decideBodyMode meta, pm_meta = meta\<rparr>)
                 (bodyB meta r)))"

lemma parseStart_rest:
  "map_option (apfst cur_rest) (parseStart (newCursor b) kind) = startB b kind"
proof (cases "scanCRLFBytes b")
  case None
  then show ?thesis
    by (cases kind) (simp_all add: parseStart_def startB_def cursor_simps firstLine_def)
next
  case (Some n)
  then show ?thesis
    by (cases kind; cases "parseRequestLineBytes (take n b)"; cases "parseResponseLineBytes (take n b)")
      (simp_all add: parseStart_def startB_def cursor_simps firstLine_def)
qed

lemma bodyB_finish:
  "mapResult f (bodyB meta (cur_rest c)) =
     (let mode = decideBodyMode meta;
          finish = (\<lambda>c body. if remaining c \<noteq> 0 then Incomplete else Parsed (f body))
      in if mode = bodyModeContentLength
         then if int (remaining c) < sint (m_contentLength meta) then Incomplete
              else (case slice_int c (sint (m_contentLength meta)) of
                      None \<Rightarrow> ParsePanic
                    | Some body \<Rightarrow> finish (advance c (nat (sint (m_contentLength meta)))) body)
         else if mode = bodyModeChunked
         then (case chunkLoop c [] of None \<Rightarrow> Incomplete | Some (c, body) \<Rightarrow> finish c body)
         else finish c [])"
proof (cases "decideBodyMode meta")
  case bodyModeChunked
  show ?thesis
  proof (cases "chunkLoop c []")
    case None
    then show ?thesis
      using chunkLoop_rest [of c "[]"] bodyModeChunked
      by (auto simp: bodyB_def split: prod.splits chunkStop.splits list.splits)
  next
    case (Some p)
    then show ?thesis
      using chunkLoop_rest [of c "[]"] bodyModeChunked
      by (auto simp: bodyB_def cur.rem_rest split: prod.splits chunkStop.splits list.splits)
  qed
qed (auto simp: bodyB_def slice_int_def cursor_simps Let_def)

lemma parseMessageDetailed_eq_messageB: "parseMessageDetailed b kind = messageB b kind"
proof (cases "parseStart (newCursor b) kind")
  case None
  then show ?thesis
    using parseStart_rest [of b kind] by (simp add: parseMessageDetailed_def messageB_def)
next
  case (Some p)
  obtain c req rsp meta where p: "p = (c, req, rsp, meta)" by (cases p)
  have st: "startB b kind = Some (cur_rest c, req, rsp, meta)"
    using parseStart_rest [of b kind] Some p by simp
  have hl: "mapResult (apfst cur_rest) (headerLoop c meta []) = headersB (cur_rest c) meta"
    using headerLoop_rest [of c meta "[]"] by (cases "headersB (cur_rest c) meta") auto
  show ?thesis
  proof (cases "headerLoop c meta []")
    case (Parsed q)
    obtain c' meta' hs where q: "q = (c', meta', hs)" by (cases q)
    have hb: "headersB (cur_rest c) meta = Parsed (cur_rest c', meta', hs)"
      using hl Parsed q by simp
    show ?thesis
      unfolding parseMessageDetailed_def messageB_def
      by (simp add: Some p st Parsed q hb bodyB_finish Let_def)
  qed (use hl Some p st in \<open>simp_all add: parseMessageDetailed_def messageB_def hl [symmetric]\<close>)
qed

section \<open>The grammar of a message\<close>

text \<open>
  A line of a header block: it holds no line end, and it does not start with the carriage
  return that ends the block.
\<close>

definition line_ok :: "bytes \<Rightarrow> bool" where
  "line_ok l \<longleftrightarrow> scanCRLFBytes (l @ [CR]) = None \<and> l \<noteq> [] \<and> hd l \<noteq> CR"

definition headerBlock :: "bytes list \<Rightarrow> bytes" where
  "headerBlock ls = concat (map (\<lambda>l. l @ CRLF) ls) @ CRLF"

definition headers_of :: "bytes list \<Rightarrow> headerLine list \<Rightarrow> bool" where
  "headers_of ls hs \<longleftrightarrow> list_all line_ok ls \<and> map parseHeaderLineBytes ls = map Some hs"

lemma headersB_end: "headersB (CR # LF # r) meta = Parsed (r, meta, [])"
  by (subst headersB.simps) simp

lemma headersB_line:
  assumes "line_ok l" and "parseHeaderLineBytes l = Some h" and "applyHeaderMeta meta h = Some meta'"
  shows "headersB (l @ CR # LF # r) meta = mapResult (apsnd (apsnd ((#) h))) (headersB r meta')"
proof -
  from assms(1) obtain x xs where l: "l = x # xs" "x \<noteq> CR"
    by (cases l) (auto simp: line_ok_def)
  have "scanCRLFBytes (l @ CR # LF # r) = Some (length l)"
    using assms(1) by (simp add: line_ok_def scan_simps)
  with assms(2,3) l show ?thesis
    by (subst headersB.simps) (simp add: nth_append)
qed

lemma headersB_block:
  "headers_of ls hs \<Longrightarrow> applyMetas meta hs = Some meta' \<Longrightarrow>
     headersB (headerBlock ls @ r) meta = Parsed (r, meta', hs)"
proof (induction ls arbitrary: hs meta)
  case Nil
  then show ?case by (simp add: headers_of_def headerBlock_def headersB_end)
next
  case (Cons l ls)
  from Cons.prems obtain h hs' meta1 where hs: "hs = h # hs'" "parseHeaderLineBytes l = Some h"
    "line_ok l" "headers_of ls hs'" "applyHeaderMeta meta h = Some meta1" "applyMetas meta1 hs' = Some meta'"
    by (auto simp: headers_of_def Cons_eq_map_conv split: option.splits)
  have "headerBlock (l # ls) @ r = l @ CR # LF # (headerBlock ls @ r)"
    by (simp add: headerBlock_def)
  with hs Cons.IH [OF hs(4,6)] show ?case by (simp add: headersB_line)
qed

lemma parseHeaderLineBytes_Nil: "parseHeaderLineBytes [] = None"
  by (simp add: parseHeaderLineBytes_def)

lemma headersB_ParsedD:
  "headersB b meta = Parsed (r, meta', hs) \<Longrightarrow>
     \<exists>ls. b = headerBlock ls @ r \<and> headers_of ls hs \<and> applyMetas meta hs = Some meta'"
proof (induction "length b" arbitrary: b meta hs rule: less_induct)
  case less
  from less.prems have two: "\<not> length b < 2" by (subst (asm) headersB.simps) auto
  show ?case
  proof (cases "b ! 0 = CR")
    case True
    with less.prems two have "take 2 b = CRLF" and rr: "drop 2 b = r" "meta' = meta" "hs = []"
      by (subst (asm) headersB.simps, simp add: take_2_CRLF not_less split: if_splits)+
    then have "b = CRLF @ r" by (metis append_take_drop_id)
    with rr show ?thesis
      by (intro exI [of _ "[]"]) (simp add: headerBlock_def headers_of_def)
  next
    case False
    with less.prems two obtain n h meta1 hs' where
      n: "scanCRLFBytes b = Some n" and h: "parseHeaderLineBytes (take n b) = Some h"
      and m: "applyHeaderMeta meta h = Some meta1"
      and rec: "headersB (drop (n + 2) b) meta1 = Parsed (r, meta', hs')" and hs: "hs = h # hs'"
      by (subst (asm) headersB.simps)
        (auto split: option.splits)
    note bn = scanCRLFBytes_SomeD [OF n] scanCRLFBytes_bound [OF n]
    have "length (drop (n + 2) b) < length b" using bn by simp
    from less.hyps [OF this rec] obtain ls where
      ls: "drop (n + 2) b = headerBlock ls @ r" "headers_of ls hs'" "applyMetas meta1 hs' = Some meta'"
      by blast
    have "take n b \<noteq> []" using h by (metis option.simps(3) parseHeaderLineBytes_Nil)
    moreover from this have "hd (take n b) \<noteq> CR" using False by (cases b) auto
    ultimately have "line_ok (take n b)" using bn by (simp add: line_ok_def)
    with h m ls hs bn show ?thesis
      by (intro exI [of _ "take n b # ls"]) (simp add: headerBlock_def headers_of_def)
  qed
qed

lemma headersB_Parsed_iff:
  "headersB b meta = Parsed (r, meta', hs) \<longleftrightarrow>
     (\<exists>ls. b = headerBlock ls @ r \<and> headers_of ls hs \<and> applyMetas meta hs = Some meta')"
  using headersB_block headersB_ParsedD by metis

definition start_ok :: "bytes \<Rightarrow> parsedMessage \<Rightarrow> bool" where
  "start_ok line msg \<longleftrightarrow>
     (case pm_kind msg of
        REQUEST \<Rightarrow> parseRequestLineBytes line = Some (pm_request msg) \<and>
                   pm_response msg = zeroResponseLine
      | RESPONSE \<Rightarrow> parseResponseLineBytes line = Some (pm_response msg) \<and>
                    pm_request msg = zeroRequestLine
      | BOTH \<Rightarrow> False)"

definition startMeta :: "parsedMessage \<Rightarrow> messageMeta" where
  "startMeta msg = newMeta (pm_kind msg) (case pm_kind msg of RESPONSE \<Rightarrow> sl_StatusCode (pm_response msg) | _ \<Rightarrow> 0)"

lemma startB_Some_iff:
  "startB b kind = Some (r, req, rsp, meta) \<longleftrightarrow>
     (\<exists>line. b = line @ CRLF @ r \<and> scanCRLFBytes (line @ [CR]) = None \<and>
        (case kind of
           REQUEST \<Rightarrow> parseRequestLineBytes line = Some req \<and> rsp = zeroResponseLine \<and>
                      meta = newMeta REQUEST 0
         | RESPONSE \<Rightarrow> parseResponseLineBytes line = Some rsp \<and> req = zeroRequestLine \<and>
                       meta = newMeta RESPONSE (sl_StatusCode rsp)
         | BOTH \<Rightarrow> False))" (is "?l \<longleftrightarrow> ?r")
proof
  assume ?l
  then obtain n where n: "scanCRLFBytes b = Some n" by (auto simp: startB_def bind_eq_Some_conv)
  from \<open>?l\<close> n scanCRLFBytes_SomeD [OF n] show ?r
    by (intro exI [of _ "take n b"]) (auto simp: startB_def split: ReqOrRsp.splits)
next
  assume ?r
  then show ?l
    by (cases kind) (auto simp: startB_def scan_simps)
qed

lemma messageB_Parsed_iff:
  "messageB b kind = Parsed msg \<longleftrightarrow>
     pm_kind msg = kind \<and> pm_mode msg = decideBodyMode (pm_meta msg) \<and>
     (\<exists>line ls raw. b = line @ CRLF @ headerBlock ls @ raw \<and> scanCRLFBytes (line @ [CR]) = None \<and>
        start_ok line msg \<and> headers_of ls (pm_headers msg) \<and>
        applyMetas (startMeta msg) (pm_headers msg) = Some (pm_meta msg) \<and>
        bodyB (pm_meta msg) raw = Parsed (pm_body msg))" (is "?l \<longleftrightarrow> ?r")
proof
  assume ?l
  then obtain r req rsp meta0 raw meta hs body where
    st: "startB b kind = Some (r, req, rsp, meta0)" and hb: "headersB r meta0 = Parsed (raw, meta, hs)"
    and bd: "bodyB meta raw = Parsed body"
    and msg: "msg = \<lparr>pm_kind = kind, pm_request = req, pm_response = rsp, pm_headers = hs,
                    pm_body = body, pm_mode = decideBodyMode meta, pm_meta = meta\<rparr>"
    by (auto simp: messageB_def split: option.splits parseResult.splits)
  from hb obtain ls where ls: "r = headerBlock ls @ raw" "headers_of ls hs" "applyMetas meta0 hs = Some meta"
    by (auto simp: headersB_Parsed_iff)
  from st obtain line where "b = line @ CRLF @ r" "scanCRLFBytes (line @ [CR]) = None"
    "start_ok line msg" "startMeta msg = meta0"
    by (cases kind) (auto simp: startB_Some_iff msg start_ok_def startMeta_def)
  with ls bd show ?r by (auto simp: msg)
next
  assume ?r
  then obtain line ls raw where b: "b = line @ CRLF @ headerBlock ls @ raw"
    and line: "scanCRLFBytes (line @ [CR]) = None" "start_ok line msg"
    and hs: "headers_of ls (pm_headers msg)"
    and meta: "applyMetas (startMeta msg) (pm_headers msg) = Some (pm_meta msg)"
    and body: "bodyB (pm_meta msg) raw = Parsed (pm_body msg)"
    and k: "pm_kind msg = kind" "pm_mode msg = decideBodyMode (pm_meta msg)" by blast
  have "startB b kind = Some (headerBlock ls @ raw, pm_request msg, pm_response msg, startMeta msg)"
    unfolding startB_Some_iff using b line k
    by (intro exI [of _ line]) (auto simp: start_ok_def startMeta_def split: ReqOrRsp.splits)
  with headersB_block [OF hs meta] body k show ?l
    by (simp add: messageB_def)
qed

section \<open>Printing a request\<close>

definition renderHeader :: "headerLine \<Rightarrow> bytes" where
  "renderHeader h = h_Name h @ COLON # SP # h_Value h"

definition renderRequestLine :: "requestLine \<Rightarrow> bytes" where
  "renderRequestLine rl =
     str (Method_String (rl_Method rl)) @ SP # rl_Target rl @ SP # str ''HTTP/'' @
       [rl_Major rl + 48, DOT, rl_Minor rl + 48]"

definition renderRequest :: "requestLine \<Rightarrow> headerLine list \<Rightarrow> bytes \<Rightarrow> bytes" where
  "renderRequest rl hs raw = renderRequestLine rl @ CRLF @ headerBlock (map renderHeader hs) @ raw"

text \<open>The fields that can be printed and read back.\<close>

definition requestLine_ok :: "requestLine \<Rightarrow> bool" where
  "requestLine_ok rl \<longleftrightarrow>
     1 \<le> sint (rl_Method rl) \<and> sint (rl_Method rl) \<le> 34 \<and> SP \<notin> set (rl_Target rl) \<and>
     LF \<notin> set (rl_Target rl) \<and> rl_Major rl \<le> 9 \<and> rl_Minor rl \<le> 9"

definition header_ok :: "headerLine \<Rightarrow> bool" where
  "header_ok h \<longleftrightarrow>
     COLON \<notin> set (h_Name h) \<and> CR \<notin> set (h_Name h) \<and> LF \<notin> set (h_Name h) \<and> h_Name h \<noteq> [] \<and>
     LF \<notin> set (h_Value h) \<and> trimmed (h_Value h)"

text \<open>The bytes of a body on the wire, by the body mode.\<close>

definition encodeBody :: "bodyMode \<Rightarrow> bytes list \<Rightarrow> bytes" where
  "encodeBody mode ds =
     (case mode of
        bodyModeChunked \<Rightarrow> encodeChunks ds
      | bodyModeContentLength \<Rightarrow> concat ds
      | _ \<Rightarrow> [])"

definition body_ok :: "messageMeta \<Rightarrow> bytes list \<Rightarrow> bool" where
  "body_ok meta ds \<longleftrightarrow>
     (case decideBodyMode meta of
        bodyModeChunked \<Rightarrow> list_all chunk_ok ds
      | bodyModeContentLength \<Rightarrow> int (length (concat ds)) = sint (m_contentLength meta)
      | _ \<Rightarrow> concat ds = [])"

lemma bodyB_encodeBody:
  "body_ok meta ds \<Longrightarrow> bodyB meta (encodeBody (decideBodyMode meta) ds) = Parsed (concat ds)"
  using decodeChunks_encodeChunks [of ds "[]"]
  by (auto simp: body_ok_def bodyB_def encodeBody_def split: bodyMode.splits)

lemma method_names_no_LF: "list_all (\<lambda>n. LF \<notin> set (str n)) methodNames"
  by code_simp

lemma Method_String_no_LF: "1 \<le> sint m \<Longrightarrow> sint m \<le> 34 \<Longrightarrow> LF \<notin> set (str (Method_String m))"
proof -
  assume m: "1 \<le> sint m" "sint m \<le> 34"
  have "length methodNames = 35" by (simp add: methodNames_def)
  with m have "methodNames ! nat (sint m) \<in> set methodNames" by (intro nth_mem) simp
  with method_names_no_LF have "LF \<notin> set (str (methodNames ! nat (sint m)))" by (auto simp: list_all_iff)
  then show ?thesis by (auto simp: Method_String_def Let_def)
qed

lemma renderRequestLine_no_LF:
  assumes "requestLine_ok rl"
  shows "LF \<notin> set (renderRequestLine rl)"
proof -
  have digit: "d + 48 \<noteq> LF" if "d \<le> 9" for d :: byte
  proof
    assume "d + 48 = LF"
    with digit_add [OF that] show False by simp
  qed
  show ?thesis
    using assms Method_String_no_LF [of "rl_Method rl"] digit [of "rl_Major rl"] digit [of "rl_Minor rl"]
    by (auto simp: renderRequestLine_def requestLine_ok_def)
qed

lemma renderRequestLine_parses:
  assumes "requestLine_ok rl"
  shows "parseRequestLineBytes (renderRequestLine rl) = Some rl"
    and "scanCRLFBytes (renderRequestLine rl @ [CR]) = None"
proof -
  show "parseRequestLineBytes (renderRequestLine rl) = Some rl"
    by (rule parseRequestLineBytes_intro [where name = "str (Method_String (rl_Method rl))"])
      (use assms in \<open>auto simp: renderRequestLine_def requestLine_ok_def matchMethod_String\<close>)
  show "scanCRLFBytes (renderRequestLine rl @ [CR]) = None"
    by (rule scanCRLFBytes_no_LF) (rule renderRequestLine_no_LF [OF assms])
qed

lemma renderHeaders_parse:
  assumes "list_all header_ok hs"
  shows "headers_of (map renderHeader hs) hs"
proof -
  have "parseHeaderLineBytes (renderHeader h) = Some h" "line_ok (renderHeader h)" if "header_ok h" for h
  proof -
    show "parseHeaderLineBytes (renderHeader h) = Some h"
      by (rule parseHeaderLineBytes_intro [where ws = "[SP]"])
        (use that in \<open>auto simp: renderHeader_def header_ok_def\<close>)
    have "scanCRLFBytes (renderHeader h @ [CR]) = None"
      by (rule scanCRLFBytes_no_LF) (use that in \<open>auto simp: renderHeader_def header_ok_def\<close>)
    moreover have "hd (renderHeader h) \<noteq> CR"
      using that by (cases "h_Name h") (auto simp: renderHeader_def header_ok_def)
    ultimately show "line_ok (renderHeader h)" by (simp add: line_ok_def renderHeader_def)
  qed
  with assms show ?thesis by (auto simp: headers_of_def list_all_iff)
qed

section \<open>Properties\<close>

text \<open>
  C1: the exact grammar of the messages \<^verbatim>\<open>parseMessageDetailed\<close> accepts. A buffer parses to
  \<open>msg\<close> exactly when it is a start line and its line end, a block of header lines that parse to
  the message's headers in order and satisfy the framing rules, the blank line, and bytes that
  are exactly the body those rules call for, with nothing behind it.
\<close>

theorem parseMessageDetailed_grammar:
  "parseMessageDetailed b kind = Parsed msg \<longleftrightarrow>
     pm_kind msg = kind \<and> pm_mode msg = decideBodyMode (pm_meta msg) \<and>
     (\<exists>line ls raw. b = line @ CRLF @ headerBlock ls @ raw \<and> scanCRLFBytes (line @ [CR]) = None \<and>
        start_ok line msg \<and> headers_of ls (pm_headers msg) \<and>
        applyMetas (startMeta msg) (pm_headers msg) = Some (pm_meta msg) \<and>
        bodyB (pm_meta msg) raw = Parsed (pm_body msg))"
  unfolding parseMessageDetailed_eq_messageB by (rule messageB_Parsed_iff)

text \<open>
  C3: printing and parsing a request. Every request line, list of headers and body that can be
  printed is read back exactly: the same method, target, version and headers, the framing the
  headers state, and the body, whether it is sent with a length or in chunks.
\<close>

theorem parseMessageDetailed_render:
  assumes "requestLine_ok rl" and "list_all header_ok hs"
    and "applyMetas (newMeta REQUEST 0) hs = Some meta" and "body_ok meta ds"
  shows "parseMessageDetailed (renderRequest rl hs (encodeBody (decideBodyMode meta) ds)) REQUEST =
     Parsed \<lparr>pm_kind = REQUEST, pm_request = rl, pm_response = zeroResponseLine, pm_headers = hs,
             pm_body = concat ds, pm_mode = decideBodyMode meta, pm_meta = meta\<rparr>"
  unfolding parseMessageDetailed_eq_messageB messageB_Parsed_iff renderRequest_def
  using assms(3) renderRequestLine_parses [OF assms(1)] renderHeaders_parse [OF assms(2)]
    bodyB_encodeBody [OF assms(4)]
  by (intro conjI exI [of _ "renderRequestLine rl"] exI [of _ "map renderHeader hs"]
      exI [of _ "encodeBody (decideBodyMode meta) ds"]) (simp_all add: start_ok_def startMeta_def)

theorem parseMessageDetailed_render_witness:
  "parseMessageDetailed (str ''POST /a HTTP/1.1'' @ CRLF @ str ''Content-Length: 2'' @ CRLF @ CRLF @ str ''hi'') REQUEST =
     Parsed \<lparr>pm_kind = REQUEST,
             pm_request = \<lparr>rl_Method = POST, rl_Target = str ''/a'', rl_Major = 1, rl_Minor = 1\<rparr>,
             pm_response = zeroResponseLine,
             pm_headers = [\<lparr>h_Name = str ''Content-Length'', h_Value = str ''2''\<rparr>],
             pm_body = str ''hi'', pm_mode = bodyModeContentLength,
             pm_meta = \<lparr>m_kind = REQUEST, m_statusCode = 0, m_hasContentLength = True,
                        m_contentLength = 2, m_hasTransferEncoding = False\<rparr>\<rparr>"
proof -
  let ?rl = "\<lparr>rl_Method = POST, rl_Target = str ''/a'', rl_Major = 1, rl_Minor = 1\<rparr>"
  let ?hs = "[\<lparr>h_Name = str ''Content-Length'', h_Value = str ''2''\<rparr>]"
  let ?meta = "\<lparr>m_kind = REQUEST, m_statusCode = 0, m_hasContentLength = True,
      m_contentLength = 2, m_hasTransferEncoding = False\<rparr>"
  have mode: "decideBodyMode ?meta = bodyModeContentLength" by (simp add: decideBodyMode_def)
  have "requestLine_ok ?rl" "list_all header_ok ?hs" "applyMetas (newMeta REQUEST 0) ?hs = Some ?meta"
    "body_ok ?meta [str ''hi'']" by code_simp+
  from parseMessageDetailed_render [OF this]
  have "parseMessageDetailed (renderRequest ?rl ?hs (encodeBody (decideBodyMode ?meta) [str ''hi''])) REQUEST =
     Parsed \<lparr>pm_kind = REQUEST, pm_request = ?rl, pm_response = zeroResponseLine, pm_headers = ?hs,
             pm_body = str ''hi'', pm_mode = bodyModeContentLength, pm_meta = ?meta\<rparr>"
    unfolding mode by simp
  moreover have "renderRequest ?rl ?hs (encodeBody (decideBodyMode ?meta) [str ''hi'']) =
      str ''POST /a HTTP/1.1'' @ CRLF @ str ''Content-Length: 2'' @ CRLF @ CRLF @ str ''hi''" by code_simp
  ultimately show ?thesis by simp
qed

end
