(* ===== verification/Parser_State.thy ===== *)
theory Parser_State
  imports Message
begin

text \<open>
  The streaming parser's state and life cycle: \<^verbatim>\<open>internal/parser/parser.go\<close>, \<^verbatim>\<open>setting.go\<close>
  and the line-level helpers of \<^verbatim>\<open>engine.go\<close>. A callback of a \<^verbatim>\<open>Setting\<close> is modelled by the
  record of its call: the ghost field \<open>trace\<close> of the parser lists the calls in order with the
  bytes and the position they were given. A \<^verbatim>\<open>Setting\<close> says which callbacks are non-nil, and
  a \<^verbatim>\<open>*Setting\<close> is an option.

  \<^verbatim>\<open>lineScratch\<close> and \<^verbatim>\<open>lineScratchLen\<close> are one field, the live prefix
  \<^verbatim>\<open>lineScratch[:lineScratchLen]\<close>: the source reads no byte of the array beyond it.
\<close>

section \<open>Definitions\<close>

datatype fastPhase =
    fastPhaseIdle
  | fastPhaseRequestLine
  | fastPhaseResponseLine
  | fastPhaseHeaders
  | fastPhaseBody
  | fastPhaseChunkedSize
  | fastPhaseChunkedData

datatype event =
    EvMessageBegin nat
  | EvURL bytes nat
  | EvStatus bytes nat
  | EvHeaderField bytes nat
  | EvHeaderValue bytes nat
  | EvHeadersComplete nat
  | EvBody bytes nat
  | EvMessageComplete nat

record Setting =
  cbMessageBegin :: bool
  cbURL :: bool
  cbStatus :: bool
  cbHeaderField :: bool
  cbHeaderValue :: bool
  cbHeadersComplete :: bool
  cbBody :: bool
  cbMessageComplete :: bool

type_synonym handle = nat

record Parser =
  defaultType :: ReqOrRsp
  currentType :: ReqOrRsp
  phase :: string
  pending :: bytes
  lineScratch :: bytes
  fastHeaders :: "headerLine list"
  fastHeaderCount :: int
  fastPhase :: fastPhase
  messageStarted :: bool
  urlOffset :: nat
  statusOffset :: nat
  headerValueOffset :: nat
  Method :: Method
  Major :: byte
  Minor :: byte
  MaxHeaderSize :: int32
  contentLength :: int32
  StatusCode :: uint16
  hasContentLength :: bool
  hasTransferEncoding :: bool
  hasConnectionClose :: bool
  hasUpgrade :: bool
  hasConnectionUpgrade :: bool
  messageCompleteCalled :: bool
  Upgrade :: bool
  userData :: "handle option"
  trace :: "event list"

definition unsetContentLength :: int32 where
  "unsetContentLength = - 1"

definition scratchBufferSize :: nat where
  "scratchBufferSize = 4096"

definition maxFastHeaders :: int where
  "maxFastHeaders = 64"

definition defaultMaxHeaderSize :: int32 where
  "defaultMaxHeaderSize = 4096"

definition initialPhase :: "ReqOrRsp \<Rightarrow> string" where
  "initialPhase t =
     (case t of
        REQUEST \<Rightarrow> ''startReq''
      | RESPONSE \<Rightarrow> ''startRsp''
      | BOTH \<Rightarrow> ''startReqOrRsp'')"

text \<open>The zero value of \<^verbatim>\<open>Parser\<close>; \<open>New\<close> overwrites its two message kinds.\<close>

definition zeroParser :: Parser where
  "zeroParser =
     \<lparr>defaultType = BOTH, currentType = BOTH, phase = '''', pending = [], lineScratch = [],
      fastHeaders = [], fastHeaderCount = 0, fastPhase = fastPhaseIdle, messageStarted = False,
      urlOffset = 0, statusOffset = 0, headerValueOffset = 0, Method = 0, Major = 0, Minor = 0,
      MaxHeaderSize = 0, contentLength = 0, StatusCode = 0, hasContentLength = False,
      hasTransferEncoding = False, hasConnectionClose = False, hasUpgrade = False,
      hasConnectionUpgrade = False, messageCompleteCalled = False, Upgrade = False,
      userData = None, trace = []\<rparr>"

definition Init :: "ReqOrRsp \<Rightarrow> Parser \<Rightarrow> Parser" where
  "Init t p =
     p\<lparr>defaultType := t, currentType := t, phase := initialPhase t, Major := 0, Minor := 0,
       contentLength := unsetContentLength, MaxHeaderSize := defaultMaxHeaderSize\<rparr>"

definition New :: "ReqOrRsp \<Rightarrow> Parser" where
  "New t = Init t zeroParser"

definition Reset :: "Parser \<Rightarrow> Parser" where
  "Reset p =
     p\<lparr>currentType := defaultType p, phase := initialPhase (defaultType p), pending := [],
       lineScratch := [], fastHeaderCount := 0, fastPhase := fastPhaseIdle,
       messageStarted := False, urlOffset := 0, statusOffset := 0, headerValueOffset := 0,
       Method := 0, Major := 0, Minor := 0, contentLength := unsetContentLength, StatusCode := 0,
       hasContentLength := False, hasTransferEncoding := False, hasConnectionClose := False,
       hasUpgrade := False, hasConnectionUpgrade := False, messageCompleteCalled := False,
       Upgrade := False\<rparr>"

definition ReadyUpgradeData :: "Parser \<Rightarrow> bool" where
  "ReadyUpgradeData p \<longleftrightarrow> messageCompleteCalled p \<and> Upgrade p"

definition SetUserData :: "handle option \<Rightarrow> Parser \<Rightarrow> Parser" where
  "SetUserData d p = p\<lparr>userData := d\<rparr>"

definition GetUserData :: "Parser \<Rightarrow> handle option" where
  "GetUserData p = userData p"

definition Status :: "Parser \<Rightarrow> string" where
  "Status p = phase p"

definition EOF :: "Parser \<Rightarrow> bool" where
  "EOF p = (if currentType p = REQUEST then True else messageCompleteCalled p \<and> length (pending p) = 0)"

text \<open>\<^verbatim>\<open>if setting != nil && setting.X != nil { setting.X(p, ...) }\<close>\<close>

definition call :: "Setting option \<Rightarrow> (Setting \<Rightarrow> bool) \<Rightarrow> event \<Rightarrow> Parser \<Rightarrow> Parser" where
  "call setting cb ev p =
     (case setting of
        None \<Rightarrow> p
      | Some s \<Rightarrow> if cb s then p\<lparr>trace := trace p @ [ev]\<rparr> else p)"

definition complete :: "Setting option \<Rightarrow> nat \<Rightarrow> Parser \<Rightarrow> Parser" where
  "complete s pos p = call s cbMessageComplete (EvMessageComplete pos) (p\<lparr>messageCompleteCalled := True\<rparr>)"

definition hasNoCallbacks :: "Setting option \<Rightarrow> bool" where
  "hasNoCallbacks setting =
     (case setting of
        None \<Rightarrow> True
      | Some s \<Rightarrow>
          \<not> cbMessageBegin s \<and> \<not> cbURL s \<and> \<not> cbStatus s \<and> \<not> cbHeaderField s \<and> \<not> cbHeaderValue s \<and>
          \<not> cbHeadersComplete s \<and> \<not> cbBody s \<and> \<not> cbMessageComplete s)"

definition appendScratch :: "bytes \<Rightarrow> Parser \<Rightarrow> error + Parser" where
  "appendScratch b p =
     (if length (lineScratch p) + length b > scratchBufferSize then Inl ErrScratchOverflow
      else Inr (p\<lparr>lineScratch := lineScratch p @ b\<rparr>))"

definition consumeFastRequestLine :: "bytes \<Rightarrow> Parser \<Rightarrow> error + Parser" where
  "consumeFastRequestLine line p =
     (case parseRequestLineBytes line of
        None \<Rightarrow> Inl ErrReqMethod
      | Some parsed \<Rightarrow>
          Inr (p\<lparr>Method := rl_Method parsed, Major := rl_Major parsed, Minor := rl_Minor parsed,
                messageStarted := False, phase := ''requestLine''\<rparr>))"

definition parsedTargetFromLine :: "bytes \<Rightarrow> bytes" where
  "parsedTargetFromLine line =
     (case parseRequestLineBytes line of None \<Rightarrow> [] | Some parsed \<Rightarrow> rl_Target parsed)"

definition consumeFastHeader :: "bytes \<Rightarrow> Parser \<Rightarrow> error + Parser" where
  "consumeFastHeader line p =
     (case parseHeaderLineBytes line of
        None \<Rightarrow> Inl ErrHeaderOverflow
      | Some h \<Rightarrow>
          if equalFoldToken (h_Name h) ''content-length''
          then if hasContentLength p then Inl ErrDuplicateContentLength
               else (case parseDecimalInt32 (h_Value h) of
                       None \<Rightarrow> Inl (ErrInvalidContentLength (h_Value h))
                     | Some n \<Rightarrow> Inr (p\<lparr>hasContentLength := True, contentLength := n\<rparr>))
          else if equalFoldToken (h_Name h) ''transfer-encoding'' \<and> equalFoldToken (h_Value h) ''chunked''
          then Inr (p\<lparr>hasTransferEncoding := True\<rparr>)
          else if equalFoldToken (h_Name h) ''connection''
          then
            (let p = (if equalFoldToken (h_Value h) ''close'' then p\<lparr>hasConnectionClose := True\<rparr> else p);
                 p = (if equalFoldToken (h_Value h) ''upgrade'' then p\<lparr>hasConnectionUpgrade := True\<rparr> else p)
             in Inr p)
          else if equalFoldToken (h_Name h) ''upgrade'' then Inr (p\<lparr>hasUpgrade := True\<rparr>)
          else Inr p)"

fun inferLoop :: "bytes \<Rightarrow> bytes \<Rightarrow> ReqOrRsp option" where
  "inferLoop whole [] = None"
| "inferLoop whole (b # bs) =
     (if b = CR \<or> b = LF then inferLoop whole bs
      else if length whole \<ge> 5 \<and> take 5 whole = str ''HTTP/'' then Some RESPONSE
      else if b \<noteq> of_char (CHR ''H'') \<or> length whole \<ge> 5 then Some REQUEST
      else None)"

definition inferMessageKind :: "ReqOrRsp \<Rightarrow> bytes \<Rightarrow> ReqOrRsp option" where
  "inferMessageKind defaultKind b =
     (if defaultKind = REQUEST \<or> defaultKind = RESPONSE then Some defaultKind else inferLoop b b)"

section \<open>Well-formed parsers\<close>

text \<open>
  The bounds the fixed-size arrays of the source impose.
\<close>

definition parser_wf :: "Parser \<Rightarrow> bool" where
  "parser_wf p \<longleftrightarrow>
     length (lineScratch p) \<le> scratchBufferSize \<and>
     - 1 \<le> fastHeaderCount p \<and> fastHeaderCount p \<le> maxFastHeaders \<and>
     fastHeaderCount p \<le> int (length (fastHeaders p))"

lemma New_wf [wf_intros]: "parser_wf (New t)"
  by (simp add: parser_wf_def New_def Init_def zeroParser_def maxFastHeaders_def)

lemma Reset_wf [wf_intros]: "parser_wf (Reset p)"
  by (simp add: parser_wf_def Reset_def maxFastHeaders_def)

lemma appendScratch_wf [wf_intros]:
  "appendScratch b p = Inr p' \<Longrightarrow> parser_wf p \<Longrightarrow> parser_wf p'"
  by (auto simp: appendScratch_def parser_wf_def split: if_splits)

lemma call_frame [frame_simps]:
  "defaultType (call s cb ev p) = defaultType p" "currentType (call s cb ev p) = currentType p"
  "pending (call s cb ev p) = pending p" "lineScratch (call s cb ev p) = lineScratch p"
  "fastHeaders (call s cb ev p) = fastHeaders p"
  "fastHeaderCount (call s cb ev p) = fastHeaderCount p" "fastPhase (call s cb ev p) = fastPhase p"
  "messageStarted (call s cb ev p) = messageStarted p" "urlOffset (call s cb ev p) = urlOffset p"
  "contentLength (call s cb ev p) = contentLength p"
  "hasContentLength (call s cb ev p) = hasContentLength p"
  "hasTransferEncoding (call s cb ev p) = hasTransferEncoding p"
  "headerValueOffset (call s cb ev p) = headerValueOffset p"
  "statusOffset (call s cb ev p) = statusOffset p"
  "messageCompleteCalled (call s cb ev p) = messageCompleteCalled p"
  "Upgrade (call s cb ev p) = Upgrade p" "phase (call s cb ev p) = phase p"
  "Method (call s cb ev p) = Method p" "StatusCode (call s cb ev p) = StatusCode p"
  by (auto simp: call_def split: option.splits)

text \<open>The event a callback records, if it is set.\<close>

definition fires :: "Setting option \<Rightarrow> (Setting \<Rightarrow> bool) \<Rightarrow> event \<Rightarrow> event list" where
  "fires setting cb ev = (case setting of None \<Rightarrow> [] | Some s \<Rightarrow> if cb s then [ev] else [])"

lemma trace_call [simp]: "trace (call s cb ev p) = trace p @ fires s cb ev"
  by (auto simp: call_def fires_def split: option.splits)

lemma call_eq: "call s cb ev p = p\<lparr>trace := trace p @ fires s cb ev\<rparr>"
  by (auto simp: call_def fires_def split: option.splits)

lemma fires_Some [simp]: "fires (Some s) cb ev = (if cb s then [ev] else [])"
  by (simp add: fires_def)

lemma fires_None [simp]: "fires None cb ev = []"
  by (simp add: fires_def)

text \<open>A setting with every callback, for the examples.\<close>

definition allCallbacks :: Setting where
  "allCallbacks = \<lparr>cbMessageBegin = True, cbURL = True, cbStatus = True, cbHeaderField = True,
     cbHeaderValue = True, cbHeadersComplete = True, cbBody = True, cbMessageComplete = True\<rparr>"

section \<open>Properties\<close>

text \<open>
  \<^verbatim>\<open>Reset\<close> makes a used parser behave as a new one of its kind: every field that parsing reads
  is that of \<^verbatim>\<open>New\<close>, and only the user data, the header limit and the unread entries of the header
  array survive.
\<close>

lemma Reset_fresh:
  "Reset p = (New (defaultType p))
     \<lparr>MaxHeaderSize := MaxHeaderSize p, fastHeaders := fastHeaders p, userData := userData p,
      trace := trace p\<rparr>"
  by (simp add: Reset_def New_def Init_def zeroParser_def)

end
