(* ===== verification/Fast_Request.thy ===== *)
theory Fast_Request
  imports Parser_State
begin

text \<open>
  The single-buffer fast paths of \<^verbatim>\<open>internal/parser/engine.go\<close> for requests:
  \<^verbatim>\<open>analyzeFastRequestCaptured\<close>, \<^verbatim>\<open>applyFastRequestResult\<close>, \<^verbatim>\<open>emitFastRequest\<close>,
  \<^verbatim>\<open>tryFastRequest\<close> and \<^verbatim>\<open>tryFastChunkedRequest\<close>. The analyzer is proved equivalent to the
  reference parser of theory \<open>Message\<close>.
\<close>

section \<open>Definitions\<close>

text \<open>
  The three ways a \<^verbatim>\<open>tryFast\<dots>\<close> method returns \<^verbatim>\<open>(n, ok, err)\<close>: \<^verbatim>\<open>(0, false, nil)\<close>,
  \<^verbatim>\<open>(n, true, nil)\<close> and any triple with an error, which its caller treats alike; and a
  run-time panic. In the next theories \<open>None\<close> is a loop that does not end.
\<close>

datatype attempt = Declined | Handled int | Failed error | Panicked

datatype 'a analysis = Found 'a | NotFast | AnalysisError error

record fastRequestResult =
  r_kind :: ReqOrRsp
  r_method :: Method
  r_target :: bytes
  r_major :: byte
  r_minor :: byte
  r_body :: bytes
  r_bodyStart :: nat
  r_bodyMode :: bodyMode
  r_hasContentLength :: bool
  r_contentLength :: int32
  r_hasTransferEncoding :: bool
  r_hasConnectionClose :: bool
  r_hasConnectionUpgrade :: bool
  r_hasUpgrade :: bool
  r_headersStart :: nat
  r_headersEnd :: nat

text \<open>
  \<^verbatim>\<open>fastRequestResult{kind: REQUEST, method: \<dots>}\<close>. The body mode is assigned before the
  result is used.
\<close>

definition newFastResult :: "requestLine \<Rightarrow> fastRequestResult" where
  "newFastResult line =
     \<lparr>r_kind = REQUEST, r_method = rl_Method line, r_target = rl_Target line,
      r_major = rl_Major line, r_minor = rl_Minor line, r_body = [], r_bodyStart = 0,
      r_bodyMode = bodyModeNone, r_hasContentLength = False, r_contentLength = 0,
      r_hasTransferEncoding = False, r_hasConnectionClose = False,
      r_hasConnectionUpgrade = False, r_hasUpgrade = False, r_headersStart = 0,
      r_headersEnd = 0\<rparr>"

definition noteConnection :: "headerLine \<Rightarrow> fastRequestResult \<Rightarrow> fastRequestResult" where
  "noteConnection h res =
     (let res =
            (if equalFoldToken (h_Name h) ''connection''
             then
               (let res = (if equalFoldToken (h_Value h) ''close''
                           then res\<lparr>r_hasConnectionClose := True\<rparr> else res)
                in if equalFoldToken (h_Value h) ''upgrade''
                   then res\<lparr>r_hasConnectionUpgrade := True\<rparr> else res)
             else res)
      in if equalFoldToken (h_Name h) ''upgrade'' then res\<lparr>r_hasUpgrade := True\<rparr> else res)"

text \<open>
  The header capture: the entries of \<^verbatim>\<open>p.fastHeaders\<close> and \<^verbatim>\<open>p.fastHeaderCount\<close>, which turns
  \<^verbatim>\<open>-1\<close> once the array is full; \<open>None\<close> when the pointers are nil. The array entries from
  the count on hold older headers, which the source never reads; the list ends there.
\<close>

type_synonym capture = "(headerLine list \<times> int) option"

definition captureHeader :: "headerLine \<Rightarrow> capture \<Rightarrow> capture" where
  "captureHeader h cap =
     (case cap of
        None \<Rightarrow> None
      | Some (hs, n) \<Rightarrow>
          if n \<ge> 0
          then if n < maxFastHeaders then Some (take (nat n) hs @ [h], n + 1) else Some (hs, -1)
          else Some (hs, n))"

function fastChunkScan :: "cursor \<Rightarrow> unit analysis" where
  "fastChunkScan c =
     (case parseChunkSizeLine c of
        None \<Rightarrow> NotFast
      | Some (sz, c) \<Rightarrow>
          if sz = 0
          then if remaining c < 2 then NotFast
               else if peek c \<noteq> Some CR then AnalysisError ErrChunkSize
               else (let c = advance c 1
                     in if peek c \<noteq> Some LF then AnalysisError ErrChunkSize
                        else if remaining (advance c 1) \<noteq> 0 then NotFast
                        else Found ())
          else (case consumeChunkData c sz of
                  None \<Rightarrow> NotFast
                | Some (_, c) \<Rightarrow> fastChunkScan c))"
  by pat_completeness auto
termination
  by (relation "measure remaining") (auto dest: chunk_step_remaining)

text \<open>The branch at the blank line: \<open>c\<close> is behind it, \<open>hEnd\<close> the offset of its start.\<close>

definition fastRequestBody ::
    "cursor \<Rightarrow> nat \<Rightarrow> nat \<Rightarrow> messageMeta \<Rightarrow> fastRequestResult \<Rightarrow> fastRequestResult analysis" where
  "fastRequestBody c hStart hEnd meta res =
     (let res = res\<lparr>r_headersStart := hStart, r_headersEnd := hEnd,
                    r_bodyMode := decideBodyMode meta,
                    r_hasContentLength := m_hasContentLength meta,
                    r_contentLength := m_contentLength meta,
                    r_hasTransferEncoding := m_hasTransferEncoding meta,
                    r_bodyStart := cur_pos c\<rparr>
      in if r_bodyMode res = bodyModeChunked
         then (case fastChunkScan c of
                 Found _ \<Rightarrow> Found res
               | NotFast \<Rightarrow> NotFast
               | AnalysisError e \<Rightarrow> AnalysisError e)
         else if r_bodyMode res = bodyModeEOF then NotFast
         else if r_bodyMode res = bodyModeContentLength
         then if int (remaining c) \<noteq> sint (m_contentLength meta) then NotFast
              else
                (let res = res\<lparr>r_body := slice c (nat (sint (m_contentLength meta)))\<rparr>;
                     c = advance c (nat (sint (m_contentLength meta)))
                 in if remaining c \<noteq> 0 then NotFast else Found res)
         else if remaining c \<noteq> 0 then NotFast
         else Found res)"

function fastRequestLoop ::
    "nat \<Rightarrow> cursor \<Rightarrow> messageMeta \<Rightarrow> fastRequestResult \<Rightarrow> capture \<Rightarrow>
     fastRequestResult analysis \<times> capture" where
  "fastRequestLoop hStart c meta res cap =
     (if remaining c < 2 then (NotFast, cap)
      else if peek c = Some CR
      then
        (let c = advance c 1
         in if peek c \<noteq> Some LF then (NotFast, cap)
            else (fastRequestBody (advance c 1) hStart (cur_pos c - 1) meta res, cap))
      else
        (case scanCRLF c of
           None \<Rightarrow> (NotFast, cap)
         | Some lineEnd \<Rightarrow>
             (case parseHeaderLineBytes (slice c lineEnd) of
                None \<Rightarrow> (NotFast, cap)
              | Some h \<Rightarrow>
                  (case applyHeaderMeta meta h of
                     None \<Rightarrow> (AnalysisError (headerSemanticError meta h), cap)
                   | Some meta \<Rightarrow>
                       fastRequestLoop hStart (advance c (lineEnd + 2)) meta
                         (noteConnection h res) (captureHeader h cap)))))"
  by pat_completeness auto
termination
  by (relation "measure (\<lambda>(_, c, _). remaining c)") (auto dest: cur.scan_decreases)

declare fastChunkScan.simps [simp del] fastRequestLoop.simps [simp del]

definition analyzeFastRequestCaptured :: "bytes \<Rightarrow> capture \<Rightarrow> fastRequestResult analysis \<times> capture" where
  "analyzeFastRequestCaptured b cap =
     (let c = newCursor b
      in case parseRequestLine c of
           None \<Rightarrow> (NotFast, cap)
         | Some line \<Rightarrow>
             (case scanCRLF c of
                None \<Rightarrow> (NotFast, cap)
              | Some lineEnd \<Rightarrow>
                  fastRequestLoop (cur_pos c + lineEnd + 2) (advance c (lineEnd + 2))
                    (newMeta REQUEST 0) (newFastResult line) cap))"

definition applyFastRequestResult :: "fastRequestResult \<Rightarrow> Parser \<Rightarrow> Parser" where
  "applyFastRequestResult result p =
     (let p = p\<lparr>currentType := r_kind result, phase := ''messageDone'', pending := [],
                messageStarted := False, urlOffset := length (r_target result),
                statusOffset := 0, headerValueOffset := 0, Method := r_method result,
                Major := r_major result, Minor := r_minor result, StatusCode := 0,
                hasContentLength := r_hasContentLength result,
                contentLength := r_contentLength result,
                hasTransferEncoding := r_hasTransferEncoding result,
                hasConnectionClose := r_hasConnectionClose result,
                hasUpgrade := r_hasUpgrade result,
                hasConnectionUpgrade := r_hasConnectionUpgrade result, Upgrade := False\<rparr>;
          p = (if hasUpgrade p \<and> hasConnectionUpgrade p then p\<lparr>Upgrade := True\<rparr>
               else p\<lparr>Upgrade := (Method p = CONNECT)\<rparr>);
          p = p\<lparr>messageCompleteCalled := False\<rparr>
      in if r_bodyMode result = bodyModeNone then p\<lparr>contentLength := unsetContentLength\<rparr> else p)"

definition emitHeader :: "Setting option \<Rightarrow> nat \<Rightarrow> headerLine \<Rightarrow> Parser \<Rightarrow> Parser" where
  "emitHeader setting at h p =
     call setting cbHeaderValue (EvHeaderValue (h_Value h) at)
       (call setting cbHeaderField (EvHeaderField (h_Name h) at) p)"

function emitHeaderLines :: "Setting option \<Rightarrow> nat \<Rightarrow> cursor \<Rightarrow> Parser \<Rightarrow> Parser" where
  "emitHeaderLines setting at c p =
     (if remaining c > 0
      then (case scanCRLF c of
              None \<Rightarrow> p
            | Some lineEnd \<Rightarrow>
                (case parseHeaderLine c of
                   None \<Rightarrow> p
                 | Some h \<Rightarrow>
                     emitHeaderLines setting at (advance c (lineEnd + 2)) (emitHeader setting at h p)))
      else p)"
  by pat_completeness auto
termination
  by (relation "measure (\<lambda>(_, _, c, _). remaining c)") (auto dest: cur.scan_decreases)

function emitChunks :: "Setting option \<Rightarrow> nat \<Rightarrow> cursor \<Rightarrow> Parser \<Rightarrow> Parser" where
  "emitChunks setting at c p =
     (case parseChunkSizeLine c of
        None \<Rightarrow> p
      | Some (sz, c) \<Rightarrow>
          if sz = 0 then p
          else (case consumeChunkData c sz of
                  None \<Rightarrow> p
                | Some (chunk, c) \<Rightarrow>
                    emitChunks setting at c
                      (if length chunk > 0 then call setting cbBody (EvBody chunk at) p else p)))"
  by pat_completeness auto
termination
  by (relation "measure (\<lambda>(_, _, c, _). remaining c)") (auto dest: chunk_step_remaining)

declare emitHeaderLines.simps [simp del] emitChunks.simps [simp del]

text \<open>
  The three loops over the captured headers differ in which callbacks are set;
  \<open>emitHeader\<close> tests each callback. A nil setting is dereferenced at once.
\<close>

definition emitFastRequest :: "Setting option \<Rightarrow> bytes \<Rightarrow> fastRequestResult \<Rightarrow> Parser \<Rightarrow> Parser option" where
  "emitFastRequest setting b result p =
     (case setting of
        None \<Rightarrow> None
      | Some s \<Rightarrow>
          (let at = length b;
               p = call setting cbMessageBegin (EvMessageBegin 0) p;
               p = (if length (r_target result) > 0
                    then call setting cbURL (EvURL (r_target result) at) p else p);
               p = (if r_headersStart result < r_headersEnd result \<and> (cbHeaderField s \<or> cbHeaderValue s)
                    then if fastHeaderCount p > 0
                         then fold (emitHeader setting at) (take (nat (fastHeaderCount p)) (fastHeaders p)) p
                         else emitHeaderLines setting at
                                (newCursor (drop (r_headersStart result) (take (r_headersEnd result) b))) p
                    else p);
               p = call setting cbHeadersComplete (EvHeadersComplete at) p;
               p = (if r_bodyMode result = bodyModeChunked
                    then emitChunks setting at (newCursor (drop (r_bodyStart result) b)) p
                    else if length (r_body result) > 0
                    then call setting cbBody (EvBody (r_body result) at) p else p);
               p = p\<lparr>messageCompleteCalled := True\<rparr>
           in Some (call setting cbMessageComplete (EvMessageComplete at) p)))"

definition tryFastRequest :: "Setting option \<Rightarrow> bytes \<Rightarrow> Parser \<Rightarrow> Parser \<times> attempt" where
  "tryFastRequest setting b p =
     (if messageStarted p \<or> length (pending p) \<noteq> 0 then (p, Declined)
      else if inferMessageKind (defaultType p) b \<noteq> Some REQUEST then (p, Declined)
      else
        (let p = p\<lparr>fastHeaderCount := 0\<rparr>;
             cap = (case setting of
                      None \<Rightarrow> None
                    | Some s \<Rightarrow> if cbHeaderField s \<or> cbHeaderValue s
                               then Some (fastHeaders p, fastHeaderCount p) else None)
         in case analyzeFastRequestCaptured b cap of
              (outcome, cap) \<Rightarrow>
                (let p = (case cap of
                            None \<Rightarrow> p
                          | Some (hs, n) \<Rightarrow> p\<lparr>fastHeaders := hs, fastHeaderCount := n\<rparr>)
                 in case outcome of
                      AnalysisError e \<Rightarrow> (p, Failed e)
                    | NotFast \<Rightarrow> (p\<lparr>fastHeaderCount := 0\<rparr>, Declined)
                    | Found result \<Rightarrow>
                        (let p = applyFastRequestResult result p
                         in case emitFastRequest setting b result p of
                              None \<Rightarrow> (p, Panicked)
                            | Some p \<Rightarrow> (p, Handled (int (length b)))))))"

section \<open>The analyzer against the reference parser\<close>

lemma headersB_no_panic: "headersB b meta \<noteq> ParsePanic"
proof (induction "length b" arbitrary: b meta rule: less_induct)
  case less
  show ?case
  proof
    assume "headersB b meta = ParsePanic"
    then obtain n meta' where n: "scanCRLFBytes b = Some n" "headersB (drop (n + 2) b) meta' = ParsePanic"
      by (subst (asm) headersB.simps)
        (auto split: if_splits option.splits)
    with less [of "drop (n + 2) b" meta'] scanCRLFBytes_bound [OF n(1)] show False by simp
  qed
qed

lemma blank_line_at_rest:
  assumes "\<not> remaining c < 2"
  shows "advance (advance c 1) 1 = at_rest (cur_buf c) (cur_rest (advance (advance c 1) 1))"
    and "cur_pos (advance c 1) - 1 = length (cur_buf c) - length (cur_rest (advance (advance c 1) 1)) - 2"
proof -
  show "advance (advance c 1) 1 = at_rest (cur_buf c) (cur_rest (advance (advance c 1) 1))"
    using at_rest_eq [OF advance_wf, of "advance c 1" 1] by (simp add: advance_buf)
  show "cur_pos (advance c 1) - 1 = length (cur_buf c) - length (cur_rest (advance (advance c 1) 1)) - 2"
    using cursor_pos_rest [OF advance_wf, of c 1] assms
    by (simp add: advance_buf cur.adv_rest cur.rem_rest)
qed

lemma fastRequestLoop_fst:
  assumes "cursor_wf c"
  shows "fst (fastRequestLoop hStart c meta res cap) =
     (case headersB (cur_rest c) meta of
        Incomplete \<Rightarrow> NotFast
      | ParseError e \<Rightarrow> AnalysisError e
      | ParsePanic \<Rightarrow> NotFast
      | Parsed (r, meta', hs) \<Rightarrow>
          fastRequestBody (at_rest (cur_buf c) r) hStart (length (cur_buf c) - length r - 2)
            meta' (fold noteConnection hs res))"
  using assms
proof (induction "remaining c" arbitrary: c meta res cap rule: less_induct)
  case less
  show ?case
  proof (cases c meta rule: header_cases)
    case blank
    note br = blank_line_at_rest [OF blank(1)]
    show ?thesis
      using blank br by (subst fastRequestLoop.simps) (simp only: Let_def if_False if_True simp_thms fst_conv
          parseResult.case prod.case fold.simps id_apply)
  next
    case (header n h meta')
    then show ?thesis
      using less.hyps [OF header(7) advance_wf]
      by (subst fastRequestLoop.simps)
        (auto simp: advance_buf split: parseResult.splits)
  qed (subst fastRequestLoop.simps; simp add: Let_def)+
qed

lemma fastRequestLoop_snd:
  assumes "headersB (cur_rest c) meta = Parsed (r, meta', hs)"
  shows "snd (fastRequestLoop hStart c meta res cap) = fold captureHeader hs cap"
  using assms
proof (induction "remaining c" arbitrary: c meta res cap hs rule: less_induct)
  case less
  show ?case
  proof (cases c meta rule: header_cases)
    case (header n h meta'')
    then show ?thesis
      using less.hyps [OF header(7)] less.prems
      by (subst fastRequestLoop.simps) (auto)
  qed (use less.prems in \<open>subst fastRequestLoop.simps; auto simp: Let_def\<close>)+
qed

lemma fastChunkScan_eq:
  "fastChunkScan c =
     (case snd (decodeChunks (cur_rest c)) of
        ChunksDone r \<Rightarrow> if r = [] then Found () else NotFast
      | ChunksBad \<Rightarrow> AnalysisError ErrChunkSize
      | ChunksShort \<Rightarrow> NotFast)"
proof (induction "remaining c" arbitrary: c rule: less_induct)
  case less
  show ?case
  proof (cases c rule: chunk_cases)
    case (data sz c' d c'')
    then show ?thesis
      using less [OF data(5)] by (subst fastChunkScan.simps) simp
  qed (subst fastChunkScan.simps; auto simp: Let_def cur.rem_rest)+
qed

text \<open>What the analyzer records of a message whose body starts behind \<open>raw\<close> bytes from the end.\<close>

definition fillResult ::
    "bytes \<Rightarrow> nat \<Rightarrow> messageMeta \<Rightarrow> bytes \<Rightarrow> bytes \<Rightarrow> fastRequestResult \<Rightarrow> fastRequestResult" where
  "fillResult b hStart meta raw body res =
     res\<lparr>r_headersStart := hStart, r_headersEnd := length b - length raw - 2,
         r_bodyMode := decideBodyMode meta, r_hasContentLength := m_hasContentLength meta,
         r_contentLength := m_contentLength meta,
         r_hasTransferEncoding := m_hasTransferEncoding meta,
         r_bodyStart := length b - length raw,
         r_body := (if decideBodyMode meta = bodyModeContentLength then body else r_body res)\<rparr>"

lemma fastRequestBody_eq:
  assumes "b = xs @ raw" and "m_kind meta = REQUEST"
  shows "fastRequestBody (at_rest b raw) hStart (length b - length raw - 2) meta res =
     (case bodyB meta raw of
        Parsed body \<Rightarrow> Found (fillResult b hStart meta raw body res)
      | Incomplete \<Rightarrow>
          if decideBodyMode meta = bodyModeChunked \<and> snd (decodeChunks raw) = ChunksBad
          then AnalysisError ErrChunkSize else NotFast
      | _ \<Rightarrow> NotFast)"
proof -
  have r: "cur_rest (at_rest b raw) = raw" using assms by (simp add: cur_rest_at_rest)
  show ?thesis
  proof (cases "decideBodyMode meta")
    case bodyModeChunked
    then show ?thesis
      by (auto simp: fastRequestBody_def fastChunkScan_eq r bodyB_def fillResult_def at_rest_pos
          split: prod.splits chunkStop.splits list.splits)
  next
    case bodyModeEOF
    then show ?thesis using decideBodyMode_request [OF assms(2)] by simp
  qed (auto simp: fastRequestBody_def Let_def cursor_simps r bodyB_def fillResult_def at_rest_pos)
qed

lemma analyzeFastRequestCaptured_unfold:
  "analyzeFastRequestCaptured b cap =
     (case startB b REQUEST of
        None \<Rightarrow> (NotFast, cap)
      | Some (r, line, _, meta) \<Rightarrow>
          fastRequestLoop (length b - length r) (at_rest b r) meta (newFastResult line) cap)"
proof (cases "scanCRLFBytes b")
  case None
  then show ?thesis
    by (simp add: analyzeFastRequestCaptured_def startB_def cursor_simps firstLine_def)
next
  case (Some n)
  have "advance (newCursor b) (n + 2) = at_rest b (drop (n + 2) b)"
    using advance_at_rest [OF newCursor_wf, of b "n + 2"]
    by (simp add: newCursor_rest) (simp add: newCursor_def)
  moreover have "cur_pos (newCursor b) + n + 2 = length b - length (drop (n + 2) b)"
    using scanCRLFBytes_bound [OF Some] by (simp add: newCursor_def)
  ultimately show ?thesis
    using Some by (simp add: analyzeFastRequestCaptured_def startB_def cursor_simps firstLine_def
        split: option.split)
qed

text \<open>
  The facts \<open>noteConnection\<close> gathers over the headers.
\<close>

definition hasHeader :: "string \<Rightarrow> string \<Rightarrow> headerLine list \<Rightarrow> bool" where
  "hasHeader name token hs \<longleftrightarrow>
     list_ex (\<lambda>h. equalFoldToken (h_Name h) name \<and> equalFoldToken (h_Value h) token) hs"

definition hasHeaderName :: "string \<Rightarrow> headerLine list \<Rightarrow> bool" where
  "hasHeaderName name hs \<longleftrightarrow> list_ex (\<lambda>h. equalFoldToken (h_Name h) name) hs"

lemma noteConnection_fold:
  "fold noteConnection hs res =
     res\<lparr>r_hasConnectionClose := r_hasConnectionClose res \<or> hasHeader ''connection'' ''close'' hs,
         r_hasConnectionUpgrade := r_hasConnectionUpgrade res \<or> hasHeader ''connection'' ''upgrade'' hs,
         r_hasUpgrade := r_hasUpgrade res \<or> hasHeaderName ''upgrade'' hs\<rparr>"
proof (induction hs arbitrary: res)
  case Nil
  then show ?case by (simp add: hasHeader_def hasHeaderName_def)
next
  case (Cons h hs)
  then show ?case
    by (simp add: noteConnection_def Let_def hasHeader_def hasHeaderName_def)
qed

definition fastResultOf :: "bytes \<Rightarrow> bytes \<Rightarrow> bytes \<Rightarrow> parsedMessage \<Rightarrow> fastRequestResult" where
  "fastResultOf b line raw msg =
     fillResult b (length line + 2) (pm_meta msg) raw (pm_body msg)
       ((newFastResult (pm_request msg))
          \<lparr>r_hasConnectionClose := hasHeader ''connection'' ''close'' (pm_headers msg),
           r_hasConnectionUpgrade := hasHeader ''connection'' ''upgrade'' (pm_headers msg),
           r_hasUpgrade := hasHeaderName ''upgrade'' (pm_headers msg)\<rparr>)"

lemma analyzeFastRequest_Parsed:
  assumes b: "b = line @ CRLF @ headerBlock ls @ raw" and line: "scanCRLFBytes (line @ [CR]) = None"
    and "start_ok line msg" and hs: "headers_of ls (pm_headers msg)"
    and meta: "applyMetas (startMeta msg) (pm_headers msg) = Some (pm_meta msg)"
    and body: "bodyB (pm_meta msg) raw = Parsed (pm_body msg)" and k: "pm_kind msg = REQUEST"
  shows "analyzeFastRequestCaptured b cap =
           (Found (fastResultOf b line raw msg), fold captureHeader (pm_headers msg) cap)"
proof -
  let ?r = "headerBlock ls @ raw"
  have st: "startB b REQUEST = Some (?r, pm_request msg, zeroResponseLine, newMeta REQUEST 0)"
    unfolding startB_Some_iff using b line assms(3) k by (auto simp: start_ok_def)
  have m0: "startMeta msg = newMeta REQUEST 0" using k by (simp add: startMeta_def)
  have hb: "headersB ?r (newMeta REQUEST 0) = Parsed (raw, pm_meta msg, pm_headers msg)"
    using headersB_block [OF hs] meta m0 by simp
  have kind: "m_kind (pm_meta msg) = REQUEST"
    using applyMetas_kind [OF meta] by (simp add: m0 newMeta_def)
  have wf: "cursor_wf (at_rest b ?r)" by (simp add: cursor_wf_def at_rest_def)
  have rest: "cur_rest (at_rest b ?r) = ?r"
    using cur_rest_at_rest [of "line @ CRLF" ?r] b by simp
  have len: "length b - length ?r = length line + 2" by (simp add: b)
  have bd: "fastRequestBody (at_rest b raw) (length line + 2) (length b - length raw - 2) (pm_meta msg) res =
      Found (fillResult b (length line + 2) (pm_meta msg) raw (pm_body msg) res)" for res
    using fastRequestBody_eq [of b "line @ CRLF @ headerBlock ls" raw "pm_meta msg"] kind body b by simp
  define loop where
    "loop = fastRequestLoop (length line + 2) (at_rest b ?r) (newMeta REQUEST 0)
              (newFastResult (pm_request msg)) cap"
  have "fst loop = Found (fastResultOf b line raw msg)"
    unfolding loop_def fastRequestLoop_fst [OF wf] rest hb parseResult.case prod.case at_rest_buf bd
    by (simp add: noteConnection_fold fastResultOf_def newFastResult_def)
  moreover have "snd loop = fold captureHeader (pm_headers msg) cap"
    unfolding loop_def by (rule fastRequestLoop_snd) (simp only: rest hb)
  moreover have "analyzeFastRequestCaptured b cap = loop"
    unfolding loop_def analyzeFastRequestCaptured_unfold st option.case prod.case len by (rule refl)
  ultimately show ?thesis by (metis prod.collapse)
qed

lemma analyzeFastRequest_other:
  assumes "\<nexists>msg. messageB b REQUEST = Parsed msg"
  shows "fst (analyzeFastRequestCaptured b cap) =
     (case messageB b REQUEST of
        ParseError e \<Rightarrow> AnalysisError e
      | ParsePanic \<Rightarrow> NotFast
      | _ \<Rightarrow> fst (analyzeFastRequestCaptured b cap)) \<and>
     (messageB b REQUEST = Incomplete \<longrightarrow>
        fst (analyzeFastRequestCaptured b cap) \<in> {NotFast, AnalysisError ErrChunkSize})"
proof (cases "startB b REQUEST")
  case None
  then show ?thesis
    by (simp add: analyzeFastRequestCaptured_unfold messageB_def)
next
  case (Some q)
  obtain r line rsp meta where q: "q = (r, line, rsp, meta)" by (cases q)
  note st = Some [unfolded q]
  from st obtain xs where b: "b = xs @ r" and m0: "meta = newMeta REQUEST 0"
    by (fastforce simp: startB_Some_iff)
  have wf: "cursor_wf (at_rest b r)" by (simp add: cursor_wf_def at_rest_def)
  have rest: "cur_rest (at_rest b r) = r" by (simp add: b cur_rest_at_rest)
  have eq: "analyzeFastRequestCaptured b cap =
      fastRequestLoop (length b - length r) (at_rest b r) meta (newFastResult line) cap"
    by (simp add: analyzeFastRequestCaptured_unfold st)
  show ?thesis
  proof (cases "headersB r meta")
    case (Parsed t)
    obtain raw meta' hs where t: "t = (raw, meta', hs)" by (cases t)
    from Parsed t obtain ls where ls: "r = headerBlock ls @ raw" "applyMetas meta hs = Some meta'"
      by (auto simp: headersB_Parsed_iff)
    have kind: "m_kind meta' = REQUEST"
      using applyMetas_kind [OF ls(2)] by (simp add: m0 newMeta_def)
    have "fst (analyzeFastRequestCaptured b cap) =
        (case bodyB meta' raw of
           Parsed body \<Rightarrow> Found (fillResult b (length b - length r) meta' raw body
                                  (fold noteConnection hs (newFastResult line)))
         | Incomplete \<Rightarrow>
             if decideBodyMode meta' = bodyModeChunked \<and> snd (decodeChunks raw) = ChunksBad
             then AnalysisError ErrChunkSize else NotFast
         | _ \<Rightarrow> NotFast)"
      unfolding eq fastRequestLoop_fst [OF wf] rest Parsed t parseResult.case prod.case at_rest_buf
      by (rule fastRequestBody_eq [of b "xs @ headerBlock ls"]) (simp_all add: b ls kind)
    then show ?thesis
      using assms by (cases "bodyB meta' raw") (auto simp: messageB_def st Parsed t bodyB_no_error)
  qed (use fastRequestLoop_fst [OF wf] in \<open>simp_all add: eq messageB_def st rest\<close>)
qed

section \<open>Delivery of a request in one buffer\<close>

definition headerEvents :: "Setting \<Rightarrow> nat \<Rightarrow> headerLine \<Rightarrow> event list" where
  "headerEvents s at h =
     fires (Some s) cbHeaderField (EvHeaderField (h_Name h) at) @
     fires (Some s) cbHeaderValue (EvHeaderValue (h_Value h) at)"

text \<open>The calls for one complete request, its body handed over in the pieces \<open>ds\<close>.\<close>

definition requestEvents :: "Setting \<Rightarrow> nat \<Rightarrow> parsedMessage \<Rightarrow> bytes list \<Rightarrow> event list" where
  "requestEvents s at msg ds =
     fires (Some s) cbMessageBegin (EvMessageBegin 0) @
     (if rl_Target (pm_request msg) \<noteq> []
      then fires (Some s) cbURL (EvURL (rl_Target (pm_request msg)) at) else []) @
     concat (map (headerEvents s at) (pm_headers msg)) @
     fires (Some s) cbHeadersComplete (EvHeadersComplete at) @
     concat (map (\<lambda>d. if d \<noteq> [] then fires (Some s) cbBody (EvBody d at) else []) ds) @
     fires (Some s) cbMessageComplete (EvMessageComplete at)"

lemma emitHeader_eq:
  "emitHeader (Some s) at h p = p\<lparr>trace := trace p @ headerEvents s at h\<rparr>"
  by (simp add: emitHeader_def call_eq headerEvents_def)

lemma emitHeaders_fold:
  "fold (emitHeader (Some s) at) hs p = p\<lparr>trace := trace p @ concat (map (headerEvents s at) hs)\<rparr>"
  by (induction hs arbitrary: p) (simp_all add: emitHeader_eq)

lemma emitHeaderLines_eq:
  "cur_rest c = concat (map (\<lambda>l. l @ CRLF) ls) \<Longrightarrow> headers_of ls hs \<Longrightarrow>
     emitHeaderLines setting at c p = fold (emitHeader setting at) hs p"
proof (induction ls arbitrary: c hs p)
  case Nil
  then show ?case by (subst emitHeaderLines.simps) (simp add: cur.rem_rest headers_of_def)
next
  case (Cons l ls)
  from Cons.prems(2) obtain h hs' where hs: "hs = h # hs'" "parseHeaderLineBytes l = Some h"
    "line_ok l" "headers_of ls hs'"
    by (auto simp: headers_of_def Cons_eq_map_conv)
  have rest: "cur_rest c = l @ CRLF @ concat (map (\<lambda>l. l @ CRLF) ls)"
    using Cons.prems(1) by simp
  note sl = cur.scan_line_append [OF rest]
  from hs(3) have "scanCRLFBytes (l @ [CR]) = None" by (simp add: line_ok_def)
  note sl = sl [OF this]
  have "remaining c > 0" by (simp add: cur.rem_rest rest)
  with sl hs Cons.IH [OF sl(3) hs(4)] show ?case
    by (subst emitHeaderLines.simps) (simp add: parseHeaderLine_scan)
qed

lemma emitChunks_eq:
  "emitChunks setting at c p =
     fold (\<lambda>d p. if length d > 0 then call setting cbBody (EvBody d at) p else p)
       (fst (decodeChunks (cur_rest c))) p"
proof (induction "remaining c" arbitrary: c p rule: less_induct)
  case less
  show ?case
  proof (cases c rule: chunk_cases)
    case (data sz c' d c'')
    then show ?thesis
      using less [OF data(5)] by (subst emitChunks.simps) simp
  qed (subst emitChunks.simps; simp)+
qed

lemma emitBodies_fold:
  "fold (\<lambda>d p. if length d > 0 then call (Some s) cbBody (EvBody d at) p else p) ds p =
     p\<lparr>trace := trace p @ concat (map (\<lambda>d. if d \<noteq> [] then fires (Some s) cbBody (EvBody d at) else []) ds)\<rparr>"
  by (induction ds arbitrary: p) (simp_all add: call_eq)

lemmas emitChunks_trace = trans [OF emitChunks_eq emitBodies_fold]

lemma captureHeader_full: "fold captureHeader hs (Some (xs, -1)) = Some (xs, -1)"
  by (induction hs) (simp_all add: captureHeader_def)

lemma captureHeader_fold:
  "n + length hs \<le> 64 \<Longrightarrow> n \<le> length xs \<Longrightarrow>
     \<exists>ys. fold captureHeader hs (Some (xs, int n)) = Some (ys, int (n + length hs)) \<and>
       take (n + length hs) ys = take n xs @ hs \<and> n + length hs \<le> length ys"
proof (induction hs arbitrary: n xs)
  case (Cons h hs)
  have "captureHeader h (Some (xs, int n)) = Some (take n xs @ [h], int (Suc n))"
    using Cons.prems by (simp add: captureHeader_def maxFastHeaders_def)
  with Cons.IH [of "Suc n" "take n xs @ [h]"] Cons.prems show ?case by simp
qed simp

lemma captureHeader_fold_full:
  "64 < n + length hs \<Longrightarrow> n \<le> 64 \<Longrightarrow> n \<le> length xs \<Longrightarrow>
     \<exists>ys. fold captureHeader hs (Some (xs, int n)) = Some (ys, - 1)"
proof (induction hs arbitrary: n xs)
  case (Cons h hs)
  show ?case
  proof (cases "n < 64")
    case True
    then have "captureHeader h (Some (xs, int n)) = Some (take n xs @ [h], int (Suc n))"
      by (simp add: captureHeader_def maxFastHeaders_def)
    with Cons.IH [of "Suc n" "take n xs @ [h]"] Cons.prems True show ?thesis by simp
  next
    case False
    then have "captureHeader h (Some (xs, int n)) = Some (xs, - 1)"
      by (simp add: captureHeader_def maxFastHeaders_def)
    then show ?thesis by (simp add: captureHeader_full)
  qed
qed simp

lemma captureHeader_fold_Some: "fold captureHeader hs (Some c) \<noteq> None"
proof (induction hs arbitrary: c)
  case (Cons h hs)
  then show ?case by (cases c) (auto simp: captureHeader_def)
qed simp

text \<open>The two sources of the header calls, the captured array and the rescan, agree.\<close>

lemma emitFastRequest_headers:
  assumes hs: "headers_of ls hs" and cap: "cbHeaderField s \<or> cbHeaderValue s \<Longrightarrow>
      \<exists>ys. fold captureHeader hs (Some (xs, 0)) = Some (ys, fastHeaderCount p) \<and> fastHeaders p = ys"
    and p: "cbHeaderField s \<or> cbHeaderValue s \<Longrightarrow> cur_rest c = concat (map (\<lambda>l. l @ CRLF) ls)"
  shows "(if ls \<noteq> [] \<and> (cbHeaderField s \<or> cbHeaderValue s)
      then if fastHeaderCount p > 0
           then fold (emitHeader (Some s) at) (take (nat (fastHeaderCount p)) (fastHeaders p)) p
           else emitHeaderLines (Some s) at c p
      else p) = p\<lparr>trace := trace p @ concat (map (headerEvents s at) hs)\<rparr>"
proof (cases "cbHeaderField s \<or> cbHeaderValue s")
  case False
  then have "headerEvents s at h = []" for h by (simp add: headerEvents_def)
  with False show ?thesis by simp
next
  case True
  from hs have len: "length hs = length ls" by (metis headers_of_def length_map)
  from cap [OF True] obtain ys where ys: "fold captureHeader hs (Some (xs, 0)) = Some (ys, fastHeaderCount p)"
    "fastHeaders p = ys" by blast
  show ?thesis
  proof (cases "0 < length hs \<and> length hs \<le> 64")
    case True
    with captureHeader_fold [of 0 hs xs] ys
    have "fastHeaderCount p = int (length hs)" "take (length hs) ys = hs" by auto
    with True len ys \<open>cbHeaderField s \<or> cbHeaderValue s\<close> show ?thesis
      by (simp add: emitHeaders_fold)
  next
    case False
    with captureHeader_fold_full [of 0 hs xs] ys have "\<not> fastHeaderCount p > 0" by fastforce
    with len True show ?thesis
      using emitHeaderLines_eq [OF p [OF True] hs] by (auto simp: emitHeaders_fold)
  qed
qed

lemma length_concat_lines: "length (concat (map (\<lambda>l. l @ CRLF) ls)) > 0 \<longleftrightarrow> ls \<noteq> []"
  by (cases ls) auto

definition bodyPieces :: "bodyMode \<Rightarrow> bytes \<Rightarrow> bytes \<Rightarrow> bytes list" where
  "bodyPieces mode raw body = (if mode = bodyModeChunked then fst (decodeChunks raw) else [body])"

lemma bodyPieces_concat:
  "bodyB meta raw = Parsed body \<Longrightarrow> concat (bodyPieces (decideBodyMode meta) raw body) = body"
  by (auto simp: bodyB_def bodyPieces_def split: bodyMode.splits prod.splits chunkStop.splits list.splits)

lemma bodyB_other: 
  "bodyB meta raw = Parsed body \<Longrightarrow> decideBodyMode meta \<noteq> bodyModeContentLength \<Longrightarrow>
     decideBodyMode meta \<noteq> bodyModeChunked \<Longrightarrow> body = []"
  by (auto simp: bodyB_def split: bodyMode.splits if_splits)

lemma emitFastRequest_eq:
  assumes b: "b = line @ CRLF @ headerBlock ls @ raw" and hs: "headers_of ls (pm_headers msg)"
    and body: "bodyB (pm_meta msg) raw = Parsed (pm_body msg)"
    and cap: "cbHeaderField s \<or> cbHeaderValue s \<Longrightarrow>
      fold captureHeader (pm_headers msg) (Some (xs, 0)) = Some (fastHeaders p, fastHeaderCount p)"
  shows "emitFastRequest (Some s) b (fastResultOf b line raw msg) p =
     Some (p\<lparr>trace := trace p @ requestEvents s (length b) msg
                        (bodyPieces (decideBodyMode (pm_meta msg)) raw (pm_body msg)),
            messageCompleteCalled := True\<rparr>)"
proof -
  let ?res = "fastResultOf b line raw msg" and ?at = "length b"
  let ?blk = "concat (map (\<lambda>l. l @ CRLF) ls)"
  have res: "r_target ?res = rl_Target (pm_request msg)" "r_headersStart ?res = length line + 2"
    "r_headersEnd ?res = length line + 2 + length ?blk" "r_bodyStart ?res = length b - length raw"
    "r_bodyMode ?res = decideBodyMode (pm_meta msg)"
    "r_body ?res = (if decideBodyMode (pm_meta msg) = bodyModeContentLength then pm_body msg else [])"
    by (simp_all add: fastResultOf_def fillResult_def newFastResult_def b headerBlock_def)
  have lt: "r_headersStart ?res < r_headersEnd ?res \<longleftrightarrow> ls \<noteq> []"
    using length_concat_lines [of ls] by (auto simp: res)
  have blk: "drop (r_headersStart ?res) (take (r_headersEnd ?res) b) = ?blk"
    unfolding res by (simp add: b headerBlock_def)
  have raw: "drop (r_bodyStart ?res) b = raw" unfolding res by (simp add: b)
  have hdr: "(if ls \<noteq> [] \<and> (cbHeaderField s \<or> cbHeaderValue s)
      then if fastHeaderCount q > 0
           then fold (emitHeader (Some s) ?at) (take (nat (fastHeaderCount q)) (fastHeaders q)) q
           else emitHeaderLines (Some s) ?at (newCursor ?blk) q
      else q) = q\<lparr>trace := trace q @ concat (map (headerEvents s ?at) (pm_headers msg))\<rparr>"
    if "fastHeaderCount q = fastHeaderCount p" "fastHeaders q = fastHeaders p" for q
    by (rule emitFastRequest_headers [OF hs]) (use cap that in \<open>auto simp: newCursor_rest\<close>)
  have bdy: "(if r_bodyMode ?res = bodyModeChunked then emitChunks (Some s) ?at (newCursor raw) q
       else if length (r_body ?res) > 0 then call (Some s) cbBody (EvBody (r_body ?res) ?at) q else q) =
      q\<lparr>trace := trace q @ concat (map (\<lambda>d. if d \<noteq> [] then fires (Some s) cbBody (EvBody d ?at) else [])
           (bodyPieces (decideBodyMode (pm_meta msg)) raw (pm_body msg)))\<rparr>" for q
    using bodyB_other [OF body]
    by (auto simp: res emitChunks_trace newCursor_rest bodyPieces_def call_eq)
  have beg: "(if length (r_target ?res) > 0
       then call (Some s) cbURL (EvURL (r_target ?res) ?at) (call (Some s) cbMessageBegin (EvMessageBegin 0) p)
       else call (Some s) cbMessageBegin (EvMessageBegin 0) p) =
      p\<lparr>trace := trace p @ fires (Some s) cbMessageBegin (EvMessageBegin 0) @
          (if rl_Target (pm_request msg) \<noteq> []
           then fires (Some s) cbURL (EvURL (rl_Target (pm_request msg)) ?at) else [])\<rparr>"
    unfolding res by (simp add: call_eq)
  define q1 where "q1 = p\<lparr>trace := trace p @ fires (Some s) cbMessageBegin (EvMessageBegin 0) @
          (if rl_Target (pm_request msg) \<noteq> []
           then fires (Some s) cbURL (EvURL (rl_Target (pm_request msg)) ?at) else [])\<rparr>"
  have q1: "fastHeaderCount q1 = fastHeaderCount p" "fastHeaders q1 = fastHeaders p"
    by (simp_all add: q1_def)
  show ?thesis
    unfolding emitFastRequest_def option.case Let_def lt blk raw bdy beg [folded q1_def] hdr [OF q1]
    by (simp add: call_eq requestEvents_def q1_def)
qed

section \<open>Properties\<close>

text \<open>
  C8: the single-pass analyzer of the fast path computes what the reference parser computes.
  For a request the reference parser accepts, it finds the same method, target, version, body
  mode and framing values, and has captured exactly the message's headers; a header error is
  the same error; and where the reference parser waits for more bytes the analyzer declines or
  reports a malformed chunk end, never a request.
\<close>

theorem analyzeFastRequest_agrees:
  "case parseMessageDetailed b REQUEST of
     Parsed msg \<Rightarrow>
       \<exists>res. analyzeFastRequestCaptured b cap = (Found res, fold captureHeader (pm_headers msg) cap) \<and>
         r_method res = rl_Method (pm_request msg) \<and> r_target res = rl_Target (pm_request msg) \<and>
         r_major res = rl_Major (pm_request msg) \<and> r_minor res = rl_Minor (pm_request msg) \<and>
         r_bodyMode res = pm_mode msg \<and>
         r_hasContentLength res = m_hasContentLength (pm_meta msg) \<and>
         r_contentLength res = m_contentLength (pm_meta msg) \<and>
         r_hasTransferEncoding res = m_hasTransferEncoding (pm_meta msg) \<and>
         r_body res = (if pm_mode msg = bodyModeContentLength then pm_body msg else [])
   | Incomplete \<Rightarrow> fst (analyzeFastRequestCaptured b cap) \<in> {NotFast, AnalysisError ErrChunkSize}
   | ParseError e \<Rightarrow> fst (analyzeFastRequestCaptured b cap) = AnalysisError e
   | ParsePanic \<Rightarrow> fst (analyzeFastRequestCaptured b cap) = NotFast"
proof (cases "messageB b REQUEST")
  case (Parsed msg)
  then obtain line ls raw where
    m: "b = line @ CRLF @ headerBlock ls @ raw" "scanCRLFBytes (line @ [CR]) = None"
      "start_ok line msg" "headers_of ls (pm_headers msg)"
      "applyMetas (startMeta msg) (pm_headers msg) = Some (pm_meta msg)"
      "bodyB (pm_meta msg) raw = Parsed (pm_body msg)"
    and k: "pm_kind msg = REQUEST" "pm_mode msg = decideBodyMode (pm_meta msg)"
    by (auto simp: messageB_Parsed_iff)
  show ?thesis
    unfolding parseMessageDetailed_eq_messageB Parsed parseResult.case
    by (rule exI [of _ "fastResultOf b line raw msg"])
      (simp add: analyzeFastRequest_Parsed [OF m k(1)] fastResultOf_def fillResult_def newFastResult_def k)
qed (use analyzeFastRequest_other [of b cap] in \<open>simp_all add: parseMessageDetailed_eq_messageB\<close>)

text \<open>
  C9: a request that arrives in one buffer is delivered completely and in order by the fast
  path. The callbacks that are set see the begin, the target, every header of the reference
  parser's message in order (whether they were captured, or there were too many and they are
  scanned again), the end of the headers, the body in pieces that concatenate to the message's
  body, and the completion, and the whole buffer is consumed.
\<close>

theorem tryFastRequest_delivers:
  assumes "parseMessageDetailed b REQUEST = Parsed msg" and "\<not> messageStarted p" and "pending p = []"
    and "inferMessageKind (defaultType p) b = Some REQUEST"
  shows "\<exists>p' ds. tryFastRequest (Some s) b p = (p', Handled (int (length b))) \<and>
     trace p' = trace p @ requestEvents s (length b) msg ds \<and> concat ds = pm_body msg \<and>
     messageCompleteCalled p' \<and> \<not> messageStarted p' \<and> pending p' = [] \<and>
     Method p' = rl_Method (pm_request msg) \<and> Major p' = rl_Major (pm_request msg) \<and>
     Minor p' = rl_Minor (pm_request msg) \<and>
     Upgrade p' = (hasHeaderName ''upgrade'' (pm_headers msg) \<and>
                     hasHeader ''connection'' ''upgrade'' (pm_headers msg) \<or>
                   rl_Method (pm_request msg) = CONNECT)"
proof -
  from assms(1) obtain line ls raw where
    m: "b = line @ CRLF @ headerBlock ls @ raw" "scanCRLFBytes (line @ [CR]) = None"
      "start_ok line msg" "headers_of ls (pm_headers msg)"
      "applyMetas (startMeta msg) (pm_headers msg) = Some (pm_meta msg)"
      "bodyB (pm_meta msg) raw = Parsed (pm_body msg)"
    and k: "pm_kind msg = REQUEST"
    by (auto simp: parseMessageDetailed_eq_messageB messageB_Parsed_iff)
  define cap :: capture where "cap = (if cbHeaderField s \<or> cbHeaderValue s then Some (fastHeaders p, 0) else None)"
  define res where "res = fastResultOf b line raw msg"
  define p0 where "p0 = (case fold captureHeader (pm_headers msg) cap of
      None \<Rightarrow> p\<lparr>fastHeaderCount := 0\<rparr>
    | Some (hs, n) \<Rightarrow> p\<lparr>fastHeaderCount := 0, fastHeaders := hs, fastHeaderCount := n\<rparr>)"
  have frame: "fastHeaders (applyFastRequestResult res q) = fastHeaders q"
    "fastHeaderCount (applyFastRequestResult res q) = fastHeaderCount q"
    "trace (applyFastRequestResult res q) = trace q" for q
    by (simp_all add: applyFastRequestResult_def Let_def)
  have tp0: "trace p0 = trace p" by (auto simp: p0_def split: option.split)
  have em: "emitFastRequest (Some s) b res (applyFastRequestResult res p0) =
     Some ((applyFastRequestResult res p0)
       \<lparr>trace := trace p @ requestEvents s (length b) msg
                   (bodyPieces (decideBodyMode (pm_meta msg)) raw (pm_body msg)),
        messageCompleteCalled := True\<rparr>)"
    unfolding res_def
    by (subst emitFastRequest_eq [OF m(1,4,6), where xs = "fastHeaders p"])
      (auto simp: frame [unfolded res_def] tp0 p0_def cap_def captureHeader_fold_Some split: option.splits)
  have "tryFastRequest (Some s) b p =
      ((applyFastRequestResult res p0)
       \<lparr>trace := trace p @ requestEvents s (length b) msg
                   (bodyPieces (decideBodyMode (pm_meta msg)) raw (pm_body msg)),
        messageCompleteCalled := True\<rparr>, Handled (int (length b)))"
    using assms(2-4) analyzeFastRequest_Parsed [OF m k, of cap] em
    by (cases "cbHeaderField s \<or> cbHeaderValue s")
      (simp_all add: tryFastRequest_def res_def cap_def p0_def Let_def)
  with bodyPieces_concat [OF m(6)] show ?thesis
    by (auto simp: applyFastRequestResult_def Let_def res_def fastResultOf_def fillResult_def newFastResult_def)
qed

text \<open>A request of one header without body.\<close>

definition sampleRequest :: bytes where
  "sampleRequest = str ''GET / HTTP/1.1'' @ CRLF @ str ''A: b'' @ CRLF @ CRLF"

definition sampleMessage :: parsedMessage where
  "sampleMessage =
     \<lparr>pm_kind = REQUEST,
      pm_request = \<lparr>rl_Method = GET, rl_Target = str ''/'', rl_Major = 1, rl_Minor = 1\<rparr>,
      pm_response = zeroResponseLine, pm_headers = [\<lparr>h_Name = str ''A'', h_Value = str ''b''\<rparr>],
      pm_body = [], pm_mode = bodyModeNone, pm_meta = newMeta REQUEST 0\<rparr>"

theorem tryFastRequest_delivers_witness:
  "\<exists>p' ds. tryFastRequest (Some allCallbacks) sampleRequest (New REQUEST) = (p', Handled 24) \<and>
     trace p' = requestEvents allCallbacks 24 sampleMessage ds \<and> concat ds = [] \<and> Method p' = GET"
proof -
  have "parseMessageDetailed sampleRequest REQUEST = Parsed sampleMessage" by code_simp
  moreover have "\<not> messageStarted (New REQUEST)" "pending (New REQUEST) = []"
    "inferMessageKind (defaultType (New REQUEST)) sampleRequest = Some REQUEST"
    "trace (New REQUEST) = []" "length sampleRequest = 24"
    by code_simp+
  ultimately show ?thesis
    using tryFastRequest_delivers [of sampleRequest sampleMessage "New REQUEST" allCallbacks]
    by (auto simp: sampleMessage_def)
qed

end
