(* ===== verification/Fast_Chunked.thy ===== *)
theory Fast_Chunked
  imports Fast_Request
begin

text \<open>
  The body consumers of \<^verbatim>\<open>internal/parser/engine.go\<close>: \<^verbatim>\<open>tryFastChunkedRequest\<close> for a chunked
  request in one buffer, and the streaming consumers
  \<^verbatim>\<open>consumeFastBodyWithCallbacks\<close> and \<^verbatim>\<open>consumeFastChunkedWithCallbacks\<close>, which take a body in
  pieces. \<^verbatim>\<open>consumeFastBody\<close> and \<^verbatim>\<open>consumeFastChunked\<close> are the latter with a nil setting.
\<close>

section \<open>Definitions\<close>

function chunkedBodyLoop :: "Setting option \<Rightarrow> nat \<Rightarrow> cursor \<Rightarrow> Parser \<Rightarrow> Parser \<times> attempt" where
  "chunkedBodyLoop setting at c p =
     (case parseChunkSizeLine c of
        None \<Rightarrow> (p, Declined)
      | Some (sz, c) \<Rightarrow>
          if sz = 0
          then if remaining c < 2 then (p, Declined)
               else if peek c \<noteq> Some CR then (p, Failed ErrChunkSize)
               else (let c = advance c 1
                     in if peek c \<noteq> Some LF then (p, Failed ErrChunkSize)
                        else if remaining (advance c 1) \<noteq> 0 then (p, Declined)
                        else (complete setting at p, Handled (int at)))
          else (case consumeChunkData c sz of
                  None \<Rightarrow> (p, Declined)
                | Some (chunk, c) \<Rightarrow>
                    chunkedBodyLoop setting at c
                      (if length chunk > 0 then call setting cbBody (EvBody chunk at) p else p)))"
  by pat_completeness auto
termination
  by (relation "measure (\<lambda>(_, _, c, _). remaining c)") (auto dest: chunk_step_remaining)

text \<open>
  The blank line of \<^verbatim>\<open>tryFastChunkedRequest\<close>: the result is applied and everything up to the
  end of the headers is reported before the first chunk is looked at.
\<close>

definition chunkedHeadersDone ::
    "Setting option \<Rightarrow> nat \<Rightarrow> fastRequestResult \<Rightarrow> headerLine list \<Rightarrow> bool \<Rightarrow> Parser \<Rightarrow> Parser" where
  "chunkedHeadersDone setting at res emitted deferred p =
     (let p = applyFastRequestResult res p;
          p = call setting cbMessageBegin (EvMessageBegin 0) p;
          p = (if length (r_target res) > 0 then call setting cbURL (EvURL (r_target res) at) p else p);
          p = (if deferred then fold (emitHeader setting at) emitted p else p)
      in call setting cbHeadersComplete (EvHeadersComplete at) p)"

text \<open>\<^verbatim>\<open>emittedHeaders[:emittedHeaderCount]\<close> and \<^verbatim>\<open>deferHeaderCallbacks\<close>.\<close>

definition deferHeader :: "headerLine \<Rightarrow> headerLine list \<times> bool \<Rightarrow> headerLine list \<times> bool" where
  "deferHeader h d =
     (case d of (emitted, deferred) \<Rightarrow>
        if deferred then if length emitted \<ge> 64 then (emitted, False) else (emitted @ [h], True)
        else (emitted, deferred))"

function chunkedHeaderLoop ::
    "Setting option \<Rightarrow> nat \<Rightarrow> nat \<Rightarrow> cursor \<Rightarrow> messageMeta \<Rightarrow> fastRequestResult \<Rightarrow>
     headerLine list \<times> bool \<Rightarrow> Parser \<Rightarrow> Parser \<times> attempt" where
  "chunkedHeaderLoop setting at hStart c meta res d p =
     (if remaining c < 2 then (p, Declined)
      else if peek c = Some CR
      then
        (let c = advance c 1
         in if peek c \<noteq> Some LF then (p, Declined)
            else if \<not> m_hasTransferEncoding meta then (p, Declined)
            else
              (let res = res\<lparr>r_headersStart := hStart, r_headersEnd := cur_pos c - 1,
                             r_bodyMode := bodyModeChunked, r_hasTransferEncoding := True\<rparr>
               in chunkedBodyLoop setting at (advance c 1)
                    (chunkedHeadersDone setting at res (fst d) (snd d) p)))
      else
        (case scanCRLF c of
           None \<Rightarrow> (p, Declined)
         | Some lineEnd \<Rightarrow>
             (case parseHeaderLineBytes (slice c lineEnd) of
                None \<Rightarrow> (p, Declined)
              | Some h \<Rightarrow>
                  (case applyHeaderMeta meta h of
                     None \<Rightarrow> (p, Failed (headerSemanticError meta h))
                   | Some meta \<Rightarrow>
                       chunkedHeaderLoop setting at hStart (advance c (lineEnd + 2)) meta
                         (noteConnection h res) (deferHeader h d) p))))"
  by pat_completeness auto
termination
  by (relation "measure (\<lambda>(_, _, _, c, _). remaining c)") (auto dest: cur.scan_decreases)

declare chunkedBodyLoop.simps [simp del] chunkedHeaderLoop.simps [simp del]

definition tryFastChunkedRequest :: "Setting option \<Rightarrow> bytes \<Rightarrow> Parser \<Rightarrow> Parser \<times> attempt" where
  "tryFastChunkedRequest setting b p =
     (if defaultType p \<noteq> REQUEST then (p, Declined)
      else if messageStarted p \<or> length (pending p) \<noteq> 0 \<or> fastPhase p \<noteq> fastPhaseIdle then (p, Declined)
      else
        (let c = newCursor b
         in case parseRequestLine c of
              None \<Rightarrow> (p, Declined)
            | Some line \<Rightarrow>
                (case scanCRLF c of
                   None \<Rightarrow> (p, Declined)
                 | Some lineEnd \<Rightarrow>
                     (let deferred = (case setting of None \<Rightarrow> False
                                      | Some s \<Rightarrow> cbHeaderField s \<or> cbHeaderValue s)
                      in chunkedHeaderLoop setting (length b) (cur_pos c + lineEnd + 2)
                           (advance c (lineEnd + 2)) (newMeta REQUEST 0) (newFastResult line)
                           ([], deferred) p))))"

text \<open>
  \<^verbatim>\<open>int32(len(buf))\<close> wraps, the comparison is signed and \<^verbatim>\<open>int(p.contentLength)\<close> may be
  negative.
\<close>

definition toConsume :: "nat \<Rightarrow> int32 \<Rightarrow> int" where
  "toConsume available left =
     (if sint (word_of_nat available :: int32) > sint left then sint left else int available)"

definition consumeFastBodyWithCallbacks :: "Setting option \<Rightarrow> bytes \<Rightarrow> Parser \<Rightarrow> Parser \<times> attempt" where
  "consumeFastBodyWithCallbacks setting b p =
     (if sint (contentLength p) \<le> 0
      then (let p = complete setting 0 (p\<lparr>phase := ''messageDone''\<rparr>)
            in (p\<lparr>fastPhase := fastPhaseIdle\<rparr>, Handled 0))
      else
        (let k = toConsume (length b) (contentLength p);
             p = (if k > 0 then call setting cbBody (EvBody (take (nat k) b) (nat k)) p else p);
             p = p\<lparr>contentLength := contentLength p - word_of_int k\<rparr>;
             p = (if contentLength p = 0
                  then (complete setting (nat k) (p\<lparr>phase := ''messageDone''\<rparr>))
                         \<lparr>fastPhase := fastPhaseIdle\<rparr>
                  else p)
         in (p, Handled k)))"

text \<open>
  The loop of \<^verbatim>\<open>consumeFastChunkedWithCallbacks\<close>. A chunk size of \<^verbatim>\<open>80000000\<close> or more is a
  negative \<^verbatim>\<open>contentLength\<close>, which moves \<^verbatim>\<open>consumed\<close> backwards: below zero the index
  expression panics, otherwise earlier bytes are read again and the loop need not end.
\<close>

definition appendRest :: "bytes \<Rightarrow> nat \<Rightarrow> Parser \<Rightarrow> Parser \<times> attempt" where
  "appendRest b consumed p =
     (case appendScratch (drop consumed b) p of
        Inl e \<Rightarrow> (p, Failed e)
      | Inr p \<Rightarrow> (p, Handled (int (length b))))"

text \<open>
  \<^verbatim>\<open>line := segment\<close>, or the scratch buffer with the segment appended when it is not empty.
\<close>

definition scratchLine :: "bytes \<Rightarrow> Parser \<Rightarrow> error + bytes \<times> Parser" where
  "scratchLine segment p =
     (if length (lineScratch p) = 0 then Inr (segment, p)
      else (case appendScratch segment p of
              Inl e \<Rightarrow> Inl e
            | Inr p \<Rightarrow> Inr (lineScratch p, p)))"

partial_function (option) chunkedLoop ::
    "Setting option \<Rightarrow> bytes \<Rightarrow> nat \<Rightarrow> Parser \<Rightarrow> (Parser \<times> attempt) option" where
  "chunkedLoop setting b consumed p =
     (if consumed < length b
      then
        if fastPhase p = fastPhaseChunkedData
        then
          (let k = toConsume (length b - consumed) (contentLength p);
               p = (if k > 0
                    then call setting cbBody
                           (EvBody (take (nat k) (drop consumed b)) (consumed + nat k)) p
                    else p);
               p = p\<lparr>contentLength := contentLength p - word_of_int k\<rparr>;
               pos = int consumed + k
           in if contentLength p = 0
              then
                (let p = p\<lparr>fastPhase := fastPhaseChunkedSize\<rparr>
                 in if int (length b) - pos < 2 then Some (appendRest b (nat pos) p)
                    else if pos < 0 then Some (p, Panicked)
                    else if b ! nat pos \<noteq> CR \<or> b ! (nat pos + 1) \<noteq> LF
                    then Some (p, Failed ErrChunkSize)
                    else chunkedLoop setting b (nat pos + 2) p)
              else chunkedLoop setting b (nat pos) p)
        else
          (case scanCRLFBytes (drop consumed b) of
             None \<Rightarrow> Some (appendRest b consumed p)
           | Some idx \<Rightarrow>
               (case scratchLine (take idx (drop consumed b)) p of
                  Inl e \<Rightarrow> Some (p, Failed e)
                | Inr (line, p) \<Rightarrow>
                    (case parseChunkSizeLineBytes line of
                       None \<Rightarrow> Some (p, Failed ErrChunkSize)
                     | Some sz \<Rightarrow>
                         (let p = p\<lparr>lineScratch := []\<rparr>;
                              consumed = consumed + idx + 2
                          in if sz = 0
                             then
                               if length b - consumed < 2 then Some (appendRest b consumed p)
                               else if b ! consumed \<noteq> CR \<or> b ! (consumed + 1) \<noteq> LF
                               then Some (p, Failed ErrChunkSize)
                               else
                                 (let consumed = consumed + 2;
                                      p = complete setting consumed (p\<lparr>phase := ''messageDone''\<rparr>)
                                  in Some (p\<lparr>fastPhase := fastPhaseIdle\<rparr>, Handled (int consumed)))
                             else
                               chunkedLoop setting b consumed
                                 (p\<lparr>contentLength := sz, fastPhase := fastPhaseChunkedData\<rparr>)))))
      else Some (p, Handled (int consumed)))"

definition consumeFastChunkedWithCallbacks ::
    "Setting option \<Rightarrow> bytes \<Rightarrow> Parser \<Rightarrow> (Parser \<times> attempt) option" where
  "consumeFastChunkedWithCallbacks setting b p = chunkedLoop setting b 0 p"

section \<open>A chunked request in one buffer\<close>

text \<open>How the loop over the chunks ends, from how the reference decoder ends.\<close>

definition chunkedEnd :: "Setting option \<Rightarrow> nat \<Rightarrow> chunkStop \<Rightarrow> Parser \<Rightarrow> Parser \<times> attempt" where
  "chunkedEnd setting at stop p =
     (case stop of
        ChunksDone [] \<Rightarrow> (complete setting at p, Handled (int at))
      | ChunksBad \<Rightarrow> (p, Failed ErrChunkSize)
      | _ \<Rightarrow> (p, Declined))"

lemma chunkedBodyLoop_eq:
  "chunkedBodyLoop setting at c p =
     chunkedEnd setting at (snd (decodeChunks (cur_rest c)))
       (fold (\<lambda>d p. if length d > 0 then call setting cbBody (EvBody d at) p else p)
          (fst (decodeChunks (cur_rest c))) p)"
proof (induction "remaining c" arbitrary: c p rule: less_induct)
  case less
  show ?case
  proof (cases c rule: chunk_cases)
    case (data sz c' d c'')
    then show ?thesis
      using less [OF data(5)] by (subst chunkedBodyLoop.simps) simp
  qed (subst chunkedBodyLoop.simps;
       auto simp: Let_def cur.rem_rest chunkedEnd_def split: list.splits)+
qed

lemma chunkedHeaderLoop_eq:
  assumes "cursor_wf c" and "headersB (cur_rest c) meta = Parsed (r, meta', hs)"
    and "m_hasTransferEncoding meta'"
  shows "chunkedHeaderLoop setting at hStart c meta res d p =
     (let d = fold deferHeader hs d
      in chunkedBodyLoop setting at (at_rest (cur_buf c) r)
           (chunkedHeadersDone setting at
              ((fold noteConnection hs res)
                 \<lparr>r_headersStart := hStart, r_headersEnd := length (cur_buf c) - length r - 2,
                  r_bodyMode := bodyModeChunked, r_hasTransferEncoding := True\<rparr>)
              (fst d) (snd d) p))"
  using assms
proof (induction "remaining c" arbitrary: c meta res d hs rule: less_induct)
  case less
  show ?case
  proof (cases c meta rule: header_cases)
    case blank
    note br = blank_line_at_rest [OF blank(1)]
    from blank less.prems have r: "r = cur_rest (advance (advance c 1) 1)" "meta' = meta" "hs = []"
      by simp_all
    show ?thesis
      unfolding r using blank br less.prems(3) r
      by (subst chunkedHeaderLoop.simps)
        (simp only: Let_def if_False if_True simp_thms fold.simps id_apply)
  next
    case (header n h meta'')
    with less.prems obtain hs' where "hs = h # hs'"
      "headersB (cur_rest (advance c (n + 2))) meta'' = Parsed (r, meta', hs')" by auto
    with header show ?thesis
      using less.hyps [OF header(7) advance_wf _ less.prems(3)]
      by (subst chunkedHeaderLoop.simps) (simp add: advance_buf)
  qed (use less.prems in \<open>simp_all\<close>)
qed

lemma deferHeader_fold:
  "length xs + length hs \<le> 64 \<Longrightarrow>
     fold deferHeader hs (xs, deferred) = (if deferred then xs @ hs else xs, deferred)"
  by (induction hs arbitrary: xs) (auto simp: deferHeader_def)

text \<open>The calls made for a request up to the end of its headers.\<close>

definition headEvents :: "Setting \<Rightarrow> nat \<Rightarrow> requestLine \<Rightarrow> headerLine list \<Rightarrow> event list" where
  "headEvents s at line hs =
     fires (Some s) cbMessageBegin (EvMessageBegin 0) @
     (if rl_Target line \<noteq> [] then fires (Some s) cbURL (EvURL (rl_Target line) at) else []) @
     concat (map (headerEvents s at) hs) @
     fires (Some s) cbHeadersComplete (EvHeadersComplete at)"

definition bodyEvents :: "Setting \<Rightarrow> nat \<Rightarrow> bytes list \<Rightarrow> event list" where
  "bodyEvents s at ds = concat (map (\<lambda>d. if d \<noteq> [] then fires (Some s) cbBody (EvBody d at) else []) ds)"

lemma requestEvents_split:
  "requestEvents s at msg ds =
     headEvents s at (pm_request msg) (pm_headers msg) @ bodyEvents s at ds @
     fires (Some s) cbMessageComplete (EvMessageComplete at)"
  by (simp add: requestEvents_def headEvents_def bodyEvents_def)

lemma chunkedHeadersDone_trace:
  assumes "deferred = (cbHeaderField s \<or> cbHeaderValue s)" and "r_target res = rl_Target line"
    and "deferred \<Longrightarrow> emitted = hs"
  shows "trace (chunkedHeadersDone (Some s) at res emitted deferred p) = trace p @ headEvents s at line hs"
proof -
  have "trace (applyFastRequestResult res p) = trace p"
    by (simp add: applyFastRequestResult_def Let_def)
  moreover have "concat (map (headerEvents s at) hs) = []" if "\<not> deferred"
    using that assms(1) by (simp add: headerEvents_def)
  ultimately show ?thesis
    using assms(2,3) by (simp add: chunkedHeadersDone_def Let_def headEvents_def emitHeaders_fold)
qed

text \<open>
  C25: what \<^verbatim>\<open>tryFastChunkedRequest\<close> does with a chunked request of at most 64 headers, for
  every way the chunks in the buffer can end. Complete: everything is delivered once and the
  buffer is consumed. Malformed terminator: the chunk-size error. Otherwise (chunks cut off, or
  bytes after the last chunk) it declines, and the calls up to the end of the headers and for
  every chunk that was complete have been made already.
\<close>

theorem tryFastChunkedRequest_delivers:
  assumes "defaultType p = REQUEST" "\<not> messageStarted p" "pending p = []" "fastPhase p = fastPhaseIdle"
    and b: "b = line @ CRLF @ headerBlock ls @ raw" and line: "scanCRLFBytes (line @ [CR]) = None"
    and rl: "parseRequestLineBytes line = Some rl" and hs: "headers_of ls hs" "length hs \<le> 64"
    and meta: "applyMetas (newMeta REQUEST 0) hs = Some meta" "m_hasTransferEncoding meta"
    and dec: "decodeChunks raw = (ds, stop)"
  shows "\<exists>p'. tryFastChunkedRequest (Some s) b p =
       (p', case stop of ChunksDone [] \<Rightarrow> Handled (int (length b)) | ChunksBad \<Rightarrow> Failed ErrChunkSize
            | _ \<Rightarrow> Declined) \<and>
     trace p' = trace p @ headEvents s (length b) rl hs @ bodyEvents s (length b) ds @
       (if stop = ChunksDone [] then fires (Some s) cbMessageComplete (EvMessageComplete (length b)) else [])"
proof -
  let ?r = "headerBlock ls @ raw" and ?at = "length b" and ?deferred = "cbHeaderField s \<or> cbHeaderValue s"
  have hb: "headersB ?r (newMeta REQUEST 0) = Parsed (raw, meta, hs)"
    by (rule headersB_block [OF hs(1) meta(1)])
  have wf: "cursor_wf (at_rest b ?r)" by (simp add: cursor_wf_def at_rest_def)
  have rest: "cur_rest (at_rest b ?r) = ?r"
    using cur_rest_at_rest [of "line @ CRLF" ?r] b by simp
  have rr: "cur_rest (at_rest b raw) = raw"
    using cur_rest_at_rest [of "line @ CRLF @ headerBlock ls" raw] b by simp
  have sc: "scanCRLFBytes b = Some (length line)" using line by (simp add: b scan_simps)
  have adv: "advance (newCursor b) (length line + 2) = at_rest b ?r"
    using advance_at_rest [OF newCursor_wf, of b "length line + 2"]
    by (simp add: newCursor_rest) (simp add: newCursor_def b)
  have start: "parseRequestLine (newCursor b) = Some rl" "scanCRLF (newCursor b) = Some (length line)"
      "cur_pos (newCursor b) = 0"
    using sc rl by (simp_all add: cursor_simps firstLine_def) (simp_all add: b newCursor_def)
  define res where "res = (fold noteConnection hs (newFastResult rl))
     \<lparr>r_headersStart := length line + 2, r_headersEnd := ?at - length raw - 2,
      r_bodyMode := bodyModeChunked, r_hasTransferEncoding := True\<rparr>"
  define p1 where "p1 = chunkedHeadersDone (Some s) ?at res (if ?deferred then hs else []) ?deferred p"
  have "tryFastChunkedRequest (Some s) b p =
      chunkedHeaderLoop (Some s) ?at (length line + 2) (at_rest b ?r) (newMeta REQUEST 0)
        (newFastResult rl) ([], ?deferred) p"
    using assms(1-4) by (simp add: tryFastChunkedRequest_def start adv del: add_2_eq_Suc')
  also have "\<dots> = chunkedBodyLoop (Some s) ?at (at_rest b raw) p1"
    unfolding chunkedHeaderLoop_eq [OF wf, unfolded rest, OF hb meta(2)] at_rest_buf p1_def res_def
    using deferHeader_fold [of "[]" hs] hs(2) by (simp only: Let_def) simp
  also have "\<dots> = chunkedEnd (Some s) ?at stop (p1\<lparr>trace := trace p1 @ bodyEvents s ?at ds\<rparr>)"
    by (simp only: chunkedBodyLoop_eq rr dec fst_conv snd_conv emitBodies_fold bodyEvents_def)
  finally have eq: "tryFastChunkedRequest (Some s) b p =
      chunkedEnd (Some s) ?at stop (p1\<lparr>trace := trace p1 @ bodyEvents s ?at ds\<rparr>)" .
  have "trace p1 = trace p @ headEvents s ?at rl hs"
    unfolding p1_def by (rule chunkedHeadersDone_trace)
      (simp_all add: res_def noteConnection_fold newFastResult_def)
  then show ?thesis
    unfolding eq by (auto simp: chunkedEnd_def complete_def split: chunkStop.split list.split)
qed

text \<open>A chunked request whose last chunk is still to come.\<close>

definition sampleChunked :: bytes where
  "sampleChunked = str ''GET / HTTP/1.1'' @ CRLF @ headerBlock [str ''Transfer-Encoding: chunked''] @
     str ''1'' @ CRLF @ str ''x'' @ CRLF"

theorem tryFastChunkedRequest_delivers_witness:
  "\<exists>p'. tryFastChunkedRequest (Some allCallbacks) sampleChunked (New REQUEST) = (p', Declined) \<and>
     trace p' = headEvents allCallbacks 52
         \<lparr>rl_Method = GET, rl_Target = str ''/'', rl_Major = 1, rl_Minor = 1\<rparr>
         [\<lparr>h_Name = str ''Transfer-Encoding'', h_Value = str ''chunked''\<rparr>] @
       [EvBody (str ''x'') 52]"
proof -
  let ?hs = "[\<lparr>h_Name = str ''Transfer-Encoding'', h_Value = str ''chunked''\<rparr>]"
  have "defaultType (New REQUEST) = REQUEST" "\<not> messageStarted (New REQUEST)" "pending (New REQUEST) = []"
    "fastPhase (New REQUEST) = fastPhaseIdle" "trace (New REQUEST) = []"
    "scanCRLFBytes (str ''GET / HTTP/1.1'' @ [CR]) = None" "length sampleChunked = 52"
    "headers_of [str ''Transfer-Encoding: chunked''] ?hs" "length ?hs \<le> 64"
    "decodeChunks (str ''1'' @ CRLF @ str ''x'' @ CRLF) = ([str ''x''], ChunksShort)"
    "parseRequestLineBytes (str ''GET / HTTP/1.1'') =
       Some \<lparr>rl_Method = GET, rl_Target = str ''/'', rl_Major = 1, rl_Minor = 1\<rparr>"
    "applyMetas (newMeta REQUEST 0) ?hs = Some ((newMeta REQUEST 0)\<lparr>m_hasTransferEncoding := True\<rparr>)"
    "cbBody allCallbacks" by code_simp+
  with tryFastChunkedRequest_delivers [OF this(1-4) sampleChunked_def this(6) this(11) this(8,9) this(12) _ this(10),
      of allCallbacks]
  show ?thesis by (auto simp: bodyEvents_def)
qed

section \<open>A body of known length in pieces\<close>

lemma toConsume_min:
  assumes "n < 2 ^ 31" and "0 \<le> sint left"
  shows "toConsume n left = int (min n (nat (sint left)))"
  using assms by (simp add: toConsume_def sint_word_of_nat32)

lemma sint_diff_small:
  fixes x :: int32
  assumes "int k \<le> sint x"
  shows "sint (x - word_of_nat k) = sint x - int k"
proof -
  have eq: "x - word_of_nat k = word_of_int (sint x - int k)" by simp
  have "sint x < 2 ^ 31" "- (2 ^ 31) \<le> sint x"
    using sint_lt [of x] sint_ge [of x] by simp_all
  with assms have "signed_take_bit 31 (sint x - int k) = sint x - int k"
    by (intro signed_take_bit_int_eq_self) auto
  then show ?thesis unfolding eq signed_of_int by simp
qed

lemma consumeFastBody_step:
  assumes "0 < sint (contentLength p)" and "length b < 2 ^ 31"
  defines "k \<equiv> min (length b) (nat (sint (contentLength p)))"
  shows "\<exists>p'. consumeFastBodyWithCallbacks setting b p = (p', Handled (int k)) \<and>
     sint (contentLength p') = sint (contentLength p) - int k \<and>
     (int k = sint (contentLength p) \<longrightarrow>
        contentLength p' = 0 \<and> fastPhase p' = fastPhaseIdle \<and> messageCompleteCalled p') \<and>
     (int k \<noteq> sint (contentLength p) \<longrightarrow> fastPhase p' = fastPhase p) \<and>
     trace p' = trace p @ (if k > 0 then fires setting cbBody (EvBody (take k b) k) else []) @
       (if int k = sint (contentLength p)
        then fires setting cbMessageComplete (EvMessageComplete k) else [])"
proof -
  have tc: "toConsume (length b) (contentLength p) = int k"
    using toConsume_min [OF assms(2)] assms(1) by (simp add: k_def)
  have "int k \<le> sint (contentLength p)" using assms(1) by (simp add: k_def)
  note sd = sint_diff_small [OF this]
  have z: "contentLength p - word_of_nat k = 0 \<longleftrightarrow> int k = sint (contentLength p)"
    using sd signed_eq_0_iff [of "contentLength p - word_of_nat k"] by auto
  have take: "nat (toConsume (length b) (contentLength p)) = k" by (simp add: tc)
  show ?thesis
  proof (cases "int k = sint (contentLength p)")
    case True
    with z have "contentLength p - word_of_nat k = 0" by simp
    with assms(1) True tc take show ?thesis
      by (simp add: consumeFastBodyWithCallbacks_def Let_def call_eq complete_def)
  next
    case False
    with z have "contentLength p - word_of_nat k \<noteq> 0" by simp
    moreover have "contentLength p \<noteq> 0" using assms(1) by auto
    ultimately show ?thesis using assms(1) False tc take sd
      by (simp add: consumeFastBodyWithCallbacks_def Let_def call_eq)
  qed
qed

text \<open>The body bytes a list of callback calls hands over, and the number of completions.\<close>

fun bodyOf :: "event list \<Rightarrow> bytes" where
  "bodyOf [] = []"
| "bodyOf (EvBody d _ # es) = d @ bodyOf es"
| "bodyOf (_ # es) = bodyOf es"

fun completions :: "event list \<Rightarrow> nat" where
  "completions [] = 0"
| "completions (EvMessageComplete _ # es) = Suc (completions es)"
| "completions (_ # es) = completions es"

lemma bodyOf_append [simp]: "bodyOf (es @ es') = bodyOf es @ bodyOf es'"
  by (induction es rule: bodyOf.induct) simp_all

lemma completions_append [simp]: "completions (es @ es') = completions es + completions es'"
  by (induction es rule: completions.induct) simp_all

text \<open>Successive buffers handed to the parser while it reads a body of known length.\<close>

fun feedBody :: "Setting option \<Rightarrow> bytes list \<Rightarrow> Parser \<Rightarrow> Parser" where
  "feedBody setting [] p = p"
| "feedBody setting (b # bs) p = feedBody setting bs (fst (consumeFastBodyWithCallbacks setting b p))"

text \<open>
  A body of known length may be cut anywhere. However its bytes are divided over buffers,
  the body callback receives exactly the body, completion is signalled once, by the buffer that
  holds the last byte, and the parser ends idle with nothing outstanding.
\<close>

lemma feedBody_split_invariant:
  assumes "cbBody s" and "cbMessageComplete s" and "list_all (\<lambda>b. b \<noteq> []) bs"
    and "int (length (concat bs)) = sint (contentLength p)" and "bs \<noteq> []"
  shows "bodyOf (trace (feedBody (Some s) bs p)) = bodyOf (trace p) @ concat bs \<and>
     completions (trace (feedBody (Some s) bs p)) = completions (trace p) + 1 \<and>
     fastPhase (feedBody (Some s) bs p) = fastPhaseIdle \<and>
     contentLength (feedBody (Some s) bs p) = 0 \<and> messageCompleteCalled (feedBody (Some s) bs p)"
  using assms(3-5)
proof (induction bs arbitrary: p)
  case (Cons b bs)
  have lim: "sint (contentLength p) < 2 ^ 31" using sint_lt [of "contentLength p"] by simp
  have b: "b \<noteq> []" "int (length b) \<le> sint (contentLength p)" using Cons.prems by auto
  have pos: "0 < sint (contentLength p)" using b by (cases b) auto
  have lb: "length b < 2 ^ 31" using b(2) lim by simp
  have k: "min (length b) (nat (sint (contentLength p))) = length b" using b(2) by linarith
  obtain p' where p': "consumeFastBodyWithCallbacks (Some s) b p = (p', Handled (int (length b)))"
    and cl: "sint (contentLength p') = sint (contentLength p) - int (length b)"
    and st: "int (length b) = sint (contentLength p) \<Longrightarrow>
      contentLength p' = 0 \<and> fastPhase p' = fastPhaseIdle \<and> messageCompleteCalled p'"
    and tr: "trace p' = trace p @ [EvBody b (length b)] @
       (if int (length b) = sint (contentLength p) then [EvMessageComplete (length b)] else [])"
    using consumeFastBody_step [OF pos lb, of "Some s"] assms(1,2) b(1) unfolding k by auto
  show ?case
  proof (cases "bs = []")
    case True
    with Cons.prems st tr p' show ?thesis
      by simp
  next
    case False
    then have "0 < length (concat bs)" using Cons.prems(1) by (cases bs) auto
    then have "\<not> int (length b) = sint (contentLength p)" using Cons.prems(2) by auto
    with Cons.IH [of p'] Cons.prems False cl tr p' show ?thesis by simp
  qed
qed simp

section \<open>A chunked body in pieces\<close>

text \<open>
  One turn of the loop, by what is unread at offset \<open>n\<close>: a size line (with what the scratch
  buffer holds of it), the data of a chunk up to its end, data cut off by the end of the buffer,
  the last chunk, and a size line cut off by the end of the buffer.
\<close>

lemma appendInt16_length: "n < 16 ^ Suc k \<Longrightarrow> length (appendInt16 n) \<le> Suc k"
proof (induction k arbitrary: n)
  case (Suc k)
  show ?case
  proof (cases "n < 16")
    case False
    have "n div 16 < 16 ^ Suc k" using Suc.prems by (simp add: less_mult_imp_div_less mult.commute)
    with Suc.IH False show ?thesis by (subst appendInt16.simps) simp
  qed (simp add: appendInt16.simps)
qed (simp add: appendInt16.simps)

lemma scratchLine_eq:
  assumes "length (lineScratch p) + length segment \<le> 4096"
  shows "\<exists>p'. scratchLine segment p = Inr (lineScratch p @ segment, p') \<and>
     p'\<lparr>lineScratch := xs\<rparr> = p\<lparr>lineScratch := xs\<rparr>"
  using assms by (auto simp: scratchLine_def appendScratch_def scratchBufferSize_def)

lemma nth_of_drop: "drop n b = xs @ y # r \<Longrightarrow> b ! (n + length xs) = y"
proof -
  assume a: "drop n b = xs @ y # r"
  then have "n \<le> length b" by (cases "n \<le> length b") auto
  with a show ?thesis using nth_drop [of n b "length xs"] by simp
qed

lemma chunkedLoop_size:
  assumes "drop n b = h @ CRLF @ r" and "lineScratch p @ h = appendInt16 k"
    and "0 < k" "k < 2 ^ 31" and "fastPhase p \<noteq> fastPhaseChunkedData"
  shows "chunkedLoop setting b n p =
     chunkedLoop setting b (n + length h + 2)
       (p\<lparr>lineScratch := [], contentLength := word_of_nat k, fastPhase := fastPhaseChunkedData\<rparr>)"
proof -
  have "n < length b" using assms(1) by (cases "n < length b") auto
  moreover have "LF \<notin> set h" using appendInt16_no_sep [of LF k] assms(2) [symmetric] by auto
  then have "scanCRLFBytes (drop n b) = Some (length h)"
    unfolding assms(1) by (intro scanCRLFBytes_append_eq scanCRLFBytes_no_LF)
  moreover have "take (length h) (drop n b) = h" using assms(1) by simp
  moreover have "length (lineScratch p @ h) \<le> 8"
    unfolding assms(2) using appendInt16_length [of k 7] assms(4) by simp
  then have "length (lineScratch p) + length h \<le> 4096" by simp
  from scratchLine_eq [OF this] obtain p' where
    "scratchLine h p = Inr (appendInt16 k, p')" "p'\<lparr>lineScratch := []\<rparr> = p\<lparr>lineScratch := []\<rparr>"
    using assms(2) by metis
  moreover have "(word_of_nat k :: int32) \<noteq> 0" using word_of_nat32_eq_0 assms(3,4) by simp
  moreover have "parseChunkSizeLineBytes (appendInt16 k) = Some (word_of_nat k)"
    using parseChunkSize_appendInt16 [of "[]" k] by simp
  ultimately show ?thesis
    using assms(5) by (subst chunkedLoop.simps) (simp add: Let_def)
qed

lemma chunkedLoop_data:
  assumes "drop n b = d @ CRLF @ r" and "contentLength p = word_of_nat (length d)" and "d \<noteq> []"
    and "length b < 2 ^ 31" and "fastPhase p = fastPhaseChunkedData"
  shows "chunkedLoop setting b n p =
     chunkedLoop setting b (n + length d + 2)
       (p\<lparr>trace := trace p @ fires setting cbBody (EvBody d (n + length d)),
         contentLength := 0, fastPhase := fastPhaseChunkedSize\<rparr>)"
proof -
  have nb: "n < length b" "length (drop n b) = length d + 2 + length r"
    using assms(1) by (cases "n < length b", auto)
  have "length d < 2 ^ 31" "length b - n < 2 ^ 31" using nb assms(4) by auto
  then have k: "toConsume (length b - n) (contentLength p) = int (length d)"
    using nb toConsume_min [of "length b - n" "contentLength p"] assms(2)
    by (simp add: sint_word_of_nat32)
  have at: "b ! (n + length d) = CR" "b ! Suc (n + length d) = LF"
    using nth_of_drop [of n b d CR "LF # r"] nth_of_drop [of n b "d @ [CR]" LF r] assms(1)
    by simp_all
  have "nat (int n + int (length d)) = n + length d" by simp
  moreover have "\<not> int (length b) - (int n + int (length d)) < 2" using nb by simp
  ultimately show ?thesis using nb k at assms(1,2,3,5)
    by (subst chunkedLoop.simps) (simp add: Let_def call_eq nat_add_distrib)
qed

lemma chunkedLoop_data_cut:
  assumes "drop n b = d" and "contentLength p = word_of_nat k" and "length d < k" "k < 2 ^ 31"
    and "d \<noteq> []" and "length b < 2 ^ 31" and "fastPhase p = fastPhaseChunkedData"
  shows "chunkedLoop setting b n p =
     Some (p\<lparr>trace := trace p @ fires setting cbBody (EvBody d (length b)),
             contentLength := word_of_nat (k - length d)\<rparr>, Handled (int (length b)))"
proof -
  have nb: "n < length b" "length b - n = length d" using assms(1,5) by auto
  then have k: "toConsume (length b - n) (contentLength p) = int (length d)"
    using toConsume_min [of "length b - n" "contentLength p"] assms(2,3,4,6)
    by (simp add: sint_word_of_nat32)
  have cl: "(word_of_nat k - word_of_nat (length d) :: int32) = word_of_nat (k - length d)"
    using assms(3) by (simp add: of_nat_diff)
  have "(word_of_nat (k - length d) :: int32) \<noteq> 0"
    using word_of_nat32_eq_0 [of "k - length d"] assms(3,4) by simp
  moreover from this have "(word_of_nat k :: int32) \<noteq> word_of_nat (length d)" using cl by auto
  moreover have "n + length d = length b" using nb by simp
  moreover have "nat (int n + int (length d)) = length b" using nb by simp
  moreover have "chunkedLoop setting b (length b) q = Some (q, Handled (int (length b)))" for q
    by (subst chunkedLoop.simps) simp
  ultimately show ?thesis
    using nb k cl assms(1,2,5,7)
    by (subst chunkedLoop.simps) (simp add: Let_def call_eq)
qed

lemma chunkedLoop_last:
  assumes "drop n b = str ''0'' @ CRLF @ CRLF @ r" and "lineScratch p = []"
    and "fastPhase p \<noteq> fastPhaseChunkedData"
  shows "chunkedLoop setting b n p =
     Some (p\<lparr>phase := ''messageDone'', fastPhase := fastPhaseIdle, messageCompleteCalled := True,
             trace := trace p @ fires setting cbMessageComplete (EvMessageComplete (n + 5))\<rparr>,
           Handled (int (n + 5)))"
proof -
  have nb: "n < length b" "length (drop n b) = 5 + length r"
    using assms(1) by (cases "n < length b", auto)
  have d: "drop n b = [48, CR, LF, CR, LF] @ r" using assms(1) by simp
  have "scanCRLFBytes (drop n b) = Some 1" "take 1 (drop n b) = [48]" unfolding d by simp_all
  moreover have "b ! (n + 3) = CR" "b ! (n + 4) = LF"
    using nth_of_drop [of n b "[48, CR, LF]" CR "LF # r"] nth_of_drop [of n b "[48, CR, LF, CR]" LF r] d
    by (simp_all add: numeral_eq_Suc)
  moreover have "parseChunkSizeLineBytes [48] = Some 0"
    using parseChunkSize_appendInt16 [of "[]" 0] by (simp add: appendInt16.simps hexChar_def)
  moreover have "scratchLine [48] p = Inr ([48], p)" "p\<lparr>lineScratch := []\<rparr> = p"
    using assms(2) by (simp_all add: scratchLine_def)
  moreover have "\<not> length b - Suc (Suc (Suc n)) < Suc (Suc 0)" using nb by simp
  ultimately show ?thesis
    using nb assms(2,3)
    by (subst chunkedLoop.simps) (simp add: Let_def complete_def call_eq numeral_eq_Suc)
qed

lemma chunkedLoop_size_cut:
  assumes "drop n b = h" and "h \<noteq> []" and "scanCRLFBytes h = None" and "lineScratch p = []"
    and "length h \<le> 4096" and "fastPhase p \<noteq> fastPhaseChunkedData"
  shows "chunkedLoop setting b n p = Some (p\<lparr>lineScratch := h\<rparr>, Handled (int (length b)))"
proof -
  have "n < length b" using assms(1,2) by auto
  with assms show ?thesis
    by (subst chunkedLoop.simps)
      (simp add: appendRest_def appendScratch_def scratchBufferSize_def)
qed

text \<open>The parser between two chunks, with everything it was handed delivered.\<close>

definition betweenChunks :: "Parser \<Rightarrow> bytes \<Rightarrow> Parser \<Rightarrow> bool" where
  "betweenChunks p body p' \<longleftrightarrow>
     fastPhase p' = fastPhaseChunkedSize \<and> lineScratch p' = [] \<and>
     bodyOf (trace p') = bodyOf (trace p) @ body \<and> completions (trace p') = completions (trace p)"

lemma chunkedLoop_chunk:
  assumes "drop n b = h @ CRLF @ d @ CRLF @ r" and "lineScratch q @ h = appendInt16 (length d)"
    and "chunk_ok d" and "length b < 2 ^ 31" and "fastPhase q \<noteq> fastPhaseChunkedData" and "cbBody s"
    and "bodyOf (trace q) = bodyOf (trace p) @ body" "completions (trace q) = completions (trace p)"
  shows "\<exists>p'. chunkedLoop (Some s) b n q = chunkedLoop (Some s) b (n + length h + 2 + length d + 2) p' \<and>
     betweenChunks p (body @ d) p'"
proof -
  let ?q = "q\<lparr>lineScratch := [], contentLength := word_of_nat (length d), fastPhase := fastPhaseChunkedData\<rparr>"
  have ok: "0 < length d" "length d < 2 ^ 31" using assms(3) by (simp_all add: chunk_ok_def)
  have "drop (n + length h + 2) b = drop 2 (drop (length h) (drop n b))"
    by (simp add: add.commute add.left_commute)
  then have dr: "drop (n + length h + 2) b = d @ CRLF @ r"
    using assms(1) by simp
  have "chunkedLoop (Some s) b n q = chunkedLoop (Some s) b (n + length h + 2) ?q"
    using chunkedLoop_size [OF assms(1,2) ok assms(5)] .
  also have "\<dots> = chunkedLoop (Some s) b (n + length h + 2 + length d + 2)
       (?q\<lparr>trace := trace ?q @ fires (Some s) cbBody (EvBody d (n + length h + 2 + length d)),
         contentLength := 0, fastPhase := fastPhaseChunkedSize\<rparr>)"
    by (rule chunkedLoop_data [OF dr]) (use ok assms(4) in auto)
  finally show ?thesis
    using assms(6-8) by (fastforce simp: betweenChunks_def)
qed

lemma chunkedLoop_chunks:
  assumes "list_all chunk_ok ds" and "drop n b = concat (map encodeChunk ds) @ r"
    and "betweenChunks p body q" and "length b < 2 ^ 31" and "cbBody s"
  shows "\<exists>p'. chunkedLoop (Some s) b n q =
       chunkedLoop (Some s) b (n + length (concat (map encodeChunk ds))) p' \<and>
     betweenChunks p (body @ concat ds) p'"
  using assms(1-3)
proof (induction ds arbitrary: n q body)
  case Nil
  then show ?case by (auto simp: betweenChunks_def)
next
  case (Cons d ds)
  let ?h = "appendInt16 (length d)"
  have dr: "drop n b = ?h @ CRLF @ d @ CRLF @ concat (map encodeChunk ds) @ r"
    using Cons.prems(2) by (simp add: encodeChunk_def [of d])
  from Cons.prems(3) have q: "lineScratch q @ ?h = ?h" "fastPhase q \<noteq> fastPhaseChunkedData"
    "bodyOf (trace q) = bodyOf (trace p) @ body" "completions (trace q) = completions (trace p)"
    by (simp_all add: betweenChunks_def)
  from Cons.prems(1) have "chunk_ok d" by simp
  from chunkedLoop_chunk [OF dr q(1) this assms(4) q(2) assms(5) q(3,4)] obtain p1 where
    p1: "chunkedLoop (Some s) b n q = chunkedLoop (Some s) b (n + length (encodeChunk d)) p1"
      "betweenChunks p (body @ d) p1"
    by (auto simp: encodeChunk_def add.assoc)
  have "drop (n + length (encodeChunk d)) b = drop (length (encodeChunk d)) (drop n b)"
    by (simp add: add.commute)
  also have "\<dots> = concat (map encodeChunk ds) @ r" using Cons.prems(2) by simp
  finally have dr1: "drop (n + length (encodeChunk d)) b = concat (map encodeChunk ds) @ r" .
  have "list_all chunk_ok ds" using Cons.prems(1) by simp
  from Cons.IH [OF this dr1 p1(2)] p1(1) show ?case by (auto simp: add.assoc)
qed

text \<open>The parser after the last chunk.\<close>

definition bodyDone :: "Parser \<Rightarrow> bytes \<Rightarrow> Parser \<Rightarrow> bool" where
  "bodyDone p body p' \<longleftrightarrow>
     fastPhase p' = fastPhaseIdle \<and> lineScratch p' = [] \<and> messageCompleteCalled p' \<and>
     bodyOf (trace p') = bodyOf (trace p) @ body \<and> completions (trace p') = completions (trace p) + 1"

lemma chunkedLoop_all:
  assumes "list_all chunk_ok ds" and "drop n b = encodeChunks ds @ r"
    and "betweenChunks p body q" and "length b < 2 ^ 31" and "cbBody s" "cbMessageComplete s"
  shows "\<exists>p'. chunkedLoop (Some s) b n q = Some (p', Handled (int (n + length (encodeChunks ds)))) \<and>
     bodyDone p (body @ concat ds) p'"
proof -
  let ?cs = "concat (map encodeChunk ds)"
  have dr: "drop n b = ?cs @ (str ''0'' @ CRLF @ CRLF @ r)" using assms(2) by (simp add: encodeChunks_def)
  from chunkedLoop_chunks [OF assms(1) dr assms(3-5)] obtain p1 where
    p1: "chunkedLoop (Some s) b n q = chunkedLoop (Some s) b (n + length ?cs) p1"
      "betweenChunks p (body @ concat ds) p1" by auto
  have "drop (n + length ?cs) b = drop (length ?cs) (drop n b)" by (simp add: add.commute)
  also have "\<dots> = str ''0'' @ CRLF @ CRLF @ r" using dr by simp
  finally have l: "drop (n + length ?cs) b = str ''0'' @ CRLF @ CRLF @ r" .
  show ?thesis
    unfolding p1(1)
    by (subst chunkedLoop_last [OF l]) (use p1(2) assms(6) in \<open>auto simp: betweenChunks_def bodyDone_def encodeChunks_def\<close>)
qed

text \<open>
  The cuts of a chunked body the streaming consumer survives: none, one inside the data of a
  chunk, or one inside the digits of a chunk size.
\<close>

definition chunkCut :: "bytes list \<Rightarrow> bytes \<Rightarrow> bytes \<Rightarrow> bool" where
  "chunkCut ds u v \<longleftrightarrow>
     u @ v = encodeChunks ds \<and>
     (\<exists>ds1 d ds2. ds = ds1 @ d # ds2 \<and>
        ((\<exists>d1 d2. d = d1 @ d2 \<and> d1 \<noteq> [] \<and> d2 \<noteq> [] \<and>
            u = concat (map encodeChunk ds1) @ appendInt16 (length d) @ CRLF @ d1) \<or>
         (\<exists>h1 h2. appendInt16 (length d) = h1 @ h2 \<and> h1 \<noteq> [] \<and>
            u = concat (map encodeChunk ds1) @ h1)))"

lemma encodeChunks_split:
  "encodeChunks (ds1 @ d # ds2) =
     concat (map encodeChunk ds1) @ appendInt16 (length d) @ CRLF @ d @ CRLF @ encodeChunks ds2"
  by (simp add: encodeChunks_def encodeChunk_def [of d])

lemma chunked_data_cut:
  assumes "list_all chunk_ok (ds1 @ d # ds2)" and "d = d1 @ d2" "d1 \<noteq> []" "d2 \<noteq> []"
    and "u = concat (map encodeChunk ds1) @ appendInt16 (length d) @ CRLF @ d1"
    and "v = d2 @ CRLF @ encodeChunks ds2" and "betweenChunks p [] p"
    and "length u < 2 ^ 31" "length v < 2 ^ 31" and cb: "cbBody s" "cbMessageComplete s"
  shows "\<exists>p1 p2. chunkedLoop (Some s) u 0 p = Some (p1, Handled (int (length u))) \<and>
     chunkedLoop (Some s) v 0 p1 = Some (p2, Handled (int (length v))) \<and>
     bodyDone p (concat (ds1 @ d # ds2)) p2"
proof -
  let ?cs = "concat (map encodeChunk ds1)" and ?h = "appendInt16 (length d)"
  have ok: "list_all chunk_ok ds1" "0 < length d" "length d < 2 ^ 31" "list_all chunk_ok ds2"
    using assms(1) by (simp_all add: chunk_ok_def)
  have u0: "drop 0 u = ?cs @ (?h @ CRLF @ d1)" using assms(5) by simp
  from chunkedLoop_chunks [OF ok(1) u0 assms(7,8) cb(1)] obtain q where
    q: "chunkedLoop (Some s) u 0 p = chunkedLoop (Some s) u (length ?cs) q"
      "betweenChunks p (concat ds1) q" by auto
  let ?q = "q\<lparr>lineScratch := [], contentLength := word_of_nat (length d), fastPhase := fastPhaseChunkedData\<rparr>"
  have "chunkedLoop (Some s) u (length ?cs) q = chunkedLoop (Some s) u (length ?cs + length ?h + 2) ?q"
    by (rule chunkedLoop_size [OF _ _ ok(2,3)]) (use q(2) assms(5) in \<open>auto simp: betweenChunks_def\<close>)
  moreover have "chunkedLoop (Some s) u (length ?cs + length ?h + 2) ?q =
      Some (?q\<lparr>trace := trace ?q @ fires (Some s) cbBody (EvBody d1 (length u)),
             contentLength := word_of_nat (length d - length d1)\<rparr>, Handled (int (length u)))"
    by (rule chunkedLoop_data_cut) (use assms ok in auto)
  ultimately obtain p1 where p1: "chunkedLoop (Some s) u 0 p = Some (p1, Handled (int (length u)))"
    "contentLength p1 = word_of_nat (length d2)" "fastPhase p1 = fastPhaseChunkedData"
    "lineScratch p1 = []" "bodyOf (trace p1) = bodyOf (trace p) @ concat ds1 @ d1"
    "completions (trace p1) = completions (trace p)"
    using q cb assms(2) by (simp add: betweenChunks_def)
  have v0: "drop 0 v = d2 @ CRLF @ encodeChunks ds2" using assms(6) by simp
  let ?p2 = "p1\<lparr>trace := trace p1 @ fires (Some s) cbBody (EvBody d2 (0 + length d2)),
      contentLength := 0, fastPhase := fastPhaseChunkedSize\<rparr>"
  have "chunkedLoop (Some s) v 0 p1 = chunkedLoop (Some s) v (0 + length d2 + 2) ?p2"
    by (rule chunkedLoop_data [OF v0 p1(2) assms(4,9) p1(3)])
  moreover have "betweenChunks p (concat ds1 @ d) ?p2"
    using p1 cb(1) assms(2) by (simp add: betweenChunks_def)
  note chunkedLoop_all [OF ok(4) _ this assms(9) cb, of "0 + length d2 + 2" "[]"]
  ultimately show ?thesis using p1(1) assms(6) by auto
qed

lemma chunked_size_cut:
  assumes "list_all chunk_ok (ds1 @ d # ds2)" and "appendInt16 (length d) = h1 @ h2" "h1 \<noteq> []"
    and "u = concat (map encodeChunk ds1) @ h1"
    and "v = h2 @ CRLF @ d @ CRLF @ encodeChunks ds2" and "betweenChunks p [] p"
    and "length u < 2 ^ 31" "length v < 2 ^ 31" and cb: "cbBody s" "cbMessageComplete s"
  shows "\<exists>p1 p2. chunkedLoop (Some s) u 0 p = Some (p1, Handled (int (length u))) \<and>
     chunkedLoop (Some s) v 0 p1 = Some (p2, Handled (int (length v))) \<and>
     bodyDone p (concat (ds1 @ d # ds2)) p2"
proof -
  let ?cs = "concat (map encodeChunk ds1)"
  have ok: "list_all chunk_ok ds1" "chunk_ok d" "list_all chunk_ok ds2" "length d < 2 ^ 31"
    using assms(1) by (simp_all add: chunk_ok_def)
  have u0: "drop 0 u = ?cs @ h1" using assms(4) by simp
  from chunkedLoop_chunks [OF ok(1) u0 assms(6,7) cb(1)] obtain q where
    q: "chunkedLoop (Some s) u 0 p = chunkedLoop (Some s) u (length ?cs) q"
      "betweenChunks p (concat ds1) q" by auto
  have "LF \<notin> set h1" using appendInt16_no_sep [of LF "length d"] assms(2) by auto
  then have "scanCRLFBytes h1 = None" by (induction h1 rule: scanCRLFBytes.induct) auto
  moreover have "length (h1 @ h2) \<le> 8"
    unfolding assms(2) [symmetric] using appendInt16_length [of "length d" 7] ok(4) by simp
  ultimately have p1: "chunkedLoop (Some s) u 0 p = Some (q\<lparr>lineScratch := h1\<rparr>, Handled (int (length u)))"
    unfolding q(1) using q(2) assms(3,4)
    by (intro chunkedLoop_size_cut) (auto simp: betweenChunks_def)
  have v0: "drop 0 v = h2 @ CRLF @ d @ CRLF @ encodeChunks ds2" using assms(5) by simp
  have "\<exists>p'. chunkedLoop (Some s) v 0 (q\<lparr>lineScratch := h1\<rparr>) =
      chunkedLoop (Some s) v (0 + length h2 + 2 + length d + 2) p' \<and> betweenChunks p (concat ds1 @ d) p'"
    by (rule chunkedLoop_chunk [OF v0 _ ok(2) assms(8) _ cb(1)])
      (use q(2) assms(2) in \<open>auto simp: betweenChunks_def\<close>)
  then obtain p2 where p2: "chunkedLoop (Some s) v 0 (q\<lparr>lineScratch := h1\<rparr>) =
      chunkedLoop (Some s) v (0 + length h2 + 2 + length d + 2) p2" "betweenChunks p (concat ds1 @ d) p2"
    by blast
  have "drop (0 + length h2 + 2 + length d + 2) v = encodeChunks ds2 @ []"
    using assms(5) by (simp add: eval_nat_numeral)
  from chunkedLoop_all [OF ok(3) this p2(2) assms(8) cb] p1 p2(1) assms(5) show ?thesis by auto
qed

text \<open>
  C16: the streaming consumer inverts a chunk encoder. On an encoded body, whatever follows it in
  the buffer, the loop ends, exactly the encoded body is consumed, the body callback receives the
  body in order and completion is signalled once.
\<close>

theorem consumeFastChunked_decodes:
  assumes "list_all chunk_ok ds" and "fastPhase p = fastPhaseChunkedSize" and "lineScratch p = []"
    and "length (encodeChunks ds @ r) < 2 ^ 31" and "cbBody s" and "cbMessageComplete s"
  shows "\<exists>p'. consumeFastChunkedWithCallbacks (Some s) (encodeChunks ds @ r) p =
            Some (p', Handled (int (length (encodeChunks ds)))) \<and> bodyDone p (concat ds) p'"
proof -
  have "betweenChunks p [] p" using assms(2,3) by (simp add: betweenChunks_def)
  from chunkedLoop_all [OF assms(1) _ this assms(4-6), of 0 r] show ?thesis
    by (simp add: consumeFastChunkedWithCallbacks_def)
qed

theorem consumeFastChunked_decodes_witness:
  "\<exists>p'. consumeFastChunkedWithCallbacks (Some allCallbacks) (encodeChunks [str ''hi''] @ str ''GET'')
       ((New REQUEST)\<lparr>fastPhase := fastPhaseChunkedSize\<rparr>) = Some (p', Handled 12) \<and>
     bodyOf (trace p') = str ''hi''"
proof -
  let ?p = "(New REQUEST)\<lparr>fastPhase := fastPhaseChunkedSize\<rparr>"
  have "list_all chunk_ok [str ''hi'']" "fastPhase ?p = fastPhaseChunkedSize" "lineScratch ?p = []"
    "cbBody allCallbacks" "cbMessageComplete allCallbacks" "trace ?p = []"
    by (simp add: chunk_ok_def, code_simp+)
  moreover have len: "length (encodeChunks [str ''hi'']) = 12" by code_simp
  ultimately show ?thesis
    using consumeFastChunked_decodes [of "[str ''hi'']" ?p "str ''GET''" allCallbacks]
    by (auto simp: bodyDone_def)
qed

text \<open>
  C15: the same when the encoded body arrives in two buffers, cut anywhere inside a chunk's data
  or inside the digits of a chunk size: both buffers are consumed, the body is handed over
  complete and in order, and completion is signalled once, by the second buffer.
\<close>

theorem consumeFastChunked_streams:
  assumes "list_all chunk_ok ds" and "fastPhase p = fastPhaseChunkedSize" and "lineScratch p = []"
    and "length (encodeChunks ds) < 2 ^ 31" and "cbBody s" and "cbMessageComplete s"
    and "chunkCut ds u v"
  shows "\<exists>p1 p2. consumeFastChunkedWithCallbacks (Some s) u p = Some (p1, Handled (int (length u))) \<and>
         consumeFastChunkedWithCallbacks (Some s) v p1 = Some (p2, Handled (int (length v))) \<and>
         bodyDone p (concat ds) p2"
proof -
  have p: "betweenChunks p [] p" using assms(2,3) by (simp add: betweenChunks_def)
  from assms(7) obtain ds1 d ds2 where uv: "u @ v = encodeChunks ds" and ds: "ds = ds1 @ d # ds2" and
    cut: "(\<exists>d1 d2. d = d1 @ d2 \<and> d1 \<noteq> [] \<and> d2 \<noteq> [] \<and>
            u = concat (map encodeChunk ds1) @ appendInt16 (length d) @ CRLF @ d1) \<or>
         (\<exists>h1 h2. appendInt16 (length d) = h1 @ h2 \<and> h1 \<noteq> [] \<and>
            u = concat (map encodeChunk ds1) @ h1)"
    by (auto simp: chunkCut_def)
  have len: "length u < 2 ^ 31" "length v < 2 ^ 31"
    using assms(4) uv [symmetric] by simp_all
  from cut show "\<exists>p1 p2. consumeFastChunkedWithCallbacks (Some s) u p = Some (p1, Handled (int (length u))) \<and>
         consumeFastChunkedWithCallbacks (Some s) v p1 = Some (p2, Handled (int (length v))) \<and>
         bodyDone p (concat ds) p2"
    unfolding consumeFastChunkedWithCallbacks_def ds
  proof (elim disjE exE conjE)
    fix d1 d2
    assume a: "d = d1 @ d2" "d1 \<noteq> []" "d2 \<noteq> []"
      "u = concat (map encodeChunk ds1) @ appendInt16 (length d) @ CRLF @ d1"
    have "v = d2 @ CRLF @ encodeChunks ds2"
      using uv a(1,4) by (simp add: ds encodeChunks_split)
    from chunked_data_cut [OF assms(1) [unfolded ds] a this p len assms(5,6)]
    show "\<exists>p1 p2. chunkedLoop (Some s) u 0 p = Some (p1, Handled (int (length u))) \<and>
       chunkedLoop (Some s) v 0 p1 = Some (p2, Handled (int (length v))) \<and>
       bodyDone p (concat (ds1 @ d # ds2)) p2" .
  next
    fix h1 h2
    assume a: "appendInt16 (length d) = h1 @ h2" "h1 \<noteq> []" "u = concat (map encodeChunk ds1) @ h1"
    have "v = h2 @ CRLF @ d @ CRLF @ encodeChunks ds2"
      using uv a(1,3) by (simp add: ds encodeChunks_split)
    from chunked_size_cut [OF assms(1) [unfolded ds] a this p len assms(5,6)]
    show "\<exists>p1 p2. chunkedLoop (Some s) u 0 p = Some (p1, Handled (int (length u))) \<and>
       chunkedLoop (Some s) v 0 p1 = Some (p2, Handled (int (length v))) \<and>
       bodyDone p (concat (ds1 @ d # ds2)) p2" .
  qed
qed

theorem consumeFastChunked_streams_witness:
  "\<exists>p1 p2. consumeFastChunkedWithCallbacks (Some allCallbacks) (str ''2'' @ CRLF @ str ''h'')
       ((New REQUEST)\<lparr>fastPhase := fastPhaseChunkedSize\<rparr>) = Some (p1, Handled 4) \<and>
     consumeFastChunkedWithCallbacks (Some allCallbacks) (str ''i'' @ CRLF @ str ''0'' @ CRLF @ CRLF) p1 =
       Some (p2, Handled 8) \<and> bodyOf (trace p2) = str ''hi''"
proof -
  let ?p = "(New REQUEST)\<lparr>fastPhase := fastPhaseChunkedSize\<rparr>"
  let ?u = "str ''2'' @ CRLF @ str ''h''" and ?v = "str ''i'' @ CRLF @ str ''0'' @ CRLF @ CRLF"
  have "list_all chunk_ok [str ''hi'']" "fastPhase ?p = fastPhaseChunkedSize" "lineScratch ?p = []"
    "cbBody allCallbacks" "cbMessageComplete allCallbacks" "trace ?p = []" "length ?u = 4" "length ?v = 8"
    by (simp add: chunk_ok_def, code_simp+)
  moreover have "length (encodeChunks [str ''hi'']) = 12" by code_simp
  then have "length (encodeChunks [str ''hi'']) < 2 ^ 31" by simp
  moreover have "chunkCut [str ''hi''] ?u ?v"
    unfolding chunkCut_def
    by (rule conjI, code_simp, rule exI [of _ "[]"], rule exI [of _ "str ''hi''"], rule exI [of _ "[]"],
        rule conjI, simp, rule disjI1, rule exI [of _ "str ''h''"], rule exI [of _ "str ''i''"]) code_simp
  ultimately show ?thesis
    using consumeFastChunked_streams [of "[str ''hi'']" ?p allCallbacks ?u ?v] by (auto simp: bodyDone_def)
qed

section \<open>Termination\<close>

text \<open>No line of the buffer that reads as a chunk size has a size of 2 to the 31 or more.\<close>

definition sizesOk :: "bytes \<Rightarrow> bool" where
  "sizesOk b \<longleftrightarrow>
     list_all (\<lambda>n. case scanCRLFBytes (drop n b) of
                    None \<Rightarrow> True
                  | Some idx \<Rightarrow> (case parseChunkSizeLineBytes (take idx (drop n b)) of
                                  None \<Rightarrow> True
                                | Some sz \<Rightarrow> 0 \<le> sint sz)) [0 ..< length b]"

lemma sizesOkD:
  "sizesOk b \<Longrightarrow> scanCRLFBytes (drop n b) = Some idx \<Longrightarrow>
     parseChunkSizeLineBytes (take idx (drop n b)) = Some sz \<Longrightarrow> 0 \<le> sint sz"
proof -
  assume a: "sizesOk b" "scanCRLFBytes (drop n b) = Some idx"
    "parseChunkSizeLineBytes (take idx (drop n b)) = Some sz"
  then have "n < length b" by (cases "n < length b") auto
  with a show ?thesis by (auto simp: sizesOk_def list_all_iff split: option.splits)
qed

definition returns :: "'a option \<Rightarrow> bool" where
  "returns r \<longleftrightarrow> (\<exists>y. r = Some y)"

lemma returns_Some [simp]: "returns (Some y)"
  by (simp add: returns_def)

lemma chunkedLoop_returns:
  assumes "length b < 2 ^ 31" and "sizesOk b"
  shows "lineScratch p = [] \<Longrightarrow> (fastPhase p = fastPhaseChunkedData \<Longrightarrow> 0 \<le> sint (contentLength p)) \<Longrightarrow>
     returns (chunkedLoop setting b n p)"
proof (induction "length b - n" arbitrary: n p rule: less_induct)
  case less
  have IH: "returns (chunkedLoop setting b n' q)"
    if "n < n'" "n < length b" "lineScratch q = []"
      "fastPhase q = fastPhaseChunkedData \<Longrightarrow> 0 \<le> sint (contentLength q)" for n' q
    using less.hyps [of n' q] that by simp
  show ?case
  proof (cases "n < length b")
    case False
    then show ?thesis by (subst chunkedLoop.simps) simp
  next
    case n: True
    show ?thesis
    proof (cases "fastPhase p = fastPhaseChunkedData")
      case True
      let ?k = "min (length b - n) (nat (sint (contentLength p)))"
      have cl: "0 \<le> sint (contentLength p)" using less.prems(2) True .
      have k: "toConsume (length b - n) (contentLength p) = int ?k"
        using toConsume_min [of "length b - n" "contentLength p"] assms(1) cl by simp
      have left: "sint (contentLength p - word_of_nat ?k) = sint (contentLength p) - int ?k"
        by (rule sint_diff_small) (use cl in simp)
      have pos: "0 < ?k" if "contentLength p - word_of_nat ?k \<noteq> 0"
      proof (rule ccontr)
        assume "\<not> 0 < ?k"
        then have "?k = 0" by (simp only: not_gr_zero)
        moreover from this n cl have "sint (contentLength p) = 0" by linarith
        ultimately show False using that by simp
      qed
      define k where "k = ?k"
      note k = k [folded k_def] and left = left [folded k_def] and pos = pos [folded k_def]
      have nat: "nat (int n + int k) = n + k" by simp
      have fin: "n + k \<le> length b" using n by (simp add: k_def)
      show ?thesis
      proof (cases "contentLength p - word_of_nat k = 0")
        case zero: True
        then show ?thesis
          using n True k nat less.prems(1)
          by (subst chunkedLoop.simps) (auto simp: Let_def frame_simps intro!: IH)
      next
        case nonzero: False
        have "0 \<le> sint (contentLength p - word_of_nat k)" unfolding left using cl by (simp add: k_def)
        then show ?thesis
          using n True k nat less.prems(1) nonzero pos [OF nonzero]
          by (subst chunkedLoop.simps) (auto simp: Let_def frame_simps intro!: IH)
      qed
    next
      case False
      have sl: "scratchLine seg p = Inr (seg, p)" for seg
        using less.prems(1) by (simp add: scratchLine_def)
      show ?thesis
      proof (cases "scanCRLFBytes (drop n b)")
        case None
        with n False show ?thesis by (subst chunkedLoop.simps) simp
      next
        case (Some idx)
        with n False sl show ?thesis
          by (subst chunkedLoop.simps)
            (auto simp: Let_def split: option.split intro!: IH sizesOkD [OF assms(2) Some])
      qed
    qed
  qed
qed

text \<open>
  C23: the streaming chunk consumer returns on every buffer, well-formed or not, in which no line
  reads as a chunk size of 2 to the 31 or more.
\<close>

theorem consumeFastChunked_returns:
  assumes "length b < 2 ^ 31" and "sizesOk b" and "lineScratch p = []"
    and "fastPhase p = fastPhaseChunkedSize"
  shows "\<exists>y. consumeFastChunkedWithCallbacks setting b p = Some y"
  using chunkedLoop_returns [OF assms(1-3), of setting 0] assms(4)
  by (simp add: consumeFastChunkedWithCallbacks_def returns_def)

theorem consumeFastChunked_returns_witness:
  "\<exists>y. consumeFastChunkedWithCallbacks None (str ''7fffffff'' @ CRLF @ str ''zz'')
     ((New REQUEST)\<lparr>fastPhase := fastPhaseChunkedSize\<rparr>) = Some y"
proof -
  let ?p = "(New REQUEST)\<lparr>fastPhase := fastPhaseChunkedSize\<rparr>" and ?b = "str ''7fffffff'' @ CRLF @ str ''zz''"
  have "length ?b < 2 ^ 31" "sizesOk ?b" "lineScratch ?p = []" "fastPhase ?p = fastPhaseChunkedSize"
    by (simp, code_simp+)
  then show ?thesis by (rule consumeFastChunked_returns)
qed

section \<open>A body the loop never leaves\<close>

text \<open>
  Chunk \<^verbatim>\<open>x\<close>, then a size line whose value wraps to minus twelve: the loop goes back to the
  end of the first chunk and reads the size line again.
\<close>

definition loopingBody :: bytes where
  "loopingBody = str ''1'' @ CRLF @ str ''x'' @ CRLF @ str ''FFFFFFF4'' @ CRLF @ str ''y''"

lemma loopingBody_facts:
  "length loopingBody = 17" "scanCRLFBytes (drop 6 loopingBody) = Some 8"
  "take 8 (drop 6 loopingBody) = str ''FFFFFFF4''" "loopingBody ! 4 = CR" "loopingBody ! 5 = LF"
  by (simp_all add: loopingBody_def)

lemma wrapped_size: "parseChunkSizeLineBytes (str ''FFFFFFF4'') = Some (- 12)"
  by (simp add: parseChunkSizeLineBytes_eq isHex_def hexVal_def hexValue_def)

lemma toConsume_wrapped: "toConsume (Suc 0) (- 12) = - 12"
  by (simp add: toConsume_def)

text \<open>The two states the loop alternates between.\<close>

definition stuckAt :: "bytes \<Rightarrow> nat \<Rightarrow> Parser \<Rightarrow> bool" where
  "stuckAt b n p \<longleftrightarrow> b = loopingBody \<and> lineScratch p = [] \<and>
     (n = 6 \<and> fastPhase p \<noteq> fastPhaseChunkedData \<or>
      n = 16 \<and> fastPhase p = fastPhaseChunkedData \<and> contentLength p = - 12)"

lemma chunkedLoop_stuck: "chunkedLoop setting b n p = Some y \<Longrightarrow> \<not> stuckAt b n p"
proof (induction rule: chunkedLoop.raw_induct
    [where P = "\<lambda>_ b n p _. \<not> stuckAt b n p", rotated, consumes 1, case_names step])
  case (step f setting b n p y)
  show ?case
  proof
    assume st: "stuckAt b n p"
    have "\<exists>n' p'. f setting b n' p' = Some y \<and> stuckAt b n' p'"
    proof (cases "fastPhase p = fastPhaseChunkedData")
      case True
      with st step(2) have "f setting b 6 (p\<lparr>contentLength := 0, fastPhase := fastPhaseChunkedSize\<rparr>) = Some y"
        by (simp add: stuckAt_def loopingBody_facts toConsume_wrapped Let_def)
      with st show ?thesis by (intro exI conjI) (auto simp: stuckAt_def)
    next
      case False
      with st step(2) have "f setting b 16 (p\<lparr>lineScratch := [], contentLength := - 12,
          fastPhase := fastPhaseChunkedData\<rparr>) = Some y"
        by (simp add: stuckAt_def loopingBody_facts wrapped_size [simplified] scratchLine_def Let_def)
      with st show ?thesis by (intro exI conjI) (auto simp: stuckAt_def)
    qed
    with step(1) show False by blast
  qed
qed

text \<open>
  C24: on a body of seventeen bytes whose second chunk size wraps below zero, the streaming
  consumer never returns.
\<close>

theorem consumeFastChunked_hangs:
  assumes "fastPhase p = fastPhaseChunkedSize" and "lineScratch p = []"
  shows "consumeFastChunkedWithCallbacks setting loopingBody p = None"
proof -
  have b: "drop 0 loopingBody = str ''1'' @ CRLF @ str ''x'' @ CRLF @ str ''FFFFFFF4'' @ CRLF @ str ''y''"
    by (simp add: loopingBody_def)
  have one: "appendInt16 1 = str ''1''" by (simp add: appendInt16.simps hexChar_def)
  have d3: "drop 3 loopingBody = str ''x'' @ CRLF @ str ''FFFFFFF4'' @ CRLF @ str ''y''"
    and three: "0 + length (str ''1'') + 2 = 3"
    by (simp_all add: loopingBody_def)
  define p1 where "p1 = p\<lparr>lineScratch := [], contentLength := word_of_nat 1, fastPhase := fastPhaseChunkedData\<rparr>"
  have "chunkedLoop setting loopingBody 0 p = chunkedLoop setting loopingBody (0 + length (str ''1'') + 2) p1"
    unfolding p1_def by (rule chunkedLoop_size [OF b]) (use assms one in simp_all)
  also have "\<dots> = chunkedLoop setting loopingBody (3 + length (str ''x'') + 2)
      (p1\<lparr>trace := trace p1 @ fires setting cbBody (EvBody (str ''x'') (3 + length (str ''x''))),
         contentLength := 0, fastPhase := fastPhaseChunkedSize\<rparr>)"
    unfolding three by (rule chunkedLoop_data [OF d3]) (simp_all add: p1_def loopingBody_facts)
  finally have eq: "chunkedLoop setting loopingBody 0 p = chunkedLoop setting loopingBody 6
      (p1\<lparr>trace := trace p1 @ fires setting cbBody (EvBody (str ''x'') 4),
         contentLength := 0, fastPhase := fastPhaseChunkedSize\<rparr>)" by simp
  have "chunkedLoop setting loopingBody 0 p \<noteq> Some y" for y
    unfolding eq using chunkedLoop_stuck by (fastforce simp: stuckAt_def p1_def)
  then show ?thesis
    unfolding consumeFastChunkedWithCallbacks_def by (meson not_None_eq)
qed

theorem consumeFastChunked_hangs_witness:
  "consumeFastChunkedWithCallbacks None loopingBody
     ((New REQUEST)\<lparr>fastPhase := fastPhaseChunkedSize\<rparr>) = None"
proof -
  let ?p = "(New REQUEST)\<lparr>fastPhase := fastPhaseChunkedSize\<rparr>"
  have "fastPhase ?p = fastPhaseChunkedSize" "lineScratch ?p = []" by code_simp+
  then show ?thesis by (rule consumeFastChunked_hangs)
qed

end
