(* ===== verification/Fast_Response.thy ===== *)
theory Fast_Response
  imports Fast_Chunked
begin

text \<open>
  The response paths of \<^verbatim>\<open>internal/parser/engine.go\<close>: \<^verbatim>\<open>analyzeFastResponse\<close>,
  \<^verbatim>\<open>emitFastResponse\<close>, \<^verbatim>\<open>tryFastResponse\<close> for a response in one buffer, and
  \<^verbatim>\<open>tryFastSplitResponse\<close> with \<^verbatim>\<open>emitSplitResponseLineFragment\<close> for one in pieces.
\<close>

section \<open>Definitions\<close>

record fastResponseResult =
  rs_major :: byte
  rs_minor :: byte
  rs_statusCode :: uint16
  rs_reason :: bytes
  rs_body :: bytes
  rs_bodyMode :: bodyMode
  rs_hasContentLength :: bool
  rs_contentLength :: int32
  rs_hasConnectionClose :: bool
  rs_headersStart :: nat
  rs_headersEnd :: nat

definition newFastResponse :: "responseLine \<Rightarrow> fastResponseResult" where
  "newFastResponse line =
     \<lparr>rs_major = sl_Major line, rs_minor = sl_Minor line, rs_statusCode = sl_StatusCode line,
      rs_reason = sl_Reason line, rs_body = [], rs_bodyMode = bodyModeNone,
      rs_hasContentLength = False, rs_contentLength = 0, rs_hasConnectionClose = False,
      rs_headersStart = 0, rs_headersEnd = 0\<rparr>"

definition noteClose :: "headerLine \<Rightarrow> fastResponseResult \<Rightarrow> fastResponseResult" where
  "noteClose h res =
     (if equalFoldToken (h_Name h) ''connection'' \<and> equalFoldToken (h_Value h) ''close''
      then res\<lparr>rs_hasConnectionClose := True\<rparr> else res)"

text \<open>The branch at the blank line; \<open>c\<close> is behind it.\<close>

definition fastResponseBody ::
    "cursor \<Rightarrow> nat \<Rightarrow> messageMeta \<Rightarrow> fastResponseResult \<Rightarrow> fastResponseResult analysis" where
  "fastResponseBody c hStart meta res =
     (let res = res\<lparr>rs_bodyMode := decideBodyMode meta,
                    rs_hasContentLength := m_hasContentLength meta,
                    rs_contentLength := m_contentLength meta,
                    rs_headersStart := hStart, rs_headersEnd := cur_pos c - 1\<rparr>
      in if rs_bodyMode res = bodyModeEOF \<or> rs_bodyMode res = bodyModeChunked then NotFast
         else if rs_bodyMode res = bodyModeContentLength
         then if int (remaining c) \<noteq> sint (m_contentLength meta) then NotFast
              else
                (let res = res\<lparr>rs_body := slice c (nat (sint (m_contentLength meta)))\<rparr>;
                     c = advance c (nat (sint (m_contentLength meta)))
                 in if remaining c \<noteq> 0 then NotFast else Found res)
         else if remaining c \<noteq> 0 then NotFast
         else Found res)"

function fastResponseLoop ::
    "nat \<Rightarrow> cursor \<Rightarrow> messageMeta \<Rightarrow> fastResponseResult \<Rightarrow> fastResponseResult analysis" where
  "fastResponseLoop hStart c meta res =
     (if remaining c < 2 then NotFast
      else if peek c = Some CR
      then
        (let c = advance c 1
         in if peek c \<noteq> Some LF then NotFast
            else fastResponseBody (advance c 1) hStart meta res)
      else
        (case scanCRLF c of
           None \<Rightarrow> NotFast
         | Some lineEnd \<Rightarrow>
             (case parseHeaderLine c of
                None \<Rightarrow> NotFast
              | Some h \<Rightarrow>
                  (let res = noteClose h res
                   in case applyHeaderMeta meta h of
                        None \<Rightarrow> AnalysisError (headerSemanticError meta h)
                      | Some meta \<Rightarrow> fastResponseLoop hStart (advance c (lineEnd + 2)) meta res))))"
  by pat_completeness auto
termination
  by (relation "measure (\<lambda>(_, c, _). remaining c)") (auto dest: cur.scan_decreases)

declare fastResponseLoop.simps [simp del]

definition analyzeFastResponse :: "bytes \<Rightarrow> fastResponseResult analysis" where
  "analyzeFastResponse b =
     (let c = newCursor b
      in case parseResponseLine c of
           None \<Rightarrow> NotFast
         | Some line \<Rightarrow>
             (case scanCRLF c of
                None \<Rightarrow> NotFast
              | Some lineEnd \<Rightarrow>
                  (let c = advance c (lineEnd + 2)
                   in fastResponseLoop (cur_pos c) c (newMeta RESPONSE (sl_StatusCode line))
                        (newFastResponse line))))"

definition emitFastResponse :: "Setting option \<Rightarrow> bytes \<Rightarrow> fastResponseResult \<Rightarrow> Parser \<Rightarrow> Parser" where
  "emitFastResponse setting b result p =
     (let at = length b;
          p = call setting cbMessageBegin (EvMessageBegin 0) p;
          p = (if length (rs_reason result) > 0
               then call setting cbStatus (EvStatus (rs_reason result) at) p else p);
          p = (case setting of
                 None \<Rightarrow> p
               | Some s \<Rightarrow>
                   if cbHeaderField s \<or> cbHeaderValue s
                   then emitHeaderLines setting at
                          (newCursor (drop (rs_headersStart result) (take (rs_headersEnd result) b))) p
                   else p);
          p = call setting cbHeadersComplete (EvHeadersComplete at) p;
          p = (if length (rs_body result) > 0
               then call setting cbBody (EvBody (rs_body result) at) p else p)
      in complete setting at p)"

definition applyFastResponseResult :: "fastResponseResult \<Rightarrow> Parser \<Rightarrow> Parser" where
  "applyFastResponseResult result p =
     p\<lparr>currentType := RESPONSE, phase := ''messageDone'', pending := [], messageStarted := False,
       urlOffset := 0, statusOffset := length (rs_reason result), headerValueOffset := 0,
       Method := 0, Major := rs_major result, Minor := rs_minor result,
       StatusCode := rs_statusCode result, hasContentLength := rs_hasContentLength result,
       contentLength := rs_contentLength result, hasTransferEncoding := False,
       hasConnectionClose := rs_hasConnectionClose result, hasUpgrade := False,
       hasConnectionUpgrade := False, Upgrade := False, messageCompleteCalled := False\<rparr>"

definition tryFastResponse :: "Setting option \<Rightarrow> bytes \<Rightarrow> Parser \<Rightarrow> Parser \<times> attempt" where
  "tryFastResponse setting b p =
     (if defaultType p \<noteq> RESPONSE \<and> defaultType p \<noteq> BOTH then (p, Declined)
      else if inferMessageKind (defaultType p) b \<noteq> Some RESPONSE then (p, Declined)
      else
        (case analyzeFastResponse b of
           AnalysisError e \<Rightarrow> (p, Failed e)
         | NotFast \<Rightarrow> (p, Declined)
         | Found result \<Rightarrow>
             (emitFastResponse setting b result (applyFastResponseResult result p),
              Handled (int (length b)))))"

subsection \<open>A response in pieces\<close>

definition beginMessage :: "Setting option \<Rightarrow> Parser \<Rightarrow> Parser" where
  "beginMessage setting p =
     (case setting of
        None \<Rightarrow> p
      | Some s \<Rightarrow>
          if cbMessageBegin s \<and> \<not> messageStarted p
          then (call setting cbMessageBegin (EvMessageBegin 0) p)\<lparr>messageStarted := True\<rparr>
          else p)"

text \<open>\<^verbatim>\<open>if p.statusOffset < len(reason) { Status(p, reason[p.statusOffset:], at); \<dots> }\<close>\<close>

definition emitStatusFrom :: "Setting option \<Rightarrow> bytes \<Rightarrow> nat \<Rightarrow> Parser \<Rightarrow> Parser" where
  "emitStatusFrom setting reason at p =
     (case setting of
        None \<Rightarrow> p
      | Some s \<Rightarrow>
          if cbStatus s \<and> statusOffset p < length reason
          then (call setting cbStatus (EvStatus (drop (statusOffset p) reason) at) p)
                 \<lparr>statusOffset := length reason\<rparr>
          else p)"

definition emitSplitResponseLineFragment :: "Setting option \<Rightarrow> Parser \<Rightarrow> Parser" where
  "emitSplitResponseLineFragment setting p =
     (let p = beginMessage setting p;
          line = lineScratch p
      in if length line < 13 \<or> take 5 line \<noteq> str ''HTTP/'' then p
         else emitStatusFrom setting (drop 13 line) (length line) p)"

definition emitResponseHeader :: "Setting option \<Rightarrow> bytes \<Rightarrow> nat \<Rightarrow> Parser \<Rightarrow> Parser" where
  "emitResponseHeader setting line at p =
     (case parseHeaderLineBytes line of None \<Rightarrow> p | Some h \<Rightarrow> emitHeader setting at h p)"

partial_function (option) splitResponseLoop ::
    "Setting option \<Rightarrow> bytes \<Rightarrow> nat \<Rightarrow> Parser \<Rightarrow> (Parser \<times> attempt) option" where
  "splitResponseLoop setting b consumed p =
     (if consumed < length b
      then
        (case scanCRLFBytes (drop consumed b) of
           None \<Rightarrow>
             (case appendScratch (drop consumed b) p of
                Inl e \<Rightarrow> Some (p, Failed e)
              | Inr p \<Rightarrow>
                  Some (if fastPhase p = fastPhaseResponseLine
                        then emitSplitResponseLineFragment setting p else p,
                        Handled (int (length b))))
         | Some idx \<Rightarrow>
             (case scratchLine (take idx (drop consumed b)) p of
                Inl e \<Rightarrow> Some (p, Failed e)
              | Inr (line, p) \<Rightarrow>
                  (let next = consumed + idx + 2
                   in if fastPhase p = fastPhaseResponseLine
                      then
                        (case parseResponseLineBytes line of
                           None \<Rightarrow> Some (p, Failed ErrStatusLineHTTP)
                         | Some parsed \<Rightarrow>
                             (let p = p\<lparr>Method := 0, Major := sl_Major parsed, Minor := sl_Minor parsed,
                                        StatusCode := sl_StatusCode parsed\<rparr>;
                                  p = emitStatusFrom setting (sl_Reason parsed) next (beginMessage setting p);
                                  p = p\<lparr>lineScratch := [], fastPhase := fastPhaseHeaders\<rparr>
                              in splitResponseLoop setting b next p))
                      else if fastPhase p = fastPhaseHeaders
                      then
                        if length line = 0
                        then
                          if \<not> responseStatusHasNoBody (StatusCode p) then Some (p, Declined)
                          else
                            (let p = call setting cbHeadersComplete (EvHeadersComplete next) p;
                                 p = complete setting next (p\<lparr>phase := ''messageDone''\<rparr>)
                             in Some (p\<lparr>fastPhase := fastPhaseIdle, lineScratch := []\<rparr>,
                                      Handled (int (length b))))
                        else
                          (let p = emitResponseHeader setting line next p
                           in splitResponseLoop setting b next (p\<lparr>lineScratch := []\<rparr>))
                      else splitResponseLoop setting b consumed p)))
      else Some (p, Handled (int (length b))))"

definition tryFastSplitResponse :: "Setting option \<Rightarrow> bytes \<Rightarrow> Parser \<Rightarrow> (Parser \<times> attempt) option" where
  "tryFastSplitResponse setting b p =
     (if defaultType p \<noteq> RESPONSE then Some (p, Declined)
      else
        splitResponseLoop setting b 0
          (if fastPhase p = fastPhaseIdle
           then p\<lparr>fastPhase := fastPhaseResponseLine, currentType := RESPONSE,
                  phase := initialPhase RESPONSE\<rparr>
           else p))"

section \<open>The analyzer against the reference parser\<close>

lemma fastResponseLoop_eq:
  assumes "cursor_wf c"
  shows "fastResponseLoop hStart c meta res =
     (case headersB (cur_rest c) meta of
        ParseError e \<Rightarrow> AnalysisError e
      | Parsed (r, meta', hs) \<Rightarrow>
          fastResponseBody (at_rest (cur_buf c) r) hStart meta' (fold noteClose hs res)
      | _ \<Rightarrow> NotFast)"
  using assms
proof (induction "remaining c" arbitrary: c meta res rule: less_induct)
  case less
  show ?case
  proof (cases c meta rule: header_cases)
    case blank
    note br = blank_line_at_rest [OF blank(1)]
    show ?thesis
      using blank br by (subst fastResponseLoop.simps) (simp only: Let_def if_False if_True simp_thms
          parseResult.case prod.case fold.simps id_apply)
  next
    case (header n h meta')
    then show ?thesis
      using less.hyps [OF header(7) advance_wf]
      by (subst fastResponseLoop.simps)
        (auto simp: advance_buf parseHeaderLine_scan split: parseResult.splits)
  qed (subst fastResponseLoop.simps; simp add: Let_def parseHeaderLine_scan)+
qed

text \<open>What the analyzer records of a response whose body is \<open>raw\<close>.\<close>

definition fastResponseOf :: "bytes \<Rightarrow> nat \<Rightarrow> messageMeta \<Rightarrow> bytes \<Rightarrow> fastResponseResult \<Rightarrow> fastResponseResult" where
  "fastResponseOf b hStart meta raw res =
     res\<lparr>rs_bodyMode := decideBodyMode meta, rs_hasContentLength := m_hasContentLength meta,
         rs_contentLength := m_contentLength meta, rs_headersStart := hStart,
         rs_headersEnd := length b - length raw - 1,
         rs_body := (if decideBodyMode meta = bodyModeContentLength then raw else rs_body res)\<rparr>"

definition readToEnd :: "bodyMode \<Rightarrow> bool" where
  "readToEnd mode \<longleftrightarrow> mode = bodyModeEOF \<or> mode = bodyModeChunked"

lemma fastResponseBody_eq:
  assumes "b = xs @ raw"
  shows "fastResponseBody (at_rest b raw) hStart meta res =
     (case bodyB meta raw of
        Parsed body \<Rightarrow>
          if readToEnd (decideBodyMode meta) then NotFast
          else Found (fastResponseOf b hStart meta raw res)
      | _ \<Rightarrow> NotFast)"
proof -
  have r: "cur_rest (at_rest b raw) = raw" using assms by (simp add: cur_rest_at_rest)
  show ?thesis
    by (cases "decideBodyMode meta")
      (auto simp: fastResponseBody_def Let_def cursor_simps r bodyB_def fastResponseOf_def at_rest_pos
        readToEnd_def split: parseResult.splits prod.splits chunkStop.splits list.splits)
qed

lemma noteClose_fold:
  "fold noteClose hs res =
     res\<lparr>rs_hasConnectionClose := rs_hasConnectionClose res \<or> hasHeader ''connection'' ''close'' hs\<rparr>"
proof (induction hs arbitrary: res)
  case Nil
  then show ?case by (simp add: hasHeader_def)
next
  case (Cons h hs)
  then show ?case
    by (cases "equalFoldToken (h_Name h) ''connection'' \<and> equalFoldToken (h_Value h) ''close''")
      (auto simp: noteClose_def hasHeader_def)
qed

lemma analyzeFastResponse_eq:
  "analyzeFastResponse b =
     (case startB b RESPONSE of
        None \<Rightarrow> NotFast
      | Some (r, _, line, meta) \<Rightarrow>
          fastResponseLoop (length b - length r) (at_rest b r) meta (newFastResponse line))"
proof (cases "scanCRLFBytes b")
  case None
  then show ?thesis
    by (simp add: analyzeFastResponse_def startB_def cursor_simps firstLine_def)
next
  case (Some n)
  have "advance (newCursor b) (n + 2) = at_rest b (drop (n + 2) b)"
    using advance_at_rest [OF newCursor_wf, of b "n + 2"]
    by (simp add: newCursor_rest) (simp add: newCursor_def)
  then show ?thesis
    using Some by (simp add: analyzeFastResponse_def startB_def cursor_simps firstLine_def at_rest_pos
        Let_def split: option.split)
qed

lemma analyzeFastResponse_cases:
  "analyzeFastResponse b =
     (case startB b RESPONSE of
        None \<Rightarrow> NotFast
      | Some (r, _, line, meta) \<Rightarrow>
          (case headersB r meta of
             ParseError e \<Rightarrow> AnalysisError e
           | Parsed (raw, meta', hs) \<Rightarrow>
               (case bodyB meta' raw of
                  Parsed body \<Rightarrow>
                    if readToEnd (decideBodyMode meta') then NotFast
                    else Found (fastResponseOf b (length b - length r) meta' raw
                                  (fold noteClose hs (newFastResponse line)))
                | _ \<Rightarrow> NotFast)
           | _ \<Rightarrow> NotFast))"
proof (cases "startB b RESPONSE")
  case None
  then show ?thesis by (simp add: analyzeFastResponse_eq)
next
  case (Some q)
  obtain r req line meta where q: "q = (r, req, line, meta)" by (cases q)
  from Some [unfolded q] obtain xs where b: "b = xs @ r" by (fastforce simp: startB_Some_iff)
  have wf: "cursor_wf (at_rest b r)" by (simp add: cursor_wf_def at_rest_def)
  have rest: "cur_rest (at_rest b r) = r" by (simp add: b cur_rest_at_rest)
  have "fastResponseBody (at_rest b raw) k meta' res =
      (case bodyB meta' raw of
         Parsed body \<Rightarrow>
           if readToEnd (decideBodyMode meta') then NotFast else Found (fastResponseOf b k meta' raw res)
       | _ \<Rightarrow> NotFast)" if "headersB r meta = Parsed (raw, meta', hs)" for raw meta' hs k res
  proof -
    from that obtain ls where "b = (xs @ headerBlock ls) @ raw" by (auto simp: b headersB_Parsed_iff)
    then show ?thesis by (rule fastResponseBody_eq)
  qed
  then show ?thesis
    by (auto simp: analyzeFastResponse_eq Some q fastResponseLoop_eq [OF wf] rest split: parseResult.splits)
qed

section \<open>Delivery of a response in one buffer\<close>

definition responseEvents :: "Setting \<Rightarrow> nat \<Rightarrow> parsedMessage \<Rightarrow> event list" where
  "responseEvents s at msg =
     fires (Some s) cbMessageBegin (EvMessageBegin 0) @
     (if sl_Reason (pm_response msg) \<noteq> []
      then fires (Some s) cbStatus (EvStatus (sl_Reason (pm_response msg)) at) else []) @
     concat (map (headerEvents s at) (pm_headers msg)) @
     fires (Some s) cbHeadersComplete (EvHeadersComplete at) @
     (if pm_body msg \<noteq> [] then fires (Some s) cbBody (EvBody (pm_body msg) at) else []) @
     fires (Some s) cbMessageComplete (EvMessageComplete at)"

text \<open>The header range of a response keeps the carriage return of the blank line.\<close>

lemma emitHeaderLines_CR:
  "cur_rest c = concat (map (\<lambda>l. l @ CRLF) ls) @ [CR] \<Longrightarrow> headers_of ls hs \<Longrightarrow>
     emitHeaderLines setting at c p = fold (emitHeader setting at) hs p"
proof (induction ls arbitrary: c hs p)
  case Nil
  then have "scanCRLF c = None" "remaining c > 0" by (simp_all add: cursor_simps)
  with Nil(2) show ?case by (subst emitHeaderLines.simps) (simp add: headers_of_def)
next
  case (Cons l ls)
  from Cons.prems(2) obtain h hs' where hs: "hs = h # hs'" "parseHeaderLineBytes l = Some h"
    "line_ok l" "headers_of ls hs'"
    by (auto simp: headers_of_def Cons_eq_map_conv)
  have rest: "cur_rest c = l @ CRLF @ (concat (map (\<lambda>l. l @ CRLF) ls) @ [CR])"
    using Cons.prems(1) by simp
  have "scanCRLFBytes (l @ [CR]) = None" using hs(3) by (simp add: line_ok_def)
  note sl = cur.scan_line_append [OF rest this]
  have "remaining c > 0" by (simp add: cur.rem_rest rest)
  with sl hs Cons.IH [OF sl(3) hs(4)] show ?case
    by (subst emitHeaderLines.simps) (simp add: parseHeaderLine_scan)
qed

lemma emitFastResponse_eq:
  assumes b: "b = line @ CRLF @ headerBlock ls @ raw" and hs: "headers_of ls (pm_headers msg)"
    and "rs_reason res = sl_Reason (pm_response msg)" and "rs_headersStart res = length line + 2"
    and "rs_headersEnd res = length b - length raw - 1" and "rs_body res = pm_body msg"
  shows "emitFastResponse (Some s) b res p =
     p\<lparr>trace := trace p @ responseEvents s (length b) msg, messageCompleteCalled := True\<rparr>"
proof -
  have blk: "drop (rs_headersStart res) (take (rs_headersEnd res) b) = concat (map (\<lambda>l. l @ CRLF) ls) @ [CR]"
    unfolding assms(4,5) by (simp add: b headerBlock_def eval_nat_numeral)
  have hd: "(if cbHeaderField s \<or> cbHeaderValue s
       then emitHeaderLines (Some s) (length b)
              (newCursor (drop (rs_headersStart res) (take (rs_headersEnd res) b))) q
       else q) = q\<lparr>trace := trace q @ concat (map (headerEvents s (length b)) (pm_headers msg))\<rparr>" for q
  proof (cases "cbHeaderField s \<or> cbHeaderValue s")
    case True
    then show ?thesis
      using emitHeaderLines_CR [OF _ hs, of "newCursor _"] blk
      by (simp add: newCursor_rest emitHeaders_fold)
  next
    case False
    then have "headerEvents s (length b) h = []" for h by (simp add: headerEvents_def)
    with False show ?thesis by simp
  qed
  show ?thesis
    unfolding emitFastResponse_def Let_def option.case hd
    using assms(3,6) by (simp add: call_eq complete_def responseEvents_def)
qed

section \<open>A response in pieces: progress and invariant\<close>

lemma emit_frame [frame_simps]:
  "defaultType (emitHeader st at h p) = defaultType p" "fastPhase (emitHeader st at h p) = fastPhase p"
  "lineScratch (emitHeader st at h p) = lineScratch p" "fastHeaders (emitHeader st at h p) = fastHeaders p"
  "fastHeaderCount (emitHeader st at h p) = fastHeaderCount p"
  by (simp_all add: emitHeader_def frame_simps)

lemma complete_frame [frame_simps]:
  "defaultType (complete st at p) = defaultType p" "fastPhase (complete st at p) = fastPhase p"
  "lineScratch (complete st at p) = lineScratch p" "fastHeaders (complete st at p) = fastHeaders p"
  "fastHeaderCount (complete st at p) = fastHeaderCount p"
  by (simp_all add: complete_def frame_simps)

lemma split_frame [frame_simps]:
  "defaultType (beginMessage st p) = defaultType p" "fastPhase (beginMessage st p) = fastPhase p"
  "lineScratch (beginMessage st p) = lineScratch p" "fastHeaders (beginMessage st p) = fastHeaders p"
  "fastHeaderCount (beginMessage st p) = fastHeaderCount p"
  "defaultType (emitStatusFrom st r at p) = defaultType p" "fastPhase (emitStatusFrom st r at p) = fastPhase p"
  "lineScratch (emitStatusFrom st r at p) = lineScratch p" "fastHeaders (emitStatusFrom st r at p) = fastHeaders p"
  "fastHeaderCount (emitStatusFrom st r at p) = fastHeaderCount p"
  "defaultType (emitSplitResponseLineFragment st p) = defaultType p"
  "fastPhase (emitSplitResponseLineFragment st p) = fastPhase p"
  "lineScratch (emitSplitResponseLineFragment st p) = lineScratch p"
  "fastHeaders (emitSplitResponseLineFragment st p) = fastHeaders p"
  "fastHeaderCount (emitSplitResponseLineFragment st p) = fastHeaderCount p"
  "defaultType (emitResponseHeader st l at p) = defaultType p"
  "fastPhase (emitResponseHeader st l at p) = fastPhase p"
  "lineScratch (emitResponseHeader st l at p) = lineScratch p"
  "fastHeaders (emitResponseHeader st l at p) = fastHeaders p"
  "fastHeaderCount (emitResponseHeader st l at p) = fastHeaderCount p"
  by (auto simp: beginMessage_def emitStatusFrom_def emitSplitResponseLineFragment_def Let_def
      emitResponseHeader_def frame_simps split: option.split)

text \<open>
  The invariant of the streaming parser: the bounds of its arrays, and the phases each kind of
  parser can be in.
\<close>

fun phaseOk :: "ReqOrRsp \<Rightarrow> fastPhase \<Rightarrow> bool" where
  "phaseOk REQUEST ph \<longleftrightarrow> ph \<noteq> fastPhaseResponseLine"
| "phaseOk RESPONSE ph \<longleftrightarrow> ph = fastPhaseIdle \<or> ph = fastPhaseResponseLine \<or> ph = fastPhaseHeaders"
| "phaseOk BOTH ph \<longleftrightarrow> ph = fastPhaseIdle"

definition parser_inv :: "Parser \<Rightarrow> bool" where
  "parser_inv p \<longleftrightarrow> parser_wf p \<and> phaseOk (defaultType p) (fastPhase p)"

lemma scratchLine_InrD:
  "scratchLine seg p = Inr (line, p') \<Longrightarrow>
     fastPhase p' = fastPhase p \<and> defaultType p' = defaultType p \<and> fastHeaders p' = fastHeaders p \<and>
     fastHeaderCount p' = fastHeaderCount p \<and> messageStarted p' = messageStarted p \<and>
     (length (lineScratch p) \<le> 4096 \<longrightarrow> length (lineScratch p') \<le> 4096) \<and> line = lineScratch p @ seg"
  by (auto simp: scratchLine_def appendScratch_def scratchBufferSize_def split: if_splits)

lemma appendScratch_InrD:
  "appendScratch b p = Inr p' \<Longrightarrow>
     p' = p\<lparr>lineScratch := lineScratch p @ b\<rparr> \<and> length (lineScratch p @ b) \<le> 4096"
  by (auto simp: appendScratch_def scratchBufferSize_def split: if_splits)

lemmas inv_simps = parser_inv_def parser_wf_def scratchBufferSize_def maxFastHeaders_def

lemma parser_inv_scratch:
  "parser_inv p \<Longrightarrow> scratchLine seg p = Inr (line, p') \<Longrightarrow> parser_inv p'"
  by (drule scratchLine_InrD) (auto simp: inv_simps)

lemma parser_inv_append: "parser_inv p \<Longrightarrow> appendScratch b p = Inr p' \<Longrightarrow> parser_inv p'"
  by (drule appendScratch_InrD) (auto simp: inv_simps)

text \<open>What each run of a loop promises: it returns, and the invariant holds again.\<close>

definition returnsInv :: "ReqOrRsp \<Rightarrow> (Parser \<times> attempt) option \<Rightarrow> bool" where
  "returnsInv k r \<longleftrightarrow> (\<exists>p a. r = Some (p, a) \<and> parser_inv p \<and> defaultType p = k)"

lemma returnsInv_Some [simp]: "returnsInv k (Some (p, a)) \<longleftrightarrow> parser_inv p \<and> defaultType p = k"
  by (simp add: returnsInv_def)

lemma splitResponseLoop_returns:
  "parser_inv p \<Longrightarrow> defaultType p = RESPONSE \<Longrightarrow> fastPhase p \<noteq> fastPhaseIdle \<Longrightarrow>
     returnsInv RESPONSE (splitResponseLoop setting b n p)"
proof (induction "length b - n" arbitrary: n p rule: less_induct)
  case less
  show ?case
  proof (cases "n < length b")
    case False
    then show ?thesis using less.prems by (subst splitResponseLoop.simps) simp
  next
    case True
    show ?thesis
    proof (cases "scanCRLFBytes (drop n b)")
      case None
      with True less.prems show ?thesis
        by (subst splitResponseLoop.simps)
          (auto simp: inv_simps frame_simps dest: appendScratch_InrD split: sum.split)
    next
      case (Some idx)
      show ?thesis
      proof (cases "scratchLine (take idx (drop n b)) p")
        case (Inl e)
        with True Some less.prems show ?thesis by (subst splitResponseLoop.simps) simp
      next
        case (Inr q)
        obtain line p' where q: "q = (line, p')" by (cases q)
        note pr = scratchLine_InrD [OF Inr [unfolded q]] parser_inv_scratch [OF less.prems(1) Inr [unfolded q]]
        have IH: "returnsInv RESPONSE (splitResponseLoop setting b (Suc (Suc (n + idx))) q)"
          if "parser_inv q" "defaultType q = RESPONSE" "fastPhase q \<noteq> fastPhaseIdle" for q
          using less.hyps [of "n + idx + 2" q] that True by simp
        have ph: "fastPhase p' = fastPhaseResponseLine \<or> fastPhase p' = fastPhaseHeaders"
          using pr less.prems by (auto simp: parser_inv_def)
        have inv: "length (lineScratch p') \<le> 4096" "- 1 \<le> fastHeaderCount p'" "fastHeaderCount p' \<le> 64"
          "fastHeaderCount p' \<le> int (length (fastHeaders p'))" "defaultType p' = RESPONSE"
          using pr less.prems by (auto simp: inv_simps)
        show ?thesis
          using True Some Inr q ph inv
          by (subst splitResponseLoop.simps)
            (auto simp: Let_def inv_simps frame_simps split: option.split intro!: IH)
      qed
    qed
  qed
qed

section \<open>Properties\<close>

text \<open>
  C26: the response analyzer agrees with the reference parser. A response the reference parser
  accepts is found, with the same status line, framing values and body, exactly when its body is
  delimited by a length (or absent); chunked and read-until-close responses, incomplete ones and
  ones whose length wrapped below zero are declined; header errors are the same errors.
\<close>

theorem analyzeFastResponse_agrees:
  "case parseMessageDetailed b RESPONSE of
     Parsed msg \<Rightarrow>
       if readToEnd (pm_mode msg) then analyzeFastResponse b = NotFast
       else \<exists>res. analyzeFastResponse b = Found res \<and> rs_major res = sl_Major (pm_response msg) \<and>
              rs_minor res = sl_Minor (pm_response msg) \<and>
              rs_statusCode res = sl_StatusCode (pm_response msg) \<and>
              rs_reason res = sl_Reason (pm_response msg) \<and> rs_body res = pm_body msg \<and>
              rs_bodyMode res = pm_mode msg \<and>
              rs_hasContentLength res = m_hasContentLength (pm_meta msg) \<and>
              rs_contentLength res = m_contentLength (pm_meta msg) \<and>
              rs_hasConnectionClose res = hasHeader ''connection'' ''close'' (pm_headers msg)
   | ParseError e \<Rightarrow> analyzeFastResponse b = AnalysisError e
   | _ \<Rightarrow> analyzeFastResponse b = NotFast"
proof (cases "startB b RESPONSE")
  case None
  then show ?thesis by (simp add: parseMessageDetailed_eq_messageB messageB_def analyzeFastResponse_cases)
next
  case (Some q)
  obtain r req line meta where q: "q = (r, req, line, meta)" by (cases q)
  note st = Some [unfolded q]
  show ?thesis
  proof (cases "headersB r meta")
    case (Parsed t)
    obtain raw meta' hs where t: "t = (raw, meta', hs)" by (cases t)
    have raw: "body = (if decideBodyMode meta' = bodyModeContentLength then raw else [])"
      if "bodyB meta' raw = Parsed body" "\<not> readToEnd (decideBodyMode meta')" for body
      using that by (auto simp: bodyB_def readToEnd_def split: bodyMode.splits if_splits)
    show ?thesis
      using raw by (cases "bodyB meta' raw")
        (auto simp: parseMessageDetailed_eq_messageB messageB_def analyzeFastResponse_cases st Parsed t
          bodyB_no_error fastResponseOf_def noteClose_fold newFastResponse_def)
  qed (auto simp: parseMessageDetailed_eq_messageB messageB_def analyzeFastResponse_cases st)
qed

text \<open>
  A response with a length-delimited (or no) body that arrives in one buffer is delivered
  completely and in order, the whole buffer is consumed and the parser's fields are those of the
  response.
\<close>

lemma tryFastResponse_delivers:
  assumes "parseMessageDetailed b RESPONSE = Parsed msg" and "\<not> readToEnd (pm_mode msg)"
    and "defaultType p \<noteq> REQUEST" and "inferMessageKind (defaultType p) b = Some RESPONSE"
  shows "\<exists>p'. tryFastResponse (Some s) b p = (p', Handled (int (length b))) \<and>
     trace p' = trace p @ responseEvents s (length b) msg \<and> messageCompleteCalled p' \<and>
     StatusCode p' = sl_StatusCode (pm_response msg) \<and> Major p' = sl_Major (pm_response msg) \<and>
     Minor p' = sl_Minor (pm_response msg) \<and> currentType p' = RESPONSE \<and> pending p' = [] \<and>
     hasConnectionClose p' = hasHeader ''connection'' ''close'' (pm_headers msg)"
proof -
  from assms(1) obtain line ls raw where
    b: "b = line @ CRLF @ headerBlock ls @ raw" and line: "scanCRLFBytes (line @ [CR]) = None"
      "start_ok line msg" and hs: "headers_of ls (pm_headers msg)"
    and meta: "applyMetas (startMeta msg) (pm_headers msg) = Some (pm_meta msg)"
    and body: "bodyB (pm_meta msg) raw = Parsed (pm_body msg)"
    and k: "pm_kind msg = RESPONSE" "pm_mode msg = decideBodyMode (pm_meta msg)"
    by (auto simp: parseMessageDetailed_eq_messageB messageB_Parsed_iff)
  have st: "startB b RESPONSE = Some (headerBlock ls @ raw, pm_request msg, pm_response msg, startMeta msg)"
    unfolding startB_Some_iff using b line k by (auto simp: start_ok_def startMeta_def)
  note hb = headersB_block [OF hs meta, of raw]
  define res where "res = fastResponseOf b (length line + 2) (pm_meta msg) raw
      (fold noteClose (pm_headers msg) (newFastResponse (pm_response msg)))"
  have len: "length b - length (headerBlock ls @ raw) = length line + 2" by (simp add: b)
  have an: "analyzeFastResponse b = Found res"
    unfolding analyzeFastResponse_cases st option.case prod.case hb parseResult.case body len
    using assms(2) k(2) by (simp add: res_def)
  have bd: "pm_body msg = (if pm_mode msg = bodyModeContentLength then raw else [])"
    using assms(2) body k(2) by (auto simp: bodyB_def readToEnd_def split: bodyMode.splits if_splits)
  have r: "rs_reason res = sl_Reason (pm_response msg)" "rs_headersStart res = length line + 2"
    "rs_headersEnd res = length b - length raw - 1" "rs_body res = pm_body msg"
    using bd k(2) by (simp_all add: res_def fastResponseOf_def noteClose_fold newFastResponse_def)
  have "defaultType p = RESPONSE \<or> defaultType p = BOTH" using assms(3) by (cases "defaultType p") auto
  then show ?thesis
    using assms(4) emitFastResponse_eq [OF b hs r, of s "applyFastResponseResult res p"]
    by (simp add: tryFastResponse_def an)
      (simp add: applyFastResponseResult_def res_def fastResponseOf_def noteClose_fold newFastResponse_def)
qed

definition sampleResponse :: bytes where
  "sampleResponse = str ''HTTP/1.1 200 OK'' @ CRLF @ str ''Content-Length: 2'' @ CRLF @ CRLF @ str ''hi''"

definition sampleReply :: parsedMessage where
  "sampleReply =
     \<lparr>pm_kind = RESPONSE, pm_request = zeroRequestLine,
      pm_response = \<lparr>sl_Major = 1, sl_Minor = 1, sl_StatusCode = 200, sl_Reason = str ''OK''\<rparr>,
      pm_headers = [\<lparr>h_Name = str ''Content-Length'', h_Value = str ''2''\<rparr>],
      pm_body = str ''hi'', pm_mode = bodyModeContentLength,
      pm_meta = \<lparr>m_kind = RESPONSE, m_statusCode = 200, m_hasContentLength = True,
                 m_contentLength = 2, m_hasTransferEncoding = False\<rparr>\<rparr>"

text \<open>
  The split-response path always returns. From every state a response parser can be in and
  for every buffer, the line loop ends, and it leaves the invariant: the scratch buffer holds at
  most 4096 bytes and the phase is one of idle, response line and headers.
\<close>

lemma tryFastSplitResponse_returns:
  assumes "parser_inv p"
  shows "\<exists>p' a. tryFastSplitResponse setting b p = Some (p', a) \<and> parser_inv p' \<and>
     defaultType p' = defaultType p"
proof (cases "defaultType p = RESPONSE")
  case True
  have "returnsInv RESPONSE (tryFastSplitResponse setting b p)"
    unfolding tryFastSplitResponse_def using True assms
    by (auto simp: inv_simps intro!: splitResponseLoop_returns)
  with True show ?thesis by (auto simp: returnsInv_def)
qed (use assms in \<open>simp add: tryFastSplitResponse_def\<close>)

end
