(* ===== verification/Fast_Split.thy ===== *)
theory Fast_Split
  imports Fast_Response
begin

text \<open>
  A request in pieces: \<^verbatim>\<open>tryFastSplitRequestEmpty\<close> and \<^verbatim>\<open>tryFastSplitRequest\<close> of
  \<^verbatim>\<open>internal/parser/engine.go\<close> with their fragment emitters. They read lines (through the
  scratch buffer when a line spans buffers), then hand over to the body consumers of theory
  \<open>Fast_Chunked\<close>.
\<close>

section \<open>Definitions\<close>

text \<open>\<^verbatim>\<open>if err != nil { return 0, true, err }; return next + n, true, nil\<close>\<close>

definition addConsumed :: "nat \<Rightarrow> Parser \<times> attempt \<Rightarrow> Parser \<times> attempt" where
  "addConsumed next r =
     (case r of (p, Handled n) \<Rightarrow> (p, Handled (int next + n)) | (p, a) \<Rightarrow> (p, a))"

text \<open>
  The loop of \<^verbatim>\<open>tryFastSplitRequestEmpty\<close>; its body consumers are called with a nil setting.
\<close>

partial_function (option) splitEmptyLoop :: "bytes \<Rightarrow> nat \<Rightarrow> Parser \<Rightarrow> (Parser \<times> attempt) option" where
  "splitEmptyLoop b consumed p =
     (if consumed < length b
      then
        (case scanCRLFBytes (drop consumed b) of
           None \<Rightarrow> Some (appendRest b consumed p)
         | Some idx \<Rightarrow>
             (case scratchLine (take idx (drop consumed b)) p of
                Inl e \<Rightarrow> Some (p, Failed e)
              | Inr (line, p) \<Rightarrow>
                  (let next = consumed + idx + 2
                   in if fastPhase p = fastPhaseRequestLine
                      then
                        (case consumeFastRequestLine line p of
                           Inl e \<Rightarrow> Some (p, Failed e)
                         | Inr p \<Rightarrow>
                             splitEmptyLoop b next (p\<lparr>lineScratch := [], fastPhase := fastPhaseHeaders\<rparr>))
                      else if fastPhase p = fastPhaseHeaders
                      then
                        if length line = 0
                        then
                          if hasTransferEncoding p
                          then
                            map_option (addConsumed next)
                              (consumeFastChunkedWithCallbacks None (drop next b)
                                 (p\<lparr>fastPhase := fastPhaseChunkedSize, lineScratch := []\<rparr>))
                          else if sint (contentLength p) > 0
                          then
                            Some (addConsumed next
                              (consumeFastBodyWithCallbacks None (drop next b)
                                 (p\<lparr>fastPhase := fastPhaseBody, lineScratch := []\<rparr>)))
                          else
                            (let p = complete None next (p\<lparr>phase := ''messageDone''\<rparr>)
                             in Some (p\<lparr>fastPhase := fastPhaseIdle, lineScratch := []\<rparr>,
                                      Handled (int (length b))))
                        else
                          (case consumeFastHeader line p of
                             Inl e \<Rightarrow> Some (p, Failed e)
                           | Inr p \<Rightarrow> splitEmptyLoop b next (p\<lparr>lineScratch := []\<rparr>))
                      else splitEmptyLoop b consumed p)))
      else Some (p, Handled (int (length b))))"

text \<open>\<^verbatim>\<open>if p.fastPhase == fastPhaseIdle { \<dots> }\<close> at the top of both functions.\<close>

definition startRequest :: "Parser \<Rightarrow> Parser" where
  "startRequest p =
     (if fastPhase p = fastPhaseIdle
      then p\<lparr>fastPhase := fastPhaseRequestLine, currentType := REQUEST, phase := initialPhase REQUEST\<rparr>
      else p)"

definition tryFastSplitRequestEmpty :: "Setting option \<Rightarrow> bytes \<Rightarrow> Parser \<Rightarrow> (Parser \<times> attempt) option" where
  "tryFastSplitRequestEmpty setting b p =
     (if \<not> hasNoCallbacks setting \<or> defaultType p \<noteq> REQUEST then Some (p, Declined)
      else
        (let p = startRequest p
         in if fastPhase p = fastPhaseBody then Some (consumeFastBodyWithCallbacks None b p)
            else if fastPhase p = fastPhaseChunkedSize \<or> fastPhase p = fastPhaseChunkedData
            then consumeFastChunkedWithCallbacks None b p
            else splitEmptyLoop b 0 p))"

subsection \<open>With callbacks\<close>

text \<open>\<^verbatim>\<open>if setting.URL != nil { if p.urlOffset < len(target) { \<dots> } }\<close>\<close>

definition emitURLFrom :: "Setting option \<Rightarrow> bytes \<Rightarrow> nat \<Rightarrow> Parser \<Rightarrow> Parser" where
  "emitURLFrom setting target at p =
     (case setting of
        None \<Rightarrow> p
      | Some s \<Rightarrow>
          if cbURL s \<and> urlOffset p < length target
          then (call setting cbURL (EvURL (drop (urlOffset p) target) at) p)\<lparr>urlOffset := length target\<rparr>
          else p)"

definition emitSplitRequestLineFragment :: "Setting option \<Rightarrow> Parser \<Rightarrow> Parser" where
  "emitSplitRequestLineFragment setting p =
     (let p = beginMessage setting p;
          line = lineScratch p
      in case scanToByte line SP of
           None \<Rightarrow> p
         | Some firstSpace \<Rightarrow>
             if length line \<le> firstSpace + 1 then p
             else emitURLFrom setting (drop (firstSpace + 1) line) (length line) p)"

text \<open>\<open>None\<close> is the result \<^verbatim>\<open>-1\<close>.\<close>

definition emitSplitHeaderValueFragment :: "Setting option \<Rightarrow> nat \<Rightarrow> Parser \<Rightarrow> Parser \<times> nat option" where
  "emitSplitHeaderValueFragment setting consumed p =
     (case setting of
        None \<Rightarrow> (p, None)
      | Some s \<Rightarrow>
          if \<not> cbHeaderValue s then (p, None)
          else
            (let line = lineScratch p
             in case scanToByte line COLON of
                  None \<Rightarrow> (p, None)
                | Some sep \<Rightarrow>
                    (let value = drop (sep + 1) line;
                         trim = skipSpaces value;
                         value = drop trim value;
                         p = (if headerValueOffset p < length value
                              then (call setting cbHeaderValue
                                      (EvHeaderValue (drop (headerValueOffset p) value) (length line)) p)
                                     \<lparr>headerValueOffset := length value\<rparr>
                              else p)
                     in (p, Some (consumed + sep + 1 + trim)))))"

text \<open>The calls for a complete header line, whose value may have been reported in part.\<close>

definition emitSplitHeader :: "Setting option \<Rightarrow> bytes \<Rightarrow> nat \<Rightarrow> Parser \<Rightarrow> Parser" where
  "emitSplitHeader setting line at p =
     (case parseHeaderLineBytes line of
        None \<Rightarrow> p
      | Some h \<Rightarrow>
          (let p = call setting cbHeaderField (EvHeaderField (h_Name h) at) p
           in case setting of
                None \<Rightarrow> p
              | Some s \<Rightarrow>
                  if cbHeaderValue s
                  then
                    (let p = (if headerValueOffset p < length (h_Value h)
                              then call setting cbHeaderValue
                                     (EvHeaderValue (drop (headerValueOffset p) (h_Value h)) at) p
                              else p)
                     in p\<lparr>headerValueOffset := 0\<rparr>)
                  else p))"

text \<open>The branch for a buffer that ends inside a line.\<close>

definition splitRequestRest :: "Setting option \<Rightarrow> bytes \<Rightarrow> nat \<Rightarrow> Parser \<Rightarrow> Parser \<times> attempt" where
  "splitRequestRest setting b consumed p =
     (case appendScratch (drop consumed b) p of
        Inl e \<Rightarrow> (p, Failed e)
      | Inr p \<Rightarrow>
          if fastPhase p = fastPhaseRequestLine
          then if hasNoCallbacks setting then (p, Handled (int (length b)))
               else (emitSplitRequestLineFragment setting p, Handled (int (length b)))
          else if fastPhase p = fastPhaseHeaders
          then if hasNoCallbacks setting then (p, Handled (int (length b)))
               else (case emitSplitHeaderValueFragment setting consumed p of
                       (p, Some n) \<Rightarrow> (p, Handled (int n))
                     | (p, None) \<Rightarrow> (p, Handled (int (length b))))
          else (p, Handled (int (length b))))"

partial_function (option) splitRequestLoop ::
    "Setting option \<Rightarrow> bytes \<Rightarrow> nat \<Rightarrow> Parser \<Rightarrow> (Parser \<times> attempt) option" where
  "splitRequestLoop setting b consumed p =
     (if consumed < length b
      then
        (case scanCRLFBytes (drop consumed b) of
           None \<Rightarrow> Some (splitRequestRest setting b consumed p)
         | Some idx \<Rightarrow>
             (case scratchLine (take idx (drop consumed b)) p of
                Inl e \<Rightarrow> Some (p, Failed e)
              | Inr (line, p) \<Rightarrow>
                  (let next = consumed + idx + 2
                   in if fastPhase p = fastPhaseRequestLine
                      then
                        (case consumeFastRequestLine line p of
                           Inl e \<Rightarrow> Some (p, Failed e)
                         | Inr p \<Rightarrow>
                             (let p = (if \<not> hasNoCallbacks setting
                                       then emitURLFrom setting (parsedTargetFromLine line) next
                                              (beginMessage setting p)
                                       else p)
                              in splitRequestLoop setting b next
                                   (p\<lparr>lineScratch := [], fastPhase := fastPhaseHeaders\<rparr>)))
                      else if fastPhase p = fastPhaseHeaders
                      then
                        if length line = 0
                        then
                          if hasTransferEncoding p
                          then
                            (let p = p\<lparr>fastPhase := fastPhaseChunkedSize, lineScratch := []\<rparr>;
                                 p = call setting cbHeadersComplete (EvHeadersComplete next) p
                             in map_option (addConsumed next)
                                  (consumeFastChunkedWithCallbacks setting (drop next b) p))
                          else if sint (contentLength p) > 0
                          then
                            (let p = p\<lparr>fastPhase := fastPhaseBody, lineScratch := []\<rparr>;
                                 p = call setting cbHeadersComplete (EvHeadersComplete next) p
                             in Some (addConsumed next
                                  (consumeFastBodyWithCallbacks setting (drop next b) p)))
                          else
                            (let p = call setting cbHeadersComplete (EvHeadersComplete next) p;
                                 p = complete setting next (p\<lparr>phase := ''messageDone''\<rparr>)
                             in Some (p\<lparr>fastPhase := fastPhaseIdle, lineScratch := []\<rparr>,
                                      Handled (int (length b))))
                        else
                          (case consumeFastHeader line p of
                             Inl e \<Rightarrow> Some (p, Failed e)
                           | Inr p \<Rightarrow>
                               (let p = (if \<not> hasNoCallbacks setting
                                         then emitSplitHeader setting line next p else p)
                                in splitRequestLoop setting b next (p\<lparr>lineScratch := []\<rparr>)))
                      else splitRequestLoop setting b consumed p)))
      else Some (p, Handled (int (length b))))"

definition tryFastSplitRequest :: "Setting option \<Rightarrow> bytes \<Rightarrow> Parser \<Rightarrow> (Parser \<times> attempt) option" where
  "tryFastSplitRequest setting b p =
     (if defaultType p \<noteq> REQUEST then Some (p, Declined)
      else
        (let p = startRequest p
         in if fastPhase p = fastPhaseBody then Some (consumeFastBodyWithCallbacks setting b p)
            else if fastPhase p = fastPhaseChunkedSize \<or> fastPhase p = fastPhaseChunkedData
            then consumeFastChunkedWithCallbacks setting b p
            else splitRequestLoop setting b 0 p))"

section \<open>The invariant\<close>

definition request_inv :: "Parser \<Rightarrow> bool" where
  "request_inv p \<longleftrightarrow> parser_inv p \<and> defaultType p = REQUEST"

lemma request_inv_iff:
  "request_inv p \<longleftrightarrow> length (lineScratch p) \<le> 4096 \<and> - 1 \<le> fastHeaderCount p \<and> fastHeaderCount p \<le> 64 \<and>
     fastHeaderCount p \<le> int (length (fastHeaders p)) \<and> defaultType p = REQUEST \<and>
     fastPhase p \<noteq> fastPhaseResponseLine"
  by (auto simp: request_inv_def inv_simps)

lemma appendRest_inv: "request_inv p \<Longrightarrow> request_inv (fst (appendRest b n p))"
  by (auto simp: appendRest_def request_inv_iff dest!: appendScratch_InrD split: sum.split)

lemma scratchLine_inv: "request_inv p \<Longrightarrow> scratchLine seg p = Inr (line, p') \<Longrightarrow> request_inv p'"
  by (drule scratchLine_InrD) (auto simp: request_inv_iff)

lemma request_inv_update [simp]:
  "request_inv p \<Longrightarrow> request_inv (p\<lparr>contentLength := x\<rparr>)"
  "request_inv p \<Longrightarrow> ph \<noteq> fastPhaseResponseLine \<Longrightarrow> request_inv (p\<lparr>fastPhase := ph\<rparr>)"
  "request_inv p \<Longrightarrow> request_inv (p\<lparr>lineScratch := []\<rparr>)"
  "request_inv p \<Longrightarrow> request_inv (p\<lparr>phase := st\<rparr>)"
  "request_inv p \<Longrightarrow> request_inv (call setting cb ev p)"
  "request_inv p \<Longrightarrow> request_inv (complete setting at p)"
  by (simp_all add: request_inv_iff frame_simps)

lemma chunkedLoop_inv:
  "chunkedLoop setting b n p = Some y \<Longrightarrow> request_inv p \<longrightarrow> request_inv (fst y)"
proof (induction rule: chunkedLoop.raw_induct
    [where P = "\<lambda>_ _ _ p y. request_inv p \<longrightarrow> request_inv (fst y)", rotated, consumes 1, case_names step])
  case (step f setting b n p y)
  have IH: "request_inv (fst y)" if "f setting b n' q = Some y" "request_inv q" for n' q
    using step(1) that by blast
  show ?case
  proof
    assume p: "request_inv p"
    note eq = step(2) [unfolded Let_def]
    show "request_inv (fst y)"
    proof (cases "n < length b \<and> fastPhase p \<noteq> fastPhaseChunkedData")
      case False
      then show ?thesis
        using eq p by (auto simp del: split_paired_Ex split: if_splits
            intro: appendRest_inv elim!: IH)
    next
      case lines: True
      show ?thesis
      proof (cases "scanCRLFBytes (drop n b)")
        case None
        then show ?thesis using eq p lines by (auto intro: appendRest_inv)
      next
        case (Some idx)
        show ?thesis
        proof (cases "scratchLine (take idx (drop n b)) p")
          case (Inl e)
          then show ?thesis using eq p lines Some by auto
        next
          case (Inr q)
          obtain line p' where q: "q = (line, p')" by (cases q)
          note p' = scratchLine_inv [OF p Inr [unfolded q]]
          then show ?thesis
            using eq lines Some Inr q
            by (auto split: option.splits if_splits intro: appendRest_inv elim!: IH)
        qed
      qed
    qed
  qed
qed

lemma consumeFastRequestLine_InrD:
  "consumeFastRequestLine line p = Inr p' \<Longrightarrow>
     \<exists>rl. parseRequestLineBytes line = Some rl \<and>
       p' = p\<lparr>Method := rl_Method rl, Major := rl_Major rl, Minor := rl_Minor rl,
              messageStarted := False, phase := ''requestLine''\<rparr>"
  by (auto simp: consumeFastRequestLine_def split: option.splits)

lemma consumeFastHeader_InrD:
  "consumeFastHeader line p = Inr p' \<Longrightarrow>
     defaultType p' = defaultType p \<and> fastPhase p' = fastPhase p \<and> lineScratch p' = lineScratch p \<and>
     fastHeaders p' = fastHeaders p \<and> fastHeaderCount p' = fastHeaderCount p \<and>
     messageStarted p' = messageStarted p \<and> urlOffset p' = urlOffset p \<and> pending p' = pending p \<and>
     headerValueOffset p' = headerValueOffset p \<and> trace p' = trace p"
  by (auto simp: consumeFastHeader_def Let_def split: option.splits if_splits)

lemma request_inv_consume:
  "consumeFastRequestLine line p = Inr p' \<Longrightarrow> request_inv p \<Longrightarrow> request_inv p'"
  "consumeFastHeader line p = Inr p' \<Longrightarrow> request_inv p \<Longrightarrow> request_inv p'"
  by (auto dest!: consumeFastRequestLine_InrD consumeFastHeader_InrD simp: request_inv_iff)

lemma request_inv_emit [simp]:
  "request_inv p \<Longrightarrow> request_inv (beginMessage setting p)"
  "request_inv p \<Longrightarrow> request_inv (emitURLFrom setting t at p)"
  "request_inv p \<Longrightarrow> request_inv (emitSplitRequestLineFragment setting p)"
  "request_inv p \<Longrightarrow> request_inv (fst (emitSplitHeaderValueFragment setting n p))"
  "request_inv p \<Longrightarrow> request_inv (emitSplitHeader setting line at p)"
proof -
  have u: "request_inv q \<Longrightarrow> request_inv (q\<lparr>messageStarted := x\<rparr>)"
    "request_inv q \<Longrightarrow> request_inv (q\<lparr>urlOffset := k\<rparr>)"
    "request_inv q \<Longrightarrow> request_inv (q\<lparr>headerValueOffset := k\<rparr>)" for q x k
    by (simp_all add: request_inv_iff)
  show b: "request_inv q \<Longrightarrow> request_inv (beginMessage setting q)" for q
    by (auto simp: beginMessage_def u split: option.split)
  show e: "request_inv q \<Longrightarrow> request_inv (emitURLFrom setting t at q)" for q t at
    by (auto simp: emitURLFrom_def u split: option.split)
  show "request_inv p \<Longrightarrow> request_inv (emitSplitRequestLineFragment setting p)"
    by (auto simp: emitSplitRequestLineFragment_def Let_def b e split: option.split)
  show "request_inv p \<Longrightarrow> request_inv (fst (emitSplitHeaderValueFragment setting n p))"
    by (auto simp: emitSplitHeaderValueFragment_def Let_def u split: option.split)
  show "request_inv p \<Longrightarrow> request_inv (emitSplitHeader setting line at p)"
    by (auto simp: emitSplitHeader_def Let_def u split: option.split)
qed

lemma splitRequestRest_inv: "request_inv p \<Longrightarrow> request_inv (fst (splitRequestRest setting b n p))"
proof -
  assume p: "request_inv p"
  have "request_inv p'" if "appendScratch x p = Inr p'" for x p'
    using that p by (auto simp: request_inv_iff dest!: appendScratch_InrD)
  moreover have "request_inv x" if "request_inv q" "emitSplitHeaderValueFragment setting n q = (x, y)" for q x y
    using request_inv_emit(4) [OF that(1), of setting n] that(2) by simp
  ultimately show ?thesis
    using p by (auto simp: splitRequestRest_def split: sum.split prod.split option.split) blast+
qed

lemma consumeFastBody_inv: "request_inv p \<Longrightarrow> request_inv (fst (consumeFastBodyWithCallbacks setting b p))"
  by (simp add: consumeFastBodyWithCallbacks_def Let_def)

lemma fst_addConsumed [simp]: "fst (addConsumed n r) = fst r"
  by (simp add: addConsumed_def split: prod.split attempt.split)

text \<open>
  The loops over lines make progress, so they return unless the chunk consumer they end in does
  not. One rule covers both.
\<close>

definition chunkHang :: "Setting option \<Rightarrow> bytes \<Rightarrow> bool" where
  "chunkHang setting b \<longleftrightarrow> (\<exists>n q. consumeFastChunkedWithCallbacks setting (drop n b) q = None)"

definition runOk :: "Setting option \<Rightarrow> bytes \<Rightarrow> (Parser \<times> attempt) option \<Rightarrow> bool" where
  "runOk setting b r \<longleftrightarrow> (case r of None \<Rightarrow> chunkHang setting b | Some y \<Rightarrow> request_inv (fst y))"

lemma runOk_Some [simp]: "runOk setting b (Some y) \<longleftrightarrow> request_inv (fst y)"
  by (simp add: runOk_def)

lemma runOk_chunked:
  "request_inv q \<Longrightarrow>
     runOk setting b (map_option (addConsumed m) (consumeFastChunkedWithCallbacks setting (drop n b) q))"
  by (auto simp: runOk_def chunkHang_def consumeFastChunkedWithCallbacks_def dest: chunkedLoop_inv
      split: option.split)

lemma splitEmptyLoop_ok:
  "request_inv p \<Longrightarrow> fastPhase p = fastPhaseRequestLine \<or> fastPhase p = fastPhaseHeaders \<Longrightarrow>
     runOk None b (splitEmptyLoop b n p)"
proof (induction "length b - n" arbitrary: n p rule: less_induct)
  case less
  show ?case
  proof (cases "n < length b")
    case False
    then show ?thesis using less.prems by (subst splitEmptyLoop.simps) simp
  next
    case True
    show ?thesis
    proof (cases "scanCRLFBytes (drop n b)")
      case None
      with True less.prems show ?thesis
        by (subst splitEmptyLoop.simps) (simp add: appendRest_inv)
    next
      case (Some idx)
      have IH: "runOk None b (splitEmptyLoop b (Suc (Suc (n + idx))) q)"
        if "request_inv q" "fastPhase q = fastPhaseRequestLine \<or> fastPhase q = fastPhaseHeaders" for q
        using less.hyps [of "n + idx + 2" q] that True by simp
      show ?thesis
      proof (cases "scratchLine (take idx (drop n b)) p")
        case (Inl e)
        with True Some less.prems show ?thesis by (subst splitEmptyLoop.simps) simp
      next
        case (Inr q)
        obtain line p' where q: "q = (line, p')" by (cases q)
        note p' = scratchLine_inv [OF less.prems(1) Inr [unfolded q]]
        have ph: "fastPhase p' = fastPhaseRequestLine \<or> fastPhase p' = fastPhaseHeaders"
          using scratchLine_InrD [OF Inr [unfolded q]] less.prems by auto
        show ?thesis
          using True Some Inr q ph p'
          by (subst splitEmptyLoop.simps)
            (auto simp: Let_def consumeFastBody_inv runOk_chunked [where m = "Suc (Suc (n + idx))"]
              split: option.split sum.split dest: request_inv_consume consumeFastHeader_InrD
              intro!: IH)
      qed
    qed
  qed
qed

lemma splitRequestLoop_ok:
  "request_inv p \<Longrightarrow> fastPhase p = fastPhaseRequestLine \<or> fastPhase p = fastPhaseHeaders \<Longrightarrow>
     runOk setting b (splitRequestLoop setting b n p)"
proof (induction "length b - n" arbitrary: n p rule: less_induct)
  case less
  show ?case
  proof (cases "n < length b")
    case False
    then show ?thesis using less.prems by (subst splitRequestLoop.simps) simp
  next
    case True
    show ?thesis
    proof (cases "scanCRLFBytes (drop n b)")
      case None
      with True less.prems show ?thesis
        by (subst splitRequestLoop.simps) (simp add: splitRequestRest_inv)
    next
      case (Some idx)
      have IH: "runOk setting b (splitRequestLoop setting b (Suc (Suc (n + idx))) q)"
        if "request_inv q" "fastPhase q = fastPhaseRequestLine \<or> fastPhase q = fastPhaseHeaders" for q
        using less.hyps [of "n + idx + 2" q] that True by simp
      show ?thesis
      proof (cases "scratchLine (take idx (drop n b)) p")
        case (Inl e)
        with True Some less.prems show ?thesis by (subst splitRequestLoop.simps) simp
      next
        case (Inr q)
        obtain line p' where q: "q = (line, p')" by (cases q)
        note p' = scratchLine_inv [OF less.prems(1) Inr [unfolded q]]
        have fr: "fastPhase (emitSplitHeader setting l at r) = fastPhase r" for l at r
          by (auto simp: emitSplitHeader_def Let_def frame_simps split: option.split)
        have ph: "fastPhase p' = fastPhaseRequestLine \<or> fastPhase p' = fastPhaseHeaders"
          using scratchLine_InrD [OF Inr [unfolded q]] less.prems by auto
        show ?thesis
          using True Some Inr q ph p'
          by (subst splitRequestLoop.simps)
            (auto simp: Let_def consumeFastBody_inv runOk_chunked [where m = "Suc (Suc (n + idx))"] fr
              split: option.split sum.split dest: request_inv_consume consumeFastHeader_InrD
              intro!: IH)
      qed
    qed
  qed
qed

lemma startRequest_inv: "request_inv p \<Longrightarrow> request_inv (startRequest p)"
  by (simp add: startRequest_def request_inv_iff)

lemma startRequest_phase:
  "request_inv p \<Longrightarrow> fastPhase (startRequest p) \<noteq> fastPhaseIdle \<and> fastPhase (startRequest p) \<noteq> fastPhaseResponseLine"
  by (simp add: startRequest_def request_inv_iff)

lemma runOk_chunked_top:
  "request_inv p \<Longrightarrow> runOk setting b (consumeFastChunkedWithCallbacks setting b p)"
  using runOk_chunked [of p setting b 0 0] by (auto simp: runOk_def split: option.splits)

lemma tryFastSplitRequest_ok:
  "request_inv p \<Longrightarrow> runOk setting b (tryFastSplitRequest setting b p)"
proof -
  assume p: "request_inv p"
  note s = startRequest_inv [OF p] startRequest_phase [OF p]
  have "defaultType p = REQUEST" using p by (simp add: request_inv_def)
  note s = s this
  show ?thesis
    using p s by (cases "fastPhase (startRequest p)")
      (auto simp: tryFastSplitRequest_def Let_def consumeFastBody_inv runOk_chunked_top
        intro!: splitRequestLoop_ok)
qed

lemma tryFastSplitRequestEmpty_ok:
  "request_inv p \<Longrightarrow>
     tryFastSplitRequestEmpty setting b p = Some (p, Declined) \<or>
     runOk None b (tryFastSplitRequestEmpty setting b p)"
proof -
  assume p: "request_inv p"
  note s = startRequest_inv [OF p] startRequest_phase [OF p]
  have "defaultType p = REQUEST" using p by (simp add: request_inv_def)
  note s = s this
  show ?thesis
    using p s by (cases "fastPhase (startRequest p)")
      (auto simp: tryFastSplitRequestEmpty_def Let_def consumeFastBody_inv runOk_chunked_top
        intro!: splitEmptyLoop_ok)
qed

end
