(* ===== verification/Parser_Execute.thy ===== *)
theory Parser_Execute
  imports Fast_Split
begin

text \<open>
  \<^verbatim>\<open>Execute\<close> and \<^verbatim>\<open>executeClean\<close> of \<^verbatim>\<open>internal/parser\<close>: the order in which the fast paths are
  tried, and the path that collects the bytes of a message in \<^verbatim>\<open>pending\<close> and hands them to the
  reference parser, with its partial emitters.
\<close>

section \<open>Definitions\<close>

text \<open>\<^verbatim>\<open>bytes.LastIndex(b, []byte("\r\n"))\<close>; \<open>None\<close> is \<^verbatim>\<open>-1\<close>.\<close>

fun lastCRLF :: "bytes \<Rightarrow> nat option" where
  "lastCRLF [] = None"
| "lastCRLF [a] = None"
| "lastCRLF (a # b # r) =
     (case lastCRLF (b # r) of
        Some i \<Rightarrow> Some (Suc i)
      | None \<Rightarrow> if a = CR \<and> b = LF then Some 0 else None)"

text \<open>
  The emitters below read a field of \<^verbatim>\<open>setting\<close> without a nil check; \<open>None\<close> is the panic of
  a nil setting.
\<close>

definition firstLineOf :: "bytes \<Rightarrow> bytes" where
  "firstLineOf b = (case scanCRLFBytes b of Some lineEnd \<Rightarrow> take lineEnd b | None \<Rightarrow> b)"

definition emitPartialRequestFragments :: "Setting option \<Rightarrow> Parser \<Rightarrow> Parser option" where
  "emitPartialRequestFragments setting p =
     (let line = firstLineOf (pending p);
          at = length (pending p)
      in case scanToByte line SP of
           None \<Rightarrow> Some p
         | Some firstSpace \<Rightarrow>
             if length line \<le> firstSpace + 1 then Some p
             else
               (case scanToByte (drop (firstSpace + 1) line) SP of
                  Some k \<Rightarrow>
                    (let secondSpace = k + (firstSpace + 1)
                     in case setting of
                          None \<Rightarrow> None
                        | Some s \<Rightarrow>
                            if cbURL s \<and> urlOffset p < secondSpace - (firstSpace + 1)
                            then
                              (let part = drop (firstSpace + 1 + urlOffset p) (take secondSpace line)
                               in if length part > 0
                                  then Some ((call setting cbURL (EvURL part at) p)
                                               \<lparr>urlOffset := secondSpace - (firstSpace + 1)\<rparr>)
                                  else Some p)
                            else Some p)
                | None \<Rightarrow>
                    (case setting of
                       None \<Rightarrow> None
                     | Some s \<Rightarrow>
                         (let part = drop (firstSpace + 1) line
                          in if cbURL s \<and> urlOffset p < length part
                             then
                               (let fragment = drop (urlOffset p) part
                                in if length fragment > 0
                                   then Some ((call setting cbURL (EvURL fragment at) p)
                                                \<lparr>urlOffset := length part\<rparr>)
                                   else Some p)
                             else Some p))))"

definition emitPartialResponseFragments :: "Setting option \<Rightarrow> Parser \<Rightarrow> Parser option" where
  "emitPartialResponseFragments setting p =
     (let line = firstLineOf (pending p)
      in if length line < 13 \<or> take 5 line \<noteq> str ''HTTP/'' then Some p
         else
           (case setting of
              None \<Rightarrow> None
            | Some s \<Rightarrow>
                (let reason = drop 13 line
                 in if cbStatus s \<and> statusOffset p < length reason
                    then
                      (let fragment = drop (statusOffset p) reason
                       in if length fragment > 0
                          then Some ((call setting cbStatus (EvStatus fragment (length (pending p))) p)
                                       \<lparr>statusOffset := length reason\<rparr>)
                          else Some p)
                    else Some p)))"

definition emitPartialHeaderValue :: "Setting option \<Rightarrow> Parser \<Rightarrow> Parser option" where
  "emitPartialHeaderValue setting p =
     (let start = (case lastCRLF (pending p) of Some i \<Rightarrow> i + 2 | None \<Rightarrow> 0);
          line = drop start (pending p)
      in if length line = 0 \<or> scanCRLFBytes line \<noteq> None then Some p
         else
           (case scanToByte line COLON of
              None \<Rightarrow> Some p
            | Some sep \<Rightarrow>
                (let value = drop (sep + 1) line;
                     value = drop (skipSpaces value) value
                 in case setting of
                      None \<Rightarrow> None
                    | Some s \<Rightarrow>
                        if cbHeaderValue s \<and> headerValueOffset p < length value
                        then
                          (let fragment = drop (headerValueOffset p) value
                           in if length fragment > 0
                              then Some ((call setting cbHeaderValue
                                            (EvHeaderValue fragment (length (pending p))) p)
                                           \<lparr>headerValueOffset := length value\<rparr>)
                              else Some p)
                        else Some p)))"

text \<open>\<open>None\<close> is the result \<^verbatim>\<open>-1\<close>.\<close>

definition incompleteConsumedForCurrentState :: "Parser \<Rightarrow> nat option" where
  "incompleteConsumedForCurrentState p =
     (if currentType p = REQUEST
      then
        (case scanCRLFBytes (pending p) of
           None \<Rightarrow> Some (length (pending p))
         | Some lineEnd \<Rightarrow>
             (let pendingHeaders = drop (lineEnd + 2) (pending p);
                  line = (case lastCRLF pendingHeaders of
                            Some i \<Rightarrow> drop (i + 2) pendingHeaders
                          | None \<Rightarrow> pendingHeaders)
              in case scanToByte line COLON of
                   None \<Rightarrow> None
                 | Some sep \<Rightarrow>
                     (let value = drop (sep + 1) line
                      in Some (length (pending p) - length (drop (skipSpaces value) value)))))
      else None)"

definition noteHeader :: "headerLine \<Rightarrow> Parser \<Rightarrow> Parser" where
  "noteHeader h p =
     (let p =
            (if equalFoldToken (h_Name h) ''connection''
             then
               (let p = (if equalFoldToken (h_Value h) ''close''
                         then p\<lparr>hasConnectionClose := True\<rparr> else p)
                in if equalFoldToken (h_Value h) ''upgrade''
                   then p\<lparr>hasConnectionUpgrade := True\<rparr> else p)
             else p)
      in if equalFoldToken (h_Name h) ''upgrade'' then p\<lparr>hasUpgrade := True\<rparr> else p)"

definition applyParsedMessage :: "parsedMessage \<Rightarrow> Parser \<Rightarrow> Parser" where
  "applyParsedMessage msg p =
     (let p = p\<lparr>currentType := pm_kind msg\<rparr>;
          p = (if pm_kind msg = REQUEST
               then p\<lparr>Method := rl_Method (pm_request msg), Major := rl_Major (pm_request msg),
                      Minor := rl_Minor (pm_request msg)\<rparr>
               else p\<lparr>Method := 0, Major := sl_Major (pm_response msg),
                      Minor := sl_Minor (pm_response msg),
                      StatusCode := sl_StatusCode (pm_response msg)\<rparr>);
          p = p\<lparr>hasContentLength := m_hasContentLength (pm_meta msg),
                contentLength := m_contentLength (pm_meta msg),
                hasTransferEncoding := m_hasTransferEncoding (pm_meta msg), Upgrade := False\<rparr>;
          p = fold noteHeader (pm_headers msg) p;
          p = (if hasUpgrade p \<and> hasConnectionUpgrade p
               then p\<lparr>Upgrade := (currentType p = REQUEST \<or> StatusCode p = 101)\<rparr>
               else p\<lparr>Upgrade := (Method p = CONNECT)\<rparr>);
          p = (if pm_mode msg = bodyModeChunked \<and> length (pm_body msg) > 0
               then p\<lparr>contentLength := word_of_nat (length (pm_body msg))\<rparr> else p);
          p = (if pm_mode msg = bodyModeNone then p\<lparr>contentLength := unsetContentLength\<rparr> else p)
      in if Upgrade p \<or> pm_mode msg = bodyModeNone \<or> pm_mode msg = bodyModeContentLength \<or>
            pm_mode msg = bodyModeChunked
         then p\<lparr>messageCompleteCalled := False\<rparr> else p)"

definition emitParsedHeader :: "Setting \<Rightarrow> headerLine \<Rightarrow> Parser \<Rightarrow> Parser" where
  "emitParsedHeader s h p =
     (let at = length (pending p);
          p = call (Some s) cbHeaderField (EvHeaderField (h_Name h) at) p
      in if cbHeaderValue s
         then
           if headerValueOffset p > 0
           then
             (let p = (if headerValueOffset p < length (h_Value h)
                       then call (Some s) cbHeaderValue
                              (EvHeaderValue (drop (headerValueOffset p) (h_Value h)) at) p
                       else p)
              in p\<lparr>headerValueOffset := 0\<rparr>)
           else call (Some s) cbHeaderValue (EvHeaderValue (h_Value h) at) p
         else p)"

definition emitParsedMessage :: "Setting option \<Rightarrow> parsedMessage \<Rightarrow> Parser \<Rightarrow> Parser option" where
  "emitParsedMessage setting msg p =
     (case setting of
        None \<Rightarrow> None
      | Some s \<Rightarrow>
          (let at = length (pending p);
               p = (if pm_kind msg = REQUEST \<and> cbURL s
                    then
                      (let target = rl_Target (pm_request msg)
                       in if urlOffset p < length target
                          then call setting cbURL (EvURL (drop (urlOffset p) target) at) p else p)
                    else if pm_kind msg = RESPONSE \<and> cbStatus s
                    then
                      (let reason = sl_Reason (pm_response msg)
                       in if statusOffset p < length reason
                          then call setting cbStatus (EvStatus (drop (statusOffset p) reason) at) p else p)
                    else p);
               p = fold (emitParsedHeader s) (pm_headers msg) p;
               p = call setting cbHeadersComplete (EvHeadersComplete at) p;
               p = (if length (pm_body msg) > 0
                    then call setting cbBody (EvBody (pm_body msg) at) p else p)
           in Some (complete setting at p)))"

text \<open>
  The part of \<^verbatim>\<open>executeClean\<close> after the fast paths. The result is never \<open>Declined\<close>:
  \<open>Handled n\<close> is \<^verbatim>\<open>(n, nil)\<close> and \<open>Failed e\<close> is \<^verbatim>\<open>(0, e)\<close>.
\<close>

definition startPending :: "Setting option \<Rightarrow> bytes \<Rightarrow> Parser \<Rightarrow> Parser option" where
  "startPending setting b p =
     (let p = p\<lparr>pending := pending p @ b\<rparr>
      in if messageStarted p then Some p
         else
           (let p = (case inferMessageKind (defaultType p) (pending p) of
                       Some kind \<Rightarrow> p\<lparr>currentType := kind\<rparr>
                     | None \<Rightarrow> p);
                p = p\<lparr>messageStarted := True\<rparr>
            in case setting of
                 None \<Rightarrow> None
               | Some s \<Rightarrow> Some (call setting cbMessageBegin (EvMessageBegin 0) p)))"

definition emitPartials :: "Setting option \<Rightarrow> Parser \<Rightarrow> Parser option" where
  "emitPartials setting p = do {
     p \<leftarrow> (if currentType p = REQUEST then emitPartialRequestFragments setting p
          else if currentType p = RESPONSE then emitPartialResponseFragments setting p
          else Some p);
     emitPartialHeaderValue setting p
   }"

definition executePending :: "Setting option \<Rightarrow> bytes \<Rightarrow> Parser \<Rightarrow> Parser \<times> attempt" where
  "executePending setting b p =
     (case startPending setting b p \<bind> emitPartials setting of
        None \<Rightarrow> (p, Panicked)
      | Some p \<Rightarrow>
          (case parseMessageDetailed (pending p) (currentType p) of
             ParsePanic \<Rightarrow> (p, Panicked)
           | ParseError e \<Rightarrow> (p, Failed e)
           | Incomplete \<Rightarrow>
               (case incompleteConsumedForCurrentState p of
                  Some n \<Rightarrow> (p, Handled (int n))
                | None \<Rightarrow> (p, Handled (int (length b))))
           | Parsed result \<Rightarrow>
               (let p = applyParsedMessage result p
                in case emitParsedMessage setting result p of
                     None \<Rightarrow> (p, Panicked)
                   | Some p \<Rightarrow>
                       (p\<lparr>pending := [], messageStarted := False, urlOffset := 0, statusOffset := 0,
                          headerValueOffset := 0\<rparr>,
                        Handled (int (length b))))))"

text \<open>\<^verbatim>\<open>if n, ok, err := try(setting, buf); ok || err != nil { return n, err }\<close>, then the rest.\<close>

definition orElse ::
    "(Parser \<times> attempt) option \<Rightarrow> (Parser \<Rightarrow> (Parser \<times> attempt) option) \<Rightarrow> (Parser \<times> attempt) option" where
  "orElse r rest =
     (case r of
        None \<Rightarrow> None
      | Some (p, Declined) \<Rightarrow> rest p
      | Some (p, a) \<Rightarrow> Some (p, a))"

definition executeClean :: "Setting option \<Rightarrow> bytes \<Rightarrow> Parser \<Rightarrow> (Parser \<times> attempt) option" where
  "executeClean setting b p =
     (if length b = 0 then Some (p, Handled 0)
      else if defaultType p = REQUEST
      then
        orElse (tryFastSplitRequestEmpty setting b p) (\<lambda>p.
        orElse (Some (tryFastRequest setting b p)) (\<lambda>p.
        orElse (Some (tryFastChunkedRequest setting b p)) (\<lambda>p.
        orElse (tryFastSplitRequest setting b p) (\<lambda>p.
        Some (executePending setting b p)))))
      else
        orElse (tryFastSplitResponse setting b p) (\<lambda>p.
        orElse (Some (tryFastResponse setting b p)) (\<lambda>p.
        orElse (tryFastSplitRequest setting b p) (\<lambda>p.
        orElse (Some (tryFastRequest setting b p)) (\<lambda>p.
        orElse (Some (tryFastChunkedRequest setting b p)) (\<lambda>p.
        Some (executePending setting b p)))))))"

definition Execute :: "Setting option \<Rightarrow> bytes \<Rightarrow> Parser \<Rightarrow> (Parser \<times> attempt) option" where
  "Execute setting b p = executeClean setting b p"

section \<open>The invariant of the streaming parser\<close>

text \<open>The fields the invariant speaks of, and the operations that leave all of them alone.\<close>

definition core :: "Parser \<Rightarrow> ReqOrRsp \<times> fastPhase \<times> bytes \<times> headerLine list \<times> int" where
  "core p = (defaultType p, fastPhase p, lineScratch p, fastHeaders p, fastHeaderCount p)"

definition invAs :: "ReqOrRsp \<Rightarrow> Parser \<Rightarrow> bool" where
  "invAs k p \<longleftrightarrow> parser_inv p \<and> defaultType p = k"

lemma invAs_core: "core p = core q \<Longrightarrow> invAs k p \<longleftrightarrow> invAs k q"
  by (simp add: core_def inv_simps invAs_def)

lemma core_update [simp]:
  "core (p\<lparr>pending := a\<rparr>) = core p" "core (p\<lparr>messageStarted := c\<rparr>) = core p"
  "core (p\<lparr>urlOffset := d\<rparr>) = core p" "core (p\<lparr>statusOffset := e\<rparr>) = core p"
  "core (p\<lparr>headerValueOffset := f\<rparr>) = core p" "core (p\<lparr>currentType := k\<rparr>) = core p"
  "core (p\<lparr>messageCompleteCalled := g\<rparr>) = core p" "core (p\<lparr>trace := t\<rparr>) = core p"
  "core (call st cb ev p) = core p" "core (complete st at p) = core p" "core (emitHeader st at h p) = core p"
  by (simp_all add: core_def frame_simps)

lemma core_fold: "(\<And>x p. core (f x p) = core p) \<Longrightarrow> core (fold f xs p) = core p"
  by (induction xs arbitrary: p) simp_all

lemma core_emitHeaderLines [simp]: "core (emitHeaderLines st at c p) = core p"
proof (induction "remaining c" arbitrary: c p rule: less_induct)
  case less
  show ?case
    by (subst emitHeaderLines.simps) (auto dest: cur.scan_decreases simp: less split: option.split)
qed

lemma core_emitChunks [simp]: "core (emitChunks st at c p) = core p"
  unfolding emitChunks_eq by (rule core_fold) simp

lemma core_applyFastRequestResult [simp]: "core (applyFastRequestResult res p) = core p"
  by (simp add: applyFastRequestResult_def Let_def core_def)

lemma core_applyFastResponseResult [simp]: "core (applyFastResponseResult res p) = core p"
  by (simp add: applyFastResponseResult_def core_def)

lemma core_emitFastRequest: "emitFastRequest st b res p = Some p' \<Longrightarrow> core p' = core p"
  by (auto simp: emitFastRequest_def Let_def core_fold split: option.splits)

lemma core_emitFastResponse [simp]: "core (emitFastResponse st b res p) = core p"
  by (simp add: emitFastResponse_def Let_def split: option.split)

text \<open>The captured headers stay within the array.\<close>

fun capture_ok :: "capture \<Rightarrow> bool" where
  "capture_ok None \<longleftrightarrow> True"
| "capture_ok (Some (hs, n)) \<longleftrightarrow> - 1 \<le> n \<and> n \<le> 64 \<and> n \<le> int (length hs)"

lemma captureHeader_ok: "capture_ok cap \<Longrightarrow> capture_ok (captureHeader h cap)"
  by (cases cap rule: capture_ok.cases) (auto simp: captureHeader_def maxFastHeaders_def)

lemma fastRequestLoop_capture_ok:
  "capture_ok cap \<Longrightarrow> capture_ok (snd (fastRequestLoop hStart c meta res cap))"
proof (induction "remaining c" arbitrary: c meta res cap rule: less_induct)
  case less
  have IH: "capture_ok (snd (fastRequestLoop hStart (advance c (n + 2)) meta' res' cap'))"
    if "scanCRLF c = Some n" "capture_ok cap'" for n meta' res' cap'
    using less.hyps cur.scan_decreases [OF that(1)] that(2) by blast
  show ?case
    using less.prems by (subst fastRequestLoop.simps)
      (auto simp: Let_def intro!: IH [simplified] captureHeader_ok split: option.split)
qed

lemma analyze_capture_ok:
  "capture_ok cap \<Longrightarrow> capture_ok (snd (analyzeFastRequestCaptured b cap))"
  by (auto simp: analyzeFastRequestCaptured_def Let_def intro: fastRequestLoop_capture_ok split: option.split)

lemma tryFastRequest_inv:
  assumes "invAs k p"
  shows "invAs k (fst (tryFastRequest st b p))"
proof -
  define cap :: capture where "cap = (case st of None \<Rightarrow> None
      | Some s \<Rightarrow> if cbHeaderField s \<or> cbHeaderValue s then Some (fastHeaders p, 0) else None)"
  obtain out cap' where a: "analyzeFastRequestCaptured b cap = (out, cap')" by fastforce
  have "capture_ok cap" by (simp add: cap_def split: option.split)
  with a have ok: "capture_ok cap'" using analyze_capture_ok [of cap b] by simp
  define q where "q = (case cap' of None \<Rightarrow> p\<lparr>fastHeaderCount := 0\<rparr>
      | Some (hs, n) \<Rightarrow> p\<lparr>fastHeaderCount := 0, fastHeaders := hs, fastHeaderCount := n\<rparr>)"
  have q: "invAs k q" "invAs k (q\<lparr>fastHeaderCount := 0\<rparr>)"
    using ok assms by (auto simp: q_def invAs_def inv_simps split: option.split)
  have cap_eq: "(case st of None \<Rightarrow> None
      | Some s \<Rightarrow> if cbHeaderField s \<or> cbHeaderValue s
                 then Some (fastHeaders (p\<lparr>fastHeaderCount := 0\<rparr>), fastHeaderCount (p\<lparr>fastHeaderCount := 0\<rparr>))
                 else None) = cap"
    by (cases st) (simp_all add: cap_def)
  have d: "invAs k (applyFastRequestResult res q)" for res
    using invAs_core [OF core_applyFastRequestResult] q(1) by blast
  have e: "invAs k p'" if "emitFastRequest st b res (applyFastRequestResult res q) = Some p'" for res p'
    using invAs_core [OF core_emitFastRequest [OF that]] d by blast
  have "tryFastRequest st b p \<in> {(p, Declined), (case out of AnalysisError e \<Rightarrow> (q, Failed e)
        | NotFast \<Rightarrow> (q\<lparr>fastHeaderCount := 0\<rparr>, Declined)
        | Found result \<Rightarrow>
            (case emitFastRequest st b result (applyFastRequestResult result q) of
               None \<Rightarrow> (applyFastRequestResult result q, Panicked)
             | Some p \<Rightarrow> (p, Handled (int (length b)))))}"
    unfolding tryFastRequest_def Let_def cap_eq a prod.case q_def [symmetric] by auto
  then show ?thesis
    using assms q d e by (auto split: analysis.splits option.splits)
qed

lemma core_chunkedEnd: "core (fst (chunkedEnd st at stop p)) = core p"
  by (simp add: chunkedEnd_def split: chunkStop.split list.split)

lemma core_chunkedBodyLoop: "core (fst (chunkedBodyLoop st at c p)) = core p"
  unfolding chunkedBodyLoop_eq core_chunkedEnd by (rule core_fold) simp

lemma core_chunkedHeadersDone: "core (chunkedHeadersDone st at res hs d p) = core p"
  by (simp add: chunkedHeadersDone_def Let_def core_fold)

lemma core_chunkedHeaderLoop: "core (fst (chunkedHeaderLoop st at hStart c meta res d p)) = core p"
proof (induction "remaining c" arbitrary: c meta res d rule: less_induct)
  case less
  have IH: "core (fst (chunkedHeaderLoop st at hStart (advance c (n + 2)) meta' res' d' p)) = core p"
    if "scanCRLF c = Some n" for n meta' res' d'
    using less.hyps cur.scan_decreases [OF that] by blast
  show ?case
    by (subst chunkedHeaderLoop.simps)
      (auto simp: Let_def core_chunkedBodyLoop core_chunkedHeadersDone IH [simplified] split: option.split)
qed

lemma core_tryFastChunkedRequest: "core (fst (tryFastChunkedRequest st b p)) = core p"
  by (auto simp: tryFastChunkedRequest_def Let_def core_chunkedHeaderLoop split: option.split)

lemma core_tryFastResponse: "core (fst (tryFastResponse st b p)) = core p"
  by (simp add: tryFastResponse_def split: analysis.split)

lemma core_partials:
  "emitPartialRequestFragments st p = Some p' \<Longrightarrow> core p' = core p"
  "emitPartialResponseFragments st p = Some p' \<Longrightarrow> core p' = core p"
  "emitPartialHeaderValue st p = Some p' \<Longrightarrow> core p' = core p"
  by (auto simp: emitPartialRequestFragments_def emitPartialResponseFragments_def
      emitPartialHeaderValue_def Let_def split: option.splits if_splits)

lemma core_startPending: "startPending st b p = Some p' \<Longrightarrow> core p' = core p"
  by (auto simp: startPending_def Let_def split: option.splits if_splits)

lemma core_emitPartials: "emitPartials st p = Some p' \<Longrightarrow> core p' = core p"
  by (auto simp: emitPartials_def bind_eq_Some_conv split: if_splits dest!: core_partials)

lemma core_noteHeader: "core (noteHeader h p) = core p"
  by (simp add: noteHeader_def Let_def core_def)

lemma core_applyParsedMessage: "core (applyParsedMessage msg p) = core p"
proof -
  have u: "core (q\<lparr>contentLength := a\<rparr>) = core q" "core (q\<lparr>Upgrade := c\<rparr>) = core q"
    "core (q\<lparr>hasTransferEncoding := c\<rparr>) = core q" "core (q\<lparr>hasContentLength := c\<rparr>) = core q"
    "core (q\<lparr>Method := d\<rparr>) = core q" "core (q\<lparr>Major := e\<rparr>) = core q" "core (q\<lparr>Minor := e\<rparr>) = core q"
    "core (q\<lparr>StatusCode := f\<rparr>) = core q" for q a c d e f
    by (simp_all add: core_def)
  show ?thesis
    by (simp add: applyParsedMessage_def Let_def u core_fold core_noteHeader)
qed

lemma core_emitParsedMessage: "emitParsedMessage st msg p = Some p' \<Longrightarrow> core p' = core p"
proof -
  have "core (emitParsedHeader s h q) = core q" for s h q
    by (simp add: emitParsedHeader_def Let_def)
  then show "emitParsedMessage st msg p = Some p' \<Longrightarrow> core p' = core p"
    by (auto simp: emitParsedMessage_def Let_def core_fold split: option.splits)
qed

lemma core_executePending: "core (fst (executePending st b p)) = core p"
proof (cases "startPending st b p \<bind> emitPartials st")
  case None
  then show ?thesis by (simp add: executePending_def)
next
  case (Some q)
  then have q: "core q = core p"
    by (auto simp: bind_eq_Some_conv intro: trans [OF core_emitPartials core_startPending])
  show ?thesis
    using q by (auto simp: executePending_def Some Let_def core_applyParsedMessage
        dest: core_emitParsedMessage split: parseResult.split option.split)
qed

text \<open>
  Outcomes of a \<open>tryFast\<dots>\<close> sequence: \<open>good\<close> says what must hold of a result, \<open>hang\<close> when there
  may be none.
\<close>

definition outcome :: "bool \<Rightarrow> (Parser \<times> attempt \<Rightarrow> bool) \<Rightarrow> (Parser \<times> attempt) option \<Rightarrow> bool" where
  "outcome hang good r \<longleftrightarrow> (case r of None \<Rightarrow> hang | Some y \<Rightarrow> good y)"

lemma outcome_orElse:
  assumes "outcome hang (\<lambda>(p, a). Q p \<and> (a \<noteq> Declined \<longrightarrow> good (p, a))) r"
    and "\<And>p. Q p \<Longrightarrow> outcome hang good (rest p)"
  shows "outcome hang good (orElse r rest)"
proof (cases r)
  case None
  with assms(1) show ?thesis by (simp add: outcome_def orElse_def)
next
  case (Some y)
  obtain p a where y: "y = (p, a)" by (cases y)
  from assms(1) have "Q p" "a \<noteq> Declined \<longrightarrow> good (p, a)" by (simp_all add: outcome_def Some y)
  with assms(2) [of p] show ?thesis by (cases a) (simp_all add: Some y orElse_def outcome_def)
qed

definition settled :: "ReqOrRsp \<Rightarrow> Parser \<times> attempt \<Rightarrow> bool" where
  "settled k y \<longleftrightarrow> invAs k (fst y) \<and> snd y \<noteq> Declined"

lemma outcome_step:
  "outcome hang (\<lambda>y. invAs k (fst y)) r \<Longrightarrow>
     outcome hang (\<lambda>(p, a). invAs k p \<and> (a \<noteq> Declined \<longrightarrow> settled k (p, a))) r"
  by (auto simp: outcome_def settled_def split: option.splits)

lemma outcome_core:
  "core (fst y) = core p \<Longrightarrow> invAs k p \<Longrightarrow> outcome hang (\<lambda>y. invAs k (fst y)) (Some y)"
  using invAs_core [of "fst y" p k] by (simp add: outcome_def)

lemma executePending_settled: "invAs k p \<Longrightarrow> outcome hang (settled k) (Some (executePending st b p))"
proof -
  assume "invAs k p"
  then have "invAs k (fst (executePending st b p))" using invAs_core [OF core_executePending] by blast
  moreover have "snd (executePending st b p) \<noteq> Declined"
    by (auto simp: executePending_def Let_def split: option.split parseResult.split)
  ultimately show ?thesis by (simp add: outcome_def settled_def)
qed

lemma request_inv_invAs: "request_inv p \<longleftrightarrow> invAs REQUEST p"
  by (simp add: request_inv_def invAs_def)

lemma outcome_split:
  "invAs REQUEST p \<Longrightarrow>
     outcome (chunkHang st b \<or> chunkHang None b) (\<lambda>y. invAs REQUEST (fst y)) (tryFastSplitRequest st b p)"
  "invAs REQUEST p \<Longrightarrow>
     outcome (chunkHang st b \<or> chunkHang None b) (\<lambda>y. invAs REQUEST (fst y)) (tryFastSplitRequestEmpty st b p)"
  using tryFastSplitRequest_ok [of p st b] tryFastSplitRequestEmpty_ok [of p st b]
  by (auto simp: request_inv_invAs runOk_def outcome_def split: option.splits)

lemma outcome_notRequest:
  "invAs k p \<Longrightarrow> k \<noteq> REQUEST \<Longrightarrow> outcome False (\<lambda>y. invAs k (fst y)) (tryFastSplitRequest st b p)"
  by (simp add: tryFastSplitRequest_def invAs_def outcome_def)

lemma outcome_splitResponse:
  "invAs k p \<Longrightarrow> k \<noteq> REQUEST \<Longrightarrow> outcome False (\<lambda>y. invAs k (fst y)) (tryFastSplitResponse st b p)"
proof -
  assume p: "invAs k p" "k \<noteq> REQUEST"
  show ?thesis
  proof (cases "k = RESPONSE")
    case True
    then have "returnsInv RESPONSE (tryFastSplitResponse st b p)"
      unfolding tryFastSplitResponse_def using p
      by (auto simp: inv_simps invAs_def intro!: splitResponseLoop_returns)
    with True show ?thesis by (auto simp: returnsInv_def outcome_def invAs_def)
  qed (use p in \<open>simp add: tryFastSplitResponse_def outcome_def invAs_def\<close>)
qed

lemmas outcome_steps = outcome_orElse [OF outcome_step]

lemma outcome_tryFastRequest: "invAs k p \<Longrightarrow> outcome hang (\<lambda>y. invAs k (fst y)) (Some (tryFastRequest st b p))"
  by (simp add: outcome_def tryFastRequest_inv)

lemma Execute_outcome:
  assumes "parser_inv p"
  shows "case Execute setting b p of
     Some (p', a) \<Rightarrow> parser_inv p' \<and> defaultType p' = defaultType p \<and> a \<noteq> Declined
   | None \<Rightarrow> defaultType p = REQUEST \<and> (chunkHang setting b \<or> chunkHang None b)"
proof (cases "defaultType p = REQUEST")
  case True
  have p: "invAs REQUEST p" using assms True by (simp add: invAs_def)
  have "outcome (chunkHang setting b \<or> chunkHang None b) (settled REQUEST) (Execute setting b p)"
  proof (cases "b = []")
    case False
    then show ?thesis
      unfolding Execute_def executeClean_def using True p
      by (auto intro!: outcome_steps outcome_split outcome_tryFastRequest executePending_settled
          outcome_core [OF core_tryFastChunkedRequest])
  qed (use p in \<open>simp add: Execute_def executeClean_def outcome_def settled_def\<close>)
  with True show ?thesis by (auto simp: outcome_def settled_def invAs_def split: option.splits)
next
  case False
  have p: "invAs (defaultType p) p" using assms by (simp add: invAs_def)
  have "outcome False (settled (defaultType p)) (Execute setting b p)"
  proof (cases "b = []")
    case bn: False
    then show ?thesis
      unfolding Execute_def executeClean_def using False p
      by (auto intro!: outcome_steps outcome_splitResponse outcome_notRequest outcome_tryFastRequest
          executePending_settled outcome_core [OF core_tryFastChunkedRequest] outcome_core [OF core_tryFastResponse])
  qed (use p in \<open>simp add: Execute_def executeClean_def outcome_def settled_def\<close>)
  with False show ?thesis by (auto simp: outcome_def settled_def invAs_def split: option.splits)
qed

text \<open>The states of a parser its users can bring about.\<close>

inductive parser_reach :: "Parser \<Rightarrow> bool" where
  new: "parser_reach (New t)"
| execute: "parser_reach p \<Longrightarrow> Execute setting b p = Some (p', a) \<Longrightarrow> parser_reach p'"
| reset: "parser_reach p \<Longrightarrow> parser_reach (Reset p)"
| user_data: "parser_reach p \<Longrightarrow> parser_reach (SetUserData d p)"

lemma parser_inv_life:
  "parser_inv (New t)" "parser_inv (Reset p)" "parser_inv p \<Longrightarrow> parser_inv (SetUserData d p)"
proof -
  show "parser_inv (New t)"
    by (cases t) (simp_all add: inv_simps New_def Init_def zeroParser_def)
  show "parser_inv (Reset p)"
    by (cases "defaultType p") (simp_all add: inv_simps Reset_def)
  show "parser_inv p \<Longrightarrow> parser_inv (SetUserData d p)"
    by (simp add: inv_simps SetUserData_def)
qed

lemma parser_reach_inv: "parser_reach p \<Longrightarrow> parser_inv p"
proof (induction rule: parser_reach.induct)
  case (execute p setting b p' a)
  then show ?case using Execute_outcome [OF execute.IH, of setting b] by simp
qed (auto intro: parser_inv_life)

section \<open>Properties\<close>

text \<open>
  C12: the invariant of the streaming parser. In every state reachable from \<^verbatim>\<open>New\<close> by \<^verbatim>\<open>Execute\<close>
  (any buffers, any callbacks), \<^verbatim>\<open>Reset\<close> and \<^verbatim>\<open>SetUserData\<close>, the scratch buffer holds at most 4096
  bytes, at most 64 headers are captured, and the phase is one the parser's kind can be in. From
  such a state \<^verbatim>\<open>Execute\<close> settles every buffer with a count, an error or a panic, and it returns,
  except that the chunk consumer of a request parser may not.
\<close>

theorem parser_reach_invariant:
  assumes "parser_reach p"
  shows "length (lineScratch p) \<le> scratchBufferSize \<and> - 1 \<le> fastHeaderCount p \<and>
     fastHeaderCount p \<le> maxFastHeaders \<and> phaseOk (defaultType p) (fastPhase p) \<and>
     (case Execute setting b p of
        Some (p', a) \<Rightarrow> defaultType p' = defaultType p \<and> a \<noteq> Declined
      | None \<Rightarrow> defaultType p = REQUEST \<and> (chunkHang setting b \<or> chunkHang None b))"
  using parser_reach_inv [OF assms] Execute_outcome [OF parser_reach_inv [OF assms], of setting b]
  by (auto simp: parser_inv_def parser_wf_def split: option.splits)

theorem parser_reach_invariant_witness:
  "length (lineScratch (New RESPONSE)) \<le> scratchBufferSize \<and>
     (\<exists>p' a. Execute None (str ''HTTP/1.1'') (New RESPONSE) = Some (p', a) \<and> defaultType p' = RESPONSE)"
proof -
  have d: "defaultType (New RESPONSE) = RESPONSE" by (simp add: New_def Init_def)
  show ?thesis
    using parser_reach_invariant [OF parser_reach.new, of RESPONSE None "str ''HTTP/1.1''"] d
    by (auto split: option.splits)
qed

end
