(* ===== verification/Split_Delivery.thy ===== *)
theory Split_Delivery
  imports Parser_Execute
begin

text \<open>
  What the split-request path delivers: the head of a request read line by line, then a body of
  known length that arrives over any number of \<^verbatim>\<open>Execute\<close> calls. Positions are erased from the
  calls, since they depend on how the bytes were cut.
\<close>

section \<open>Calls without positions\<close>

fun unpos :: "event \<Rightarrow> event" where
  "unpos (EvMessageBegin _) = EvMessageBegin 0"
| "unpos (EvURL d _) = EvURL d 0"
| "unpos (EvStatus d _) = EvStatus d 0"
| "unpos (EvHeaderField d _) = EvHeaderField d 0"
| "unpos (EvHeaderValue d _) = EvHeaderValue d 0"
| "unpos (EvHeadersComplete _) = EvHeadersComplete 0"
| "unpos (EvBody d _) = EvBody d 0"
| "unpos (EvMessageComplete _) = EvMessageComplete 0"

definition calls :: "Parser \<Rightarrow> event list" where
  "calls p = map unpos (trace p)"

lemma calls_call [simp]: "calls (call st cb ev p) = calls p @ map unpos (fires st cb ev)"
  by (simp add: calls_def)

lemma calls_update [simp]:
  "calls (p\<lparr>lineScratch := a\<rparr>) = calls p" "calls (p\<lparr>fastPhase := b\<rparr>) = calls p"
  "calls (p\<lparr>messageStarted := c\<rparr>) = calls p" "calls (p\<lparr>urlOffset := d\<rparr>) = calls p"
  "calls (p\<lparr>headerValueOffset := d\<rparr>) = calls p" "calls (p\<lparr>phase := e\<rparr>) = calls p"
  "calls (p\<lparr>messageCompleteCalled := c\<rparr>) = calls p"
  by (simp_all add: calls_def)

lemma bodyOf_unpos [simp]: "bodyOf (map unpos es) = bodyOf es"
  by (induction es rule: bodyOf.induct) simp_all

lemma completions_unpos [simp]: "completions (map unpos es) = completions es"
  by (induction es rule: completions.induct) simp_all

section \<open>Header lines one by one\<close>

definition metaMatches :: "messageMeta \<Rightarrow> Parser \<Rightarrow> bool" where
  "metaMatches meta p \<longleftrightarrow>
     hasContentLength p = m_hasContentLength meta \<and> hasTransferEncoding p = m_hasTransferEncoding meta \<and>
     (if m_hasContentLength meta then contentLength p = m_contentLength meta else sint (contentLength p) \<le> 0)"

lemma metaMatches_frame [simp]:
  "metaMatches meta (p\<lparr>lineScratch := a\<rparr>) = metaMatches meta p"
  "metaMatches meta (p\<lparr>fastPhase := b\<rparr>) = metaMatches meta p"
  "metaMatches meta (p\<lparr>urlOffset := c\<rparr>) = metaMatches meta p"
  "metaMatches meta (p\<lparr>messageStarted := d\<rparr>) = metaMatches meta p"
  "metaMatches meta (call st cb ev p) = metaMatches meta p"
  by (simp_all add: metaMatches_def frame_simps)

lemma consumeFastHeader_meta:
  assumes "parseHeaderLineBytes l = Some h" "applyHeaderMeta meta h = Some meta'" "metaMatches meta p"
  shows "\<exists>p'. consumeFastHeader l p = Inr p' \<and> metaMatches meta' p'"
  using assms by (auto simp: consumeFastHeader_def applyHeaderMeta_def metaMatches_def Let_def
      split: if_splits option.splits)

text \<open>An empty value is not reported on this path.\<close>

definition splitHeaderEvents :: "Setting \<Rightarrow> headerLine \<Rightarrow> event list" where
  "splitHeaderEvents s h =
     fires (Some s) cbHeaderField (EvHeaderField (h_Name h) 0) @
     (if h_Value h \<noteq> [] then fires (Some s) cbHeaderValue (EvHeaderValue (h_Value h) 0) else [])"

lemma emitSplitHeader_calls:
  assumes "parseHeaderLineBytes l = Some h" "headerValueOffset p = 0"
  shows "calls (emitSplitHeader (Some s) l at p) = calls p @ splitHeaderEvents s h"
    "headerValueOffset (emitSplitHeader (Some s) l at p) = 0"
    "metaMatches meta (emitSplitHeader (Some s) l at p) = metaMatches meta p"
    "lineScratch (emitSplitHeader (Some s) l at p) = lineScratch p"
    "fastPhase (emitSplitHeader (Some s) l at p) = fastPhase p"
    "messageStarted (emitSplitHeader (Some s) l at p) = messageStarted p"
    "defaultType (emitSplitHeader (Some s) l at p) = defaultType p"
    "pending (emitSplitHeader (Some s) l at p) = pending p"
  using assms
  by (auto simp: emitSplitHeader_def Let_def splitHeaderEvents_def frame_simps metaMatches_def)

text \<open>A parser inside the header block: nothing is left of a line or of a header value.\<close>

definition atHeaders :: "Parser \<Rightarrow> bool" where
  "atHeaders p \<longleftrightarrow> fastPhase p = fastPhaseHeaders \<and> lineScratch p = [] \<and> headerValueOffset p = 0 \<and>
     messageStarted p \<and> defaultType p = REQUEST \<and> pending p = []"

lemma splitRequestLoop_header:
  assumes "drop n b = l @ CRLF @ r" "line_ok l" "parseHeaderLineBytes l = Some h"
    "applyHeaderMeta meta h = Some meta'" "metaMatches meta p" "atHeaders p" "\<not> hasNoCallbacks (Some s)"
  shows "\<exists>p'. splitRequestLoop (Some s) b n p = splitRequestLoop (Some s) b (n + length l + 2) p' \<and>
     metaMatches meta' p' \<and> atHeaders p' \<and> calls p' = calls p @ splitHeaderEvents s h"
proof -
  have n: "n < length b" using assms(1) by (cases "n < length b") auto
  have sc: "scanCRLFBytes (drop n b) = Some (length l)" "take (length l) (drop n b) = l"
    using assms(2) unfolding assms(1) by (simp_all add: line_ok_def scan_simps)
  have ph: "scratchLine l p = Inr (l, p)" "fastPhase p = fastPhaseHeaders" "headerValueOffset p = 0" "l \<noteq> []"
    using assms(2,6) by (simp_all add: scratchLine_def atHeaders_def line_ok_def)
  obtain p1 where p1: "consumeFastHeader l p = Inr p1" "metaMatches meta' p1"
    using consumeFastHeader_meta [OF assms(3-5)] by blast
  note fr = consumeFastHeader_InrD [OF p1(1)]
  have hv: "headerValueOffset p1 = 0" using fr ph by simp
  note em = emitSplitHeader_calls [OF assms(3) hv, where s = s]
  let ?q = "(emitSplitHeader (Some s) l (n + length l + 2) p1)\<lparr>lineScratch := []\<rparr>"
  have "splitRequestLoop (Some s) b n p = splitRequestLoop (Some s) b (n + length l + 2) ?q"
    by (subst splitRequestLoop.simps) (use n sc ph p1 assms(7) in \<open>simp add: Let_def\<close>)
  moreover have "metaMatches meta' ?q" using em(3) p1(2) by simp
  moreover have "atHeaders ?q" "calls ?q = calls p @ splitHeaderEvents s h"
    using em fr assms(6) by (simp_all add: atHeaders_def calls_def)
  ultimately show ?thesis by blast
qed

lemma splitRequestLoop_headers:
  assumes "\<not> hasNoCallbacks (Some s)"
  shows "headers_of ls hs \<Longrightarrow> applyMetas meta hs = Some meta' \<Longrightarrow>
    drop n b = concat (map (\<lambda>l. l @ CRLF) ls) @ r \<Longrightarrow> metaMatches meta p \<Longrightarrow> atHeaders p \<Longrightarrow>
    \<exists>p'. splitRequestLoop (Some s) b n p =
        splitRequestLoop (Some s) b (n + length (concat (map (\<lambda>l. l @ CRLF) ls))) p' \<and>
      metaMatches meta' p' \<and> atHeaders p' \<and> calls p' = calls p @ concat (map (splitHeaderEvents s) hs)"
proof (induction ls arbitrary: hs meta n p)
  case Nil
  then show ?case by (auto simp: headers_of_def)
next
  case (Cons l ls)
  from Cons.prems(1,2) obtain h hs' meta1 where hs: "hs = h # hs'" "parseHeaderLineBytes l = Some h"
    "line_ok l" "headers_of ls hs'" "applyHeaderMeta meta h = Some meta1" "applyMetas meta1 hs' = Some meta'"
    by (auto simp: headers_of_def Cons_eq_map_conv split: option.splits)
  have dr: "drop n b = l @ CRLF @ (concat (map (\<lambda>l. l @ CRLF) ls) @ r)" using Cons.prems(3) by simp
  from splitRequestLoop_header [OF dr hs(3,2,5) Cons.prems(4,5) assms] obtain p1 where
    p1: "splitRequestLoop (Some s) b n p = splitRequestLoop (Some s) b (n + length l + 2) p1"
      "metaMatches meta1 p1" "atHeaders p1" "calls p1 = calls p @ splitHeaderEvents s h" by blast
  have "drop (n + length l + 2) b = drop (length l + 2) (drop n b)" by (simp add: add.commute add.left_commute)
  also have "\<dots> = concat (map (\<lambda>l. l @ CRLF) ls) @ r" using dr by simp
  finally have dr1: "drop (n + length l + 2) b = concat (map (\<lambda>l. l @ CRLF) ls) @ r" .
  from Cons.IH [OF hs(4,6) dr1 p1(2,3)] p1 hs(1) show ?case
    by (auto simp: add.assoc)
qed

section \<open>The head of a request\<close>

text \<open>The calls for a head read by the split path.\<close>

definition splitHeadEvents :: "Setting \<Rightarrow> requestLine \<Rightarrow> headerLine list \<Rightarrow> event list" where
  "splitHeadEvents s rl hs =
     fires (Some s) cbMessageBegin (EvMessageBegin 0) @
     (if rl_Target rl \<noteq> [] then fires (Some s) cbURL (EvURL (rl_Target rl) 0) else []) @
     concat (map (splitHeaderEvents s) hs) @
     fires (Some s) cbHeadersComplete (EvHeadersComplete 0)"

text \<open>A request parser that has seen nothing of the next message.\<close>

definition freshRequest :: "Parser \<Rightarrow> bool" where
  "freshRequest p \<longleftrightarrow>
     defaultType p = REQUEST \<and> fastPhase p = fastPhaseIdle \<and> lineScratch p = [] \<and> pending p = [] \<and>
     \<not> messageStarted p \<and> urlOffset p = 0 \<and> headerValueOffset p = 0 \<and>
     metaMatches (newMeta REQUEST 0) p"

lemma splitRequestLoop_start:
  assumes "b = line @ CRLF @ r" "scanCRLFBytes (line @ [CR]) = None" "parseRequestLineBytes line = Some rl"
    "freshRequest p" "cbMessageBegin s"
  shows "\<exists>p'. splitRequestLoop (Some s) b 0 (startRequest p) = splitRequestLoop (Some s) b (length line + 2) p' \<and>
     metaMatches (newMeta REQUEST 0) p' \<and> atHeaders p' \<and>
     calls p' = calls p @ fires (Some s) cbMessageBegin (EvMessageBegin 0) @
       (if rl_Target rl \<noteq> [] then fires (Some s) cbURL (EvURL (rl_Target rl) 0) else [])"
proof -
  define q where "q = startRequest p"
  have q: "fastPhase q = fastPhaseRequestLine" "lineScratch q = []" "urlOffset q = 0" "headerValueOffset q = 0"
    "defaultType q = REQUEST" "pending q = []" "metaMatches (newMeta REQUEST 0) q" "calls q = calls p"
    using assms(4) by (simp_all add: q_def startRequest_def freshRequest_def metaMatches_def calls_def)
  have sc: "scanCRLFBytes b = Some (length line)" "take (length line) b = line" "0 < length b"
    using assms(1,2) by (simp_all add: scan_simps)
  define q1 where "q1 = q\<lparr>Method := rl_Method rl, Major := rl_Major rl, Minor := rl_Minor rl,
      messageStarted := False, phase := ''requestLine''\<rparr>"
  have q1: "consumeFastRequestLine line q = Inr q1" using assms(3) by (simp add: consumeFastRequestLine_def q1_def)
  have tg: "parsedTargetFromLine line = rl_Target rl" using assms(3) by (simp add: parsedTargetFromLine_def)
  have ne: "\<not> hasNoCallbacks (Some s)" using assms(5) by (simp add: hasNoCallbacks_def)
  have sl: "scratchLine line q = Inr (line, q)" using q by (simp add: scratchLine_def)
  let ?p' = "(emitURLFrom (Some s) (rl_Target rl) (length line + 2) (beginMessage (Some s) q1))
      \<lparr>lineScratch := [], fastPhase := fastPhaseHeaders\<rparr>"
  have "splitRequestLoop (Some s) b 0 q = splitRequestLoop (Some s) b (length line + 2) ?p'"
    by (subst splitRequestLoop.simps) (use sc q q1 tg ne sl in \<open>simp add: Let_def\<close>)
  moreover have "metaMatches (newMeta REQUEST 0) ?p'" "atHeaders ?p'"
    using q assms(5)
    by (auto simp: emitURLFrom_def beginMessage_def q1_def metaMatches_def atHeaders_def frame_simps)
  moreover have "calls ?p' = calls p @ fires (Some s) cbMessageBegin (EvMessageBegin 0) @
       (if rl_Target rl \<noteq> [] then fires (Some s) cbURL (EvURL (rl_Target rl) 0) else [])"
    using q assms(5) by (auto simp: emitURLFrom_def beginMessage_def q1_def frame_simps calls_def)
  ultimately show ?thesis unfolding q_def [symmetric] by blast
qed

lemma splitRequestLoop_blank:
  assumes "drop n b = CRLF @ raw" "atHeaders p" "\<not> hasTransferEncoding p" "0 < sint (contentLength p)"
  shows "splitRequestLoop setting b n p =
     Some (addConsumed (n + 2)
       (consumeFastBodyWithCallbacks setting raw
          (call setting cbHeadersComplete (EvHeadersComplete (n + 2)) (p\<lparr>fastPhase := fastPhaseBody\<rparr>))))"
proof -
  have n: "n < length b" using assms(1) by (cases "n < length b") auto
  have "scanCRLFBytes (drop n b) = Some 0" "drop (n + 2) b = raw"
    using assms(1) by (simp, metis append_eq_conv_conj drop_drop length_Cons list.size(3) numeral_2_eq_2 add.commute)
  moreover have "scratchLine [] p = Inr ([], p)" "fastPhase p = fastPhaseHeaders"
    "p\<lparr>fastPhase := fastPhaseBody, lineScratch := []\<rparr> = p\<lparr>fastPhase := fastPhaseBody\<rparr>"
    using assms(2) by (simp_all add: scratchLine_def atHeaders_def)
  ultimately show ?thesis
    by (subst splitRequestLoop.simps) (use n assms(3,4) in \<open>simp add: Let_def\<close>)
qed

section \<open>The fast paths decline a request whose body is not complete\<close>

lemma analyzeFastRequest_short:
  assumes b: "b = line @ CRLF @ headerBlock ls @ raw" and line: "scanCRLFBytes (line @ [CR]) = None"
    and rl: "parseRequestLineBytes line = Some rl" and hs: "headers_of ls hs"
    and meta: "applyMetas (newMeta REQUEST 0) hs = Some meta"
    and body: "decideBodyMode meta = bodyModeContentLength" "int (length raw) \<noteq> sint (m_contentLength meta)"
  shows "fst (analyzeFastRequestCaptured b cap) = NotFast"
proof -
  let ?r = "headerBlock ls @ raw"
  have st: "startB b REQUEST = Some (?r, rl, zeroResponseLine, newMeta REQUEST 0)"
    unfolding startB_Some_iff using b line rl by auto
  have wf: "cursor_wf (at_rest b ?r)" by (simp add: cursor_wf_def at_rest_def)
  have rest: "cur_rest (at_rest b ?r) = ?r"
    using cur_rest_at_rest [of "line @ CRLF" ?r] b by simp
  have kind: "m_kind meta = REQUEST" using applyMetas_kind [OF meta] by (simp add: newMeta_def)
  have bd: "fastRequestBody (at_rest b raw) k (length b - length raw - 2) meta res = NotFast" for k res
    using fastRequestBody_eq [of b "line @ CRLF @ headerBlock ls" raw meta] kind body b
    by (simp add: bodyB_def)
  show ?thesis
    unfolding analyzeFastRequestCaptured_unfold st option.case prod.case fastRequestLoop_fst [OF wf] rest
      headersB_block [OF hs meta] parseResult.case at_rest_buf bd by (rule refl)
qed

lemma tryFastRequest_declines:
  assumes "\<And>cap. fst (analyzeFastRequestCaptured b cap) = NotFast"
  shows "\<exists>hs n. tryFastRequest st b p = (p\<lparr>fastHeaders := hs, fastHeaderCount := n\<rparr>, Declined)"
proof (cases "messageStarted p \<or> length (pending p) \<noteq> 0 \<or> inferMessageKind (defaultType p) b \<noteq> Some REQUEST")
  case True
  then have "tryFastRequest st b p = (p\<lparr>fastHeaders := fastHeaders p, fastHeaderCount := fastHeaderCount p\<rparr>, Declined)"
    by (auto simp: tryFastRequest_def)
  then show ?thesis by blast
next
  case False
  define cap where "cap = (case st of None \<Rightarrow> None
      | Some s \<Rightarrow> if cbHeaderField s \<or> cbHeaderValue s
                 then Some (fastHeaders (p\<lparr>fastHeaderCount := 0\<rparr>), fastHeaderCount (p\<lparr>fastHeaderCount := 0\<rparr>))
                 else None)"
  obtain cap' where a: "analyzeFastRequestCaptured b cap = (NotFast, cap')"
    using assms [of cap] by (cases "analyzeFastRequestCaptured b cap") simp
  have eq: "tryFastRequest st b p = ((case cap' of None \<Rightarrow> p\<lparr>fastHeaderCount := 0\<rparr>
      | Some (hs, n) \<Rightarrow> p\<lparr>fastHeaderCount := 0, fastHeaders := hs, fastHeaderCount := n\<rparr>)\<lparr>fastHeaderCount := 0\<rparr>, Declined)"
    using False unfolding tryFastRequest_def Let_def cap_def [symmetric] a by simp
  show ?thesis
  proof (cases cap')
    case None
    then have "tryFastRequest st b p = (p\<lparr>fastHeaders := fastHeaders p, fastHeaderCount := 0\<rparr>, Declined)"
      using eq by simp
    then show ?thesis by blast
  next
    case (Some c)
    then have "tryFastRequest st b p = (p\<lparr>fastHeaders := fst c, fastHeaderCount := 0\<rparr>, Declined)"
      using eq by (cases c) simp
    then show ?thesis by blast
  qed
qed

lemma chunkedHeaderLoop_plain:
  assumes "headersB (cur_rest c) meta = Parsed (r, meta', hs)" and "\<not> m_hasTransferEncoding meta'"
  shows "chunkedHeaderLoop setting at hStart c meta res d p = (p, Declined)"
  using assms
proof (induction "remaining c" arbitrary: c meta res d hs rule: less_induct)
  case less
  show ?case
  proof (cases c meta rule: header_cases)
    case (header n h meta'')
    with less.prems(1) obtain hs' where
      H: "headersB (cur_rest (advance c (n + 2))) meta'' = Parsed (r, meta', hs')" by auto
    show ?thesis
      using header less.hyps [OF header(7) H less.prems(2)]
      by (subst chunkedHeaderLoop.simps) simp
  qed (use less.prems in \<open>subst chunkedHeaderLoop.simps; auto simp: Let_def\<close>)+
qed

lemma tryFastChunkedRequest_declines:
  assumes b: "b = line @ CRLF @ headerBlock ls @ raw" and line: "scanCRLFBytes (line @ [CR]) = None"
    and hs: "headers_of ls hs" and meta: "applyMetas (newMeta REQUEST 0) hs = Some meta"
    and "\<not> m_hasTransferEncoding meta"
  shows "tryFastChunkedRequest st b p = (p, Declined)"
proof -
  have sc: "scanCRLF (newCursor b) = Some (length line)"
    using line by (simp add: cursor_simps b scan_simps)
  have "cur_rest (advance (newCursor b) (length line + 2)) = headerBlock ls @ raw"
    by (simp add: cursor_simps b)
  then have "headersB (cur_rest (advance (newCursor b) (length line + 2))) (newMeta REQUEST 0) = Parsed (raw, meta, hs)"
    using headersB_block [OF hs meta] by simp
  note pl = chunkedHeaderLoop_plain [OF this assms(5)]
  show ?thesis
    unfolding tryFastChunkedRequest_def Let_def sc option.case pl by (auto split: option.split)
qed

section \<open>Body buffers\<close>

text \<open>A request parser inside a body of which \<open>k\<close> bytes are outstanding.\<close>

definition inBody :: "nat \<Rightarrow> Parser \<Rightarrow> bool" where
  "inBody k p \<longleftrightarrow> defaultType p = REQUEST \<and> fastPhase p = fastPhaseBody \<and> messageStarted p \<and>
     pending p = [] \<and> sint (contentLength p) = int k"

text \<open>The parser after a body: idle, completion signalled.\<close>

definition bodyEnd :: "Parser \<Rightarrow> bool" where
  "bodyEnd p \<longleftrightarrow> fastPhase p = fastPhaseIdle \<and> messageCompleteCalled p"

definition bodyCalls :: "bytes list \<Rightarrow> event list" where
  "bodyCalls ds = concat (map (\<lambda>d. if d \<noteq> [] then [EvBody d 0] else []) ds)"

lemma consumeFastBody_frame:
  "defaultType (fst (consumeFastBodyWithCallbacks st b p)) = defaultType p"
  "messageStarted (fst (consumeFastBodyWithCallbacks st b p)) = messageStarted p"
  "pending (fst (consumeFastBodyWithCallbacks st b p)) = pending p"
  by (simp_all add: consumeFastBodyWithCallbacks_def Let_def frame_simps complete_def)

lemma consumeFastBody_piece:
  assumes "inBody k p" "length b \<le> k" "0 < k" "cbBody s" "cbMessageComplete s"
  shows "\<exists>p'. consumeFastBodyWithCallbacks (Some s) b p = (p', Handled (int (length b))) \<and>
     (if length b = k then bodyEnd p' \<and> calls p' = calls p @ bodyCalls [b] @ [EvMessageComplete 0]
      else inBody (k - length b) p' \<and> calls p' = calls p @ bodyCalls [b])"
proof -
  have cl: "sint (contentLength p) = int k" "0 < sint (contentLength p)"
    using assms(1,3) by (simp_all add: inBody_def)
  have "k < 2 ^ 31" using sint_lt [of "contentLength p"] cl by simp
  then have lb: "length b < 2 ^ 31" using assms(2) by simp
  have mn: "min (length b) k = length b" using assms(2) by simp
  obtain p' where p': "consumeFastBodyWithCallbacks (Some s) b p = (p', Handled (int (length b)))"
    "sint (contentLength p') = int k - int (length b)"
    "length b = k \<Longrightarrow> fastPhase p' = fastPhaseIdle \<and> messageCompleteCalled p'"
    "length b \<noteq> k \<Longrightarrow> fastPhase p' = fastPhase p"
    "trace p' = trace p @ (if length b > 0 then [EvBody b (length b)] else []) @
       (if length b = k then [EvMessageComplete (length b)] else [])"
    using consumeFastBody_step [OF cl(2) lb, of "Some s"] assms(4,5) 
    unfolding cl(1) nat_int mn by (auto split: if_splits)
  note fr = consumeFastBody_frame [of "Some s" b p, unfolded p'(1), simplified]
  show ?thesis
  proof (cases "length b = k")
    case True
    then show ?thesis using p' by (auto simp: bodyEnd_def calls_def bodyCalls_def)
  next
    case False
    with fr p'(4) have "inBody (k - length b) p'"
      using assms(1,2) p'(2) by (simp add: inBody_def of_nat_diff)
    with False p' show ?thesis by (auto simp: calls_def bodyCalls_def)
  qed
qed

lemma Execute_inBody:
  assumes "inBody k p" "b \<noteq> []" "\<not> hasNoCallbacks st"
  shows "Execute st b p = orElse (Some (consumeFastBodyWithCallbacks st b p)) (\<lambda>p. Some (executePending st b p))"
  using assms
  by (simp add: Execute_def executeClean_def inBody_def tryFastSplitRequestEmpty_def tryFastRequest_def
      tryFastChunkedRequest_def tryFastSplitRequest_def startRequest_def orElse_def)

text \<open>Successive \<^verbatim>\<open>Execute\<close> calls, each of which must take its whole buffer.\<close>

fun executeAll :: "Setting option \<Rightarrow> bytes list \<Rightarrow> Parser \<Rightarrow> Parser option" where
  "executeAll st [] p = Some p"
| "executeAll st (b # bs) p =
     (case Execute st b p of
        Some (p', Handled n) \<Rightarrow> if n = int (length b) then executeAll st bs p' else None
      | _ \<Rightarrow> None)"

lemma executeAll_body:
  assumes cb: "cbBody s" "cbMessageComplete s"
  shows "inBody k p \<Longrightarrow> list_all (\<lambda>b. b \<noteq> []) bs \<Longrightarrow> length (concat bs) = k \<Longrightarrow> 0 < k \<Longrightarrow>
    \<exists>p'. executeAll (Some s) bs p = Some p' \<and> bodyEnd p' \<and>
      calls p' = calls p @ bodyCalls bs @ [EvMessageComplete 0]"
proof (induction bs arbitrary: p k)
  case (Cons b bs)
  have ne: "\<not> hasNoCallbacks (Some s)" using cb by (simp add: hasNoCallbacks_def)
  have len: "length b \<le> k" and b: "b \<noteq> []" using Cons.prems by auto
  from consumeFastBody_piece [OF Cons.prems(1) len Cons.prems(4) cb] obtain p' where
    p': "consumeFastBodyWithCallbacks (Some s) b p = (p', Handled (int (length b)))"
      "if length b = k then bodyEnd p' \<and> calls p' = calls p @ bodyCalls [b] @ [EvMessageComplete 0]
       else inBody (k - length b) p' \<and> calls p' = calls p @ bodyCalls [b]" by blast
  have ex: "executeAll (Some s) (b # bs) p = executeAll (Some s) bs p'"
    using Execute_inBody [OF Cons.prems(1) b ne] p'(1) by (simp add: orElse_def)
  show ?case
  proof (cases "length b = k")
    case True
    then have "bs = []" using Cons.prems(2,3) by (cases bs) auto
    with True p'(2) ex show ?thesis by (simp add: bodyCalls_def)
  next
    case False
    then have "length (concat bs) = k - length b" "0 < k - length b" using Cons.prems(3) by auto
    with Cons.IH [of "k - length b" p'] False p'(2) Cons.prems(2) ex show ?thesis
      by (auto simp: bodyCalls_def)
  qed
qed simp

section \<open>A request over several buffers\<close>

text \<open>The fast paths decline a request whose body is incomplete, and leave it as it was.\<close>

lemma Execute_reaches_split:
  assumes p: "freshRequest p"
    and b: "b = line @ CRLF @ headerBlock ls @ raw" and line: "scanCRLFBytes (line @ [CR]) = None"
    and rl: "parseRequestLineBytes line = Some rl" and hs: "headers_of ls hs"
    and meta: "applyMetas (newMeta REQUEST 0) hs = Some meta" "decideBodyMode meta = bodyModeContentLength"
    and short: "int (length raw) \<noteq> sint (m_contentLength meta)" and ne: "\<not> hasNoCallbacks (Some s)"
  shows "\<exists>q. freshRequest q \<and> calls q = calls p \<and>
    Execute (Some s) b p = orElse (splitRequestLoop (Some s) b 0 (startRequest q)) (\<lambda>p. Some (executePending (Some s) b p))"
proof -
  have te: "\<not> m_hasTransferEncoding meta"
    using meta(2) by (auto simp: decideBodyMode_def split: if_splits)
  obtain fh n where p1: "tryFastRequest (Some s) b p = (p\<lparr>fastHeaders := fh, fastHeaderCount := n\<rparr>, Declined)"
    using tryFastRequest_declines [OF analyzeFastRequest_short [OF b line rl hs meta short]] by blast
  define q where "q = p\<lparr>fastHeaders := fh, fastHeaderCount := n\<rparr>"
  have q: "freshRequest q" "calls q = calls p"
    using p by (simp_all add: q_def freshRequest_def metaMatches_def calls_def)
  have ch: "tryFastChunkedRequest (Some s) b q = (q, Declined)"
    by (rule tryFastChunkedRequest_declines [OF b line hs meta(1) te])
  have "Execute (Some s) b p = orElse (tryFastSplitRequest (Some s) b q) (\<lambda>p. Some (executePending (Some s) b p))"
    using p ne p1 ch b by (simp add: Execute_def executeClean_def freshRequest_def orElse_def
        tryFastSplitRequestEmpty_def q_def)
  moreover have "tryFastSplitRequest (Some s) b q = splitRequestLoop (Some s) b 0 (startRequest q)"
    using q by (simp add: tryFastSplitRequest_def startRequest_def freshRequest_def)
  ultimately show ?thesis using q by (metis)
qed

text \<open>The line loop reads the head and stands at the blank line.\<close>

lemma splitRequestLoop_head:
  assumes q: "freshRequest q"
    and b: "b = line @ CRLF @ headerBlock ls @ raw" and line: "scanCRLFBytes (line @ [CR]) = None"
    and rl: "parseRequestLineBytes line = Some rl" and hs: "headers_of ls hs"
    and meta: "applyMetas (newMeta REQUEST 0) hs = Some meta"
    and cb: "cbMessageBegin s" and ne: "\<not> hasNoCallbacks (Some s)"
    and n: "n = length line + 2 + length (concat (map (\<lambda>l. l @ CRLF) ls))"
  shows "\<exists>q'. splitRequestLoop (Some s) b 0 (startRequest q) = splitRequestLoop (Some s) b n q' \<and>
    metaMatches meta q' \<and> atHeaders q' \<and>
    calls q' @ fires (Some s) cbHeadersComplete (EvHeadersComplete 0) = calls q @ splitHeadEvents s rl hs"
proof -
  obtain q1 where q1: "splitRequestLoop (Some s) b 0 (startRequest q) = splitRequestLoop (Some s) b (length line + 2) q1"
    "metaMatches (newMeta REQUEST 0) q1" "atHeaders q1"
    "calls q1 = calls q @ fires (Some s) cbMessageBegin (EvMessageBegin 0) @
       (if rl_Target rl \<noteq> [] then fires (Some s) cbURL (EvURL (rl_Target rl) 0) else [])"
    using splitRequestLoop_start [OF b line rl q cb] by auto
  have d1: "drop (length line + 2) b = concat (map (\<lambda>l. l @ CRLF) ls) @ (CRLF @ raw)"
    by (simp add: b headerBlock_def)
  from splitRequestLoop_headers [OF ne hs meta d1 q1(2,3)] q1(1,4) show ?thesis
    by (auto simp: n splitHeadEvents_def)
qed



end
