(* ===== verification/Buffered_Reader.thy ===== *)
theory Buffered_Reader
  imports Framing
begin

text \<open>
  The line reader of \<^verbatim>\<open>internal/parser/request.go\<close> (\<^verbatim>\<open>readCRLFLine\<close>, \<^verbatim>\<open>trimCRLFLine\<close>) over Go's
  \<^verbatim>\<open>bufio.Reader\<close>. The reader is modelled with its buffer and the pieces its source will
  deliver, so that lines that span reads and lines longer than the buffer are what they are in
  the program. The interface its clients use is the locale \<open>line_reader\<close>: a line depends on the
  unread bytes alone, not on how they are buffered.
\<close>

section \<open>Definitions\<close>

subsection \<open>\<^verbatim>\<open>bufio.Reader\<close>\<close>

text \<open>
  \<open>rd_size\<close> is the size asked for (at least 16 bytes are allocated), \<open>rd_buf\<close> the buffered
  bytes, \<open>rd_src\<close> what the successive reads of the source return, \<open>rd_end\<close> the error it returns
  when that is used up.
\<close>

record reader =
  rd_size :: nat
  rd_buf :: bytes
  rd_src :: "bytes list"
  rd_end :: error

definition bufSize :: "reader \<Rightarrow> nat" where
  "bufSize r = max 16 (rd_size r)"

definition fill :: "reader \<Rightarrow> reader" where
  "fill r =
     (case rd_src r of
        [] \<Rightarrow> r
      | c # cs \<Rightarrow>
          (let space = bufSize r - length (rd_buf r)
           in r\<lparr>rd_buf := rd_buf r @ take space c,
                rd_src := (if length c \<le> space then cs else drop space c # cs)\<rparr>))"

lemma fill_progress:
  assumes "length (rd_buf r) < bufSize r" and "rd_src r \<noteq> []"
  shows "length (concat (rd_src (fill r))) + length (rd_src (fill r)) <
         length (concat (rd_src r)) + length (rd_src r)"
  using assms by (cases "rd_src r") (auto simp: fill_def Let_def)

datatype readErr = ErrBufferFull | ErrRead error

text \<open>\<^verbatim>\<open>ReadSlice(delim)\<close>: the bytes up to and with the delimiter, or all buffered bytes and an error.\<close>

function ReadSlice :: "byte \<Rightarrow> reader \<Rightarrow> bytes \<times> readErr option \<times> reader" where
  "ReadSlice delim r =
     (case scanToByte (rd_buf r) delim of
        Some i \<Rightarrow> (take (i + 1) (rd_buf r), None, r\<lparr>rd_buf := drop (i + 1) (rd_buf r)\<rparr>)
      | None \<Rightarrow>
          if length (rd_buf r) \<ge> bufSize r then (rd_buf r, Some ErrBufferFull, r\<lparr>rd_buf := []\<rparr>)
          else if rd_src r = [] then (rd_buf r, Some (ErrRead (rd_end r)), r\<lparr>rd_buf := []\<rparr>)
          else ReadSlice delim (fill r))"
  by pat_completeness auto
termination
  by (relation "measure (\<lambda>(_, r). length (concat (rd_src r)) + length (rd_src r))")
    (use fill_progress in auto)

declare ReadSlice.simps [simp del]

subsection \<open>Lines\<close>

definition MaxHeaderSizeVar :: int32 where
  "MaxHeaderSizeVar = 4096"

definition trimCRLFLine :: "bytes \<Rightarrow> error + bytes" where
  "trimCRLFLine line =
     (if length line < 2 \<or> line ! (length line - 2) \<noteq> CR \<or> line ! (length line - 1) \<noteq> LF
      then Inl ErrNoEndLF
      else if int (length line - 2) > sint MaxHeaderSizeVar then Inl ErrHeaderOverflow
      else Inr (take (length line - 2) line))"

text \<open>The unread bytes.\<close>

definition unread :: "reader \<Rightarrow> bytes" where
  "unread r = rd_buf r @ concat (rd_src r)"

lemma fill_unread [simp]: "unread (fill r) = unread r"
  by (auto simp: unread_def fill_def Let_def split: list.split)

lemma fill_frame [simp]: "bufSize (fill r) = bufSize r" "rd_end (fill r) = rd_end r"
  by (auto simp: fill_def bufSize_def Let_def split: list.split)

lemma unread_rest: "unread (r\<lparr>rd_buf := x\<rparr>) = x @ concat (rd_src r)"
  by (simp add: unread_def)

text \<open>What one \<^verbatim>\<open>ReadSlice\<close> returns, from the unread bytes.\<close>

lemma ReadSlice_cases:
  obtains (line) i r' where "scanToByte (unread r) delim = Some i"
      "ReadSlice delim r = (take (i + 1) (unread r), None, r')" "unread r' = drop (i + 1) (unread r)"
  | (full) xs r' where "ReadSlice delim r = (xs, Some ErrBufferFull, r')"
      "unread r = xs @ unread r'" "delim \<notin> set xs" "xs \<noteq> []"
  | (error) r' where "delim \<notin> set (unread r)"
      "ReadSlice delim r = (unread r, Some (ErrRead (rd_end r)), r')" "unread r' = []"
proof (induction delim r arbitrary: thesis rule: ReadSlice.induct)
  case (1 delim r)
  show ?case
  proof (cases "scanToByte (rd_buf r) delim")
    case (Some i)
    note lt = scanToByte_lt [OF Some]
    have "rd_buf r = take i (rd_buf r) @ delim # drop (Suc i) (rd_buf r)" "delim \<notin> set (take i (rd_buf r))"
      using scanToByte_SomeD [OF Some] by simp_all
    then have u: "unread r = take i (rd_buf r) @ delim # (drop (Suc i) (rd_buf r) @ concat (rd_src r))"
      "delim \<notin> set (take i (rd_buf r))"
      by (metis append.assoc append_Cons unread_def, simp)
    then have "scanToByte (unread r) delim = Some i"
      using scanToByte_append [OF u(2)] lt by simp
    moreover have "take (i + 1) (rd_buf r) = take (i + 1) (unread r)"
      "drop (i + 1) (rd_buf r) @ concat (rd_src r) = drop (i + 1) (unread r)"
      using lt by (simp_all add: unread_def)
    moreover have "ReadSlice delim r = (take (i + 1) (rd_buf r), None, r\<lparr>rd_buf := drop (i + 1) (rd_buf r)\<rparr>)"
      using Some by (simp add: ReadSlice.simps)
    ultimately show ?thesis using "1.prems"(1) unread_rest by metis
  next
    case None
    then have nd: "delim \<notin> set (rd_buf r)" by (simp add: scanToByte_None)
    show ?thesis
    proof (cases "length (rd_buf r) \<ge> bufSize r")
      case True
      then have "rd_buf r \<noteq> []" by (auto simp: bufSize_def)
      with None True nd show ?thesis
        by (intro "1.prems"(2) [of "rd_buf r" "r\<lparr>rd_buf := []\<rparr>"]) (simp_all add: ReadSlice.simps unread_def)
    next
      case room: False
      show ?thesis
      proof (cases "rd_src r = []")
        case True
        with None room nd show ?thesis
          by (intro "1.prems"(3) [of "r\<lparr>rd_buf := []\<rparr>"]) (simp_all add: ReadSlice.simps unread_def)
      next
        case False
        then have eq: "ReadSlice delim r = ReadSlice delim (fill r)"
          using None room by (subst ReadSlice.simps) simp
        show ?thesis
          using "1.IH" [OF None room False] "1.prems" unfolding eq fill_unread fill_frame by blast
      qed
    qed
  qed
qed

lemma ReadSlice_full_shorter:
  "(part, Some ErrBufferFull, r') = ReadSlice delim r \<Longrightarrow> length (unread r') < length (unread r)"
  by (cases rule: ReadSlice_cases [where r = r and delim = delim]) auto

lemma ReadSlice_end: "rd_end (snd (snd (ReadSlice delim r))) = rd_end r"
proof (induction delim r rule: ReadSlice.induct)
  case (1 delim r)
  then show ?case by (subst ReadSlice.simps) (auto split: option.split)
qed

function readLineLoop :: "bytes \<Rightarrow> reader \<Rightarrow> (error + bytes) \<times> reader" where
  "readLineLoop line r =
     (case ReadSlice LF r of (part, err, r) \<Rightarrow>
        (let line = line @ part
         in case err of
              Some ErrBufferFull \<Rightarrow> readLineLoop line r
            | Some (ErrRead e) \<Rightarrow> (Inl e, r)
            | None \<Rightarrow> (trimCRLFLine line, r)))"
  by pat_completeness auto
termination
  by (relation "measure (\<lambda>(_, r). length (unread r))") (auto dest: ReadSlice_full_shorter)

declare readLineLoop.simps [simp del]

definition readCRLFLine :: "reader \<Rightarrow> (error + bytes) \<times> reader" where
  "readCRLFLine r =
     (case ReadSlice LF r of (part, err, r) \<Rightarrow>
        (case err of
           None \<Rightarrow> (trimCRLFLine part, r)
         | Some ErrBufferFull \<Rightarrow> readLineLoop part r
         | Some (ErrRead e) \<Rightarrow> (Inl e, r)))"

section \<open>The interface\<close>

text \<open>The first line of the bytes \<open>b\<close>, when the source fails with \<open>e\<close> behind them.\<close>

definition lineB :: "error \<Rightarrow> bytes \<Rightarrow> (error + bytes) \<times> bytes" where
  "lineB e b =
     (case scanToByte b LF of
        None \<Rightarrow> (Inl e, [])
      | Some i \<Rightarrow> (trimCRLFLine (take (i + 1) b), drop (i + 1) b))"

locale line_reader =
  fixes unread_op :: "'r \<Rightarrow> bytes"
    and end_op :: "'r \<Rightarrow> error"
    and line_op :: "'r \<Rightarrow> (error + bytes) \<times> 'r"
  assumes line_result: "fst (line_op r) = fst (lineB (end_op r) (unread_op r))"
    and line_rest: "unread_op (snd (line_op r)) = snd (lineB (end_op r) (unread_op r))"
    and line_end: "end_op (snd (line_op r)) = end_op r"
begin

lemma line_shorter:
  assumes "line_op r = (Inr l, r')"
  shows "length (unread_op r') < length (unread_op r)"
proof -
  from assms line_result [of r] obtain i where "scanToByte (unread_op r) LF = Some i"
    by (auto simp: lineB_def split: option.splits)
  with line_rest [of r] assms scanToByte_lt [OF this] show ?thesis by (simp add: lineB_def)
qed

lemma line_append:
  assumes "unread_op r = l @ CRLF @ rest" and "LF \<notin> set l" and "length l \<le> 4096"
  shows "fst (line_op r) = Inr l" and "unread_op (snd (line_op r)) = rest"
proof -
  have s: "scanToByte (unread_op r) LF = Some (length l + 1)"
    using scanToByte_append [of LF "l @ [CR]" rest] assms(1,2) by simp
  have t: "take (length l + 1 + 1) (unread_op r) = l @ CRLF" "drop (length l + 1 + 1) (unread_op r) = rest"
    using assms(1) by simp_all
  have "trimCRLFLine (l @ CRLF) = Inr l"
    using assms(3) by (simp add: trimCRLFLine_def nth_append MaxHeaderSizeVar_def)
  then show "fst (line_op r) = Inr l" "unread_op (snd (line_op r)) = rest"
    using line_result [of r] line_rest [of r] unfolding lineB_def s option.case t by simp_all
qed

end

lemma scanToByte_skip:
  "t \<notin> set xs \<Longrightarrow> scanToByte (xs @ b) t = map_option (\<lambda>i. length xs + i) (scanToByte b t)"
  by (cases "scanToByte b t"; induction xs) auto

lemma readLineLoop_spec:
  "LF \<notin> set line \<Longrightarrow>
     fst (readLineLoop line r) = fst (lineB (rd_end r) (line @ unread r)) \<and>
     unread (snd (readLineLoop line r)) = snd (lineB (rd_end r) (line @ unread r)) \<and>
     rd_end (snd (readLineLoop line r)) = rd_end r"
proof (induction "length (unread r)" arbitrary: line r rule: less_induct)
  case less
  show ?case
  proof (cases rule: ReadSlice_cases [where r = r and delim = LF])
    case (line i r')
    then show ?thesis
      using less.prems ReadSlice_end [of LF r]
      by (subst (1 2 3) readLineLoop.simps) (simp add: lineB_def scanToByte_skip)
  next
    case (full xs r')
    have "length (unread r') < length (unread r)" using full by simp
    from less.hyps [OF this, of "line @ xs"] full less.prems ReadSlice_end [of LF r]
    show ?thesis by (subst (1 2 3) readLineLoop.simps) simp
  next
    case (error r')
    have "scanToByte (line @ unread r) LF = None"
      using error(1) less.prems by (simp add: scanToByte_None)
    with error ReadSlice_end [of LF r] show ?thesis
      by (subst (1 2 3) readLineLoop.simps) (simp add: lineB_def)
  qed
qed

lemma readCRLFLine_loop: "readCRLFLine r = readLineLoop [] r"
  by (subst readLineLoop.simps) (simp add: readCRLFLine_def Let_def split: prod.split option.split readErr.split)

interpretation bufio: line_reader unread rd_end readCRLFLine
  by unfold_locales (use readLineLoop_spec [of "[]"] in \<open>simp_all add: readCRLFLine_loop\<close>)

section \<open>Properties\<close>


end
