(* ===== verification/Read_Request.thy ===== *)
theory Read_Request
  imports Message Buffered_Reader
begin

text \<open>
  \<^verbatim>\<open>ReadRequest\<close> of \<^verbatim>\<open>internal/parser/request.go\<close>, the parser the server uses: it reads the head
  of a request from a \<^verbatim>\<open>bufio.Reader\<close> and builds an \<^verbatim>\<open>http.Request\<close> whose body is read later
  from the same reader. Go strings are byte strings here. \<^verbatim>\<open>url.ParseRequestURI\<close> of the
  standard library is the argument \<open>parseURI\<close>; only targets the fast path cannot take reach it.
\<close>

section \<open>Definitions\<close>

text \<open>The fields of \<^verbatim>\<open>url.URL\<close> this file writes or reads; the others are zero.\<close>

record URL =
  u_Host :: bytes
  u_Path :: bytes
  u_RawQuery :: bytes

text \<open>\<^verbatim>\<open>http.NoBody\<close>, an \<^verbatim>\<open>io.LimitReader\<close> and a chunked reader over the connection's reader.\<close>

datatype requestBody = NoBody | LimitedBody int | ChunkedBody

type_synonym header = "bytes \<Rightarrow> bytes list option"

record Request =
  req_Method :: bytes
  req_URL :: URL
  req_Proto :: bytes
  req_ProtoMajor :: int
  req_ProtoMinor :: int
  req_Header :: header
  req_Host :: bytes
  req_RequestURI :: bytes
  req_Close :: bool
  req_Body :: requestBody
  req_ContentLength :: int
  req_TransferEncoding :: "bytes list"

abbreviation (input) SLASH :: byte where "SLASH \<equiv> 47"
abbreviation (input) QUESTION :: byte where "QUESTION \<equiv> 63"
abbreviation (input) PERCENT :: byte where "PERCENT \<equiv> 37"
abbreviation (input) HASH :: byte where "HASH \<equiv> 35"
abbreviation (input) DASH :: byte where "DASH \<equiv> 45"

text \<open>
  The scan of a target from index 1 on: \<open>None\<close> is \<^verbatim>\<open>goto slowPath\<close>, otherwise the index of the
  first question mark, if any.
\<close>

fun queryScan :: "nat \<Rightarrow> nat option \<Rightarrow> bytes \<Rightarrow> nat option option" where
  "queryScan i q [] = Some q"
| "queryScan i q (c # cs) =
     (if c = PERCENT \<or> c = HASH then None
      else if c = QUESTION \<and> q = None then queryScan (i + 1) (Some i) cs
      else queryScan (i + 1) q cs)"

definition parseRequestURL :: "(bytes \<Rightarrow> error + URL) \<Rightarrow> Method \<Rightarrow> bytes \<Rightarrow> error + URL" where
  "parseRequestURL parseURI method requestURI =
     (if method = CONNECT \<and> (requestURI = [] \<or> requestURI ! 0 \<noteq> SLASH)
      then Inr \<lparr>u_Host = requestURI, u_Path = [], u_RawQuery = []\<rparr>
      else if length requestURI > 0 \<and> requestURI ! 0 = SLASH
      then (case queryScan 1 None (drop 1 requestURI) of
              None \<Rightarrow> parseURI requestURI
            | Some (Some queryIndex) \<Rightarrow>
                Inr \<lparr>u_Host = [], u_Path = take queryIndex requestURI,
                     u_RawQuery = drop (queryIndex + 1) requestURI\<rparr>
            | Some None \<Rightarrow> Inr \<lparr>u_Host = [], u_Path = requestURI, u_RawQuery = []\<rparr>)
      else parseURI requestURI)"

text \<open>\<^verbatim>\<open>strconv.Itoa\<close> of a number that is not negative.\<close>

fun itoa :: "nat \<Rightarrow> bytes" where
  "itoa n = (if n < 10 then [word_of_nat (48 + n)] else itoa (n div 10) @ [word_of_nat (48 + n mod 10)])"

declare itoa.simps [simp del]

definition httpVersionString :: "byte \<Rightarrow> byte \<Rightarrow> bytes" where
  "httpVersionString major minor =
     (if major = 1 \<and> minor = 0 then str ''HTTP/1.0''
      else if major = 1 \<and> minor = 1 then str ''HTTP/1.1''
      else str ''HTTP/'' @ itoa (unat major) @ str ''.'' @ itoa (unat minor))"

definition shouldCloseAfterReadConnection :: "byte \<Rightarrow> byte \<Rightarrow> bool \<Rightarrow> bool \<Rightarrow> bool" where
  "shouldCloseAfterReadConnection major minor hasConnectionClose hasConnectionKeepAlive =
     (if major = 1 \<and> minor = 0 then \<not> hasConnectionKeepAlive else hasConnectionClose)"

subsection \<open>Tokens and header keys\<close>

text \<open>
  \<^verbatim>\<open>headerValueHasTokenBytes\<close>: the argument is \<^verbatim>\<open>value[start:]\<close>; the three inner loops skip
  separators, find the next comma and cut trailing space.
\<close>

function headerValueHasTokenBytes :: "bytes \<Rightarrow> string \<Rightarrow> bool" where
  "headerValueHasTokenBytes value token =
     (if length value > 0
      then
        (let value = dropWhile (\<lambda>c. c = SP \<or> c = HTAB \<or> c = COMMA) value;
             field = takeWhile (\<lambda>c. c \<noteq> COMMA) value;
             field' = rev (dropWhile (\<lambda>c. c = SP \<or> c = HTAB) (rev field))
         in if equalFoldToken field' token then True
            else headerValueHasTokenBytes (drop (length field + 1) value) token)
      else False)"
  by pat_completeness auto
termination
proof (relation "measure (\<lambda>(v, _). length v)")
  fix v x xa xb :: bytes and token :: string
  assume "0 < length v" "x = dropWhile (\<lambda>c. c = SP \<or> c = HTAB \<or> c = COMMA) v"
  then show "((drop (length xa + 1) x, token), v, token) \<in> measure (\<lambda>(v, _). length v)"
    using length_dropWhile_le [of "\<lambda>c. c = SP \<or> c = HTAB \<or> c = COMMA" v] by (cases v) auto
qed simp

declare headerValueHasTokenBytes.simps [simp del]

fun canonLoop :: "bool \<Rightarrow> bytes \<Rightarrow> bytes" where
  "canonLoop upper [] = []"
| "canonLoop upper (c # cs) =
     (let c = (if upper then if 97 \<le> c \<and> c \<le> 122 then c - (97 - 65) else c
               else if 65 \<le> c \<and> c \<le> 90 then c + (97 - 65) else c)
      in c # canonLoop (c = DASH) cs)"

definition canonicalHeaderKeyBytes :: "bytes \<Rightarrow> bytes" where
  "canonicalHeaderKeyBytes name = canonLoop True name"

definition canonicalCases :: "(string \<times> string) list" where
  "canonicalCases =
     [(''connection'', ''Connection''),
      (''content-length'', ''Content-Length''),
      (''transfer-encoding'', ''Transfer-Encoding''),
      (''cache-control'', ''Cache-Control''),
      (''accept'', ''Accept''),
      (''accept-encoding'', ''Accept-Encoding''),
      (''accept-language'', ''Accept-Language''),
      (''user-agent'', ''User-Agent''),
      (''referer'', ''Referer''),
      (''dnt'', ''Dnt'')]"

definition canonicalHeaderKey :: "bytes \<Rightarrow> bytes option" where
  "canonicalHeaderKey name = map_option str (switchFold canonicalCases name)"

text \<open>\<^verbatim>\<open>headers[key] = append(existing, v)\<close>, or a new entry of one value.\<close>

definition addValue :: "bytes \<Rightarrow> bytes \<Rightarrow> header \<Rightarrow> header" where
  "addValue key v headers =
     (case headers key of
        Some existing \<Rightarrow> headers(key \<mapsto> existing @ [v])
      | None \<Rightarrow> headers(key \<mapsto> [v]))"

text \<open>A nil header map reads as the empty one and is replaced by a new map.\<close>

definition addParsedHeader :: "header \<Rightarrow> bytes \<Rightarrow> bytes \<Rightarrow> header" where
  "addParsedHeader headers name value =
     (case canonicalHeaderKey name of
        Some canonical \<Rightarrow> addValue canonical value headers
      | None \<Rightarrow> addValue (canonicalHeaderKeyBytes name) value headers)"

subsection \<open>The request\<close>

record headState =
  hd_meta :: messageMeta
  hd_host :: bytes
  hd_close :: bool
  hd_keepAlive :: bool
  hd_headers :: "(bytes \<times> bytes) list"

text \<open>One header line: the body of the loop after the line is read.\<close>

definition noteRequestHeader :: "bytes \<Rightarrow> headState \<Rightarrow> error + headState" where
  "noteRequestHeader line st =
     (case parseHeaderLineBytes line of
        None \<Rightarrow> Inl ErrHeaderOverflow
      | Some header \<Rightarrow>
          (case applyHeaderMeta (hd_meta st) header of
             None \<Rightarrow> Inl (headerSemanticError (hd_meta st) header)
           | Some meta \<Rightarrow>
               (let st = st\<lparr>hd_meta := meta\<rparr>
                in if equalFoldToken (h_Name header) ''host''
                   then Inr (if hd_host st = [] then st\<lparr>hd_host := h_Value header\<rparr> else st)
                   else
                     (let st =
                            (if equalFoldToken (h_Name header) ''connection''
                             then
                               (let st = (if headerValueHasTokenBytes (h_Value header) ''close''
                                          then st\<lparr>hd_close := True\<rparr> else st)
                                in if headerValueHasTokenBytes (h_Value header) ''keep-alive''
                                   then st\<lparr>hd_keepAlive := True\<rparr> else st)
                             else st);
                          key = (case canonicalHeaderKey (h_Name header) of
                                   Some key \<Rightarrow> key
                                 | None \<Rightarrow> canonicalHeaderKeyBytes (h_Name header))
                      in Inr (st\<lparr>hd_headers := hd_headers st @ [(key, h_Value header)]\<rparr>)))))"

function readHeaders :: "headState \<Rightarrow> reader \<Rightarrow> (error + headState) \<times> reader" where
  "readHeaders st r =
     (case readCRLFLine r of
        (Inl e, r) \<Rightarrow> (Inl e, r)
      | (Inr line, r) \<Rightarrow>
          if length line = 0 then (Inr st, r)
          else (case noteRequestHeader line st of
                  Inl e \<Rightarrow> (Inl e, r)
                | Inr st \<Rightarrow> readHeaders st r))"
  by pat_completeness auto
termination
  by (relation "measure (\<lambda>(_, r). length (unread r))") (auto dest: bufio.line_shorter [OF sym])

declare readHeaders.simps [simp del]

text \<open>
  The header map. The source fills an array of first values and gives each new key a slice of
  length and capacity one, so appending a second value copies: no key shares storage with another.
\<close>

definition buildHeaders :: "(bytes \<times> bytes) list \<Rightarrow> header" where
  "buildHeaders parsedHeaders = foldl (\<lambda>headers (key, value). addValue key value headers) Map.empty parsedHeaders"

definition buildRequest :: "requestLine \<Rightarrow> URL \<Rightarrow> headState \<Rightarrow> error + Request" where
  "buildRequest line requestURL st =
     (let req =
            \<lparr>req_Method = str (Method_String (rl_Method line)), req_URL = requestURL,
             req_Proto = httpVersionString (rl_Major line) (rl_Minor line),
             req_ProtoMajor = uint (rl_Major line), req_ProtoMinor = uint (rl_Minor line),
             req_Header = buildHeaders (hd_headers st), req_Host = hd_host st,
             req_RequestURI = rl_Target line,
             req_Close = shouldCloseAfterReadConnection (rl_Major line) (rl_Minor line)
                           (hd_close st) (hd_keepAlive st),
             req_Body = NoBody, req_ContentLength = 0, req_TransferEncoding = []\<rparr>;
          n = sint (m_contentLength (hd_meta st))
      in case decideBodyMode (hd_meta st) of
           bodyModeNone \<Rightarrow> Inr req
         | bodyModeContentLength \<Rightarrow>
             Inr (if n > 0 then req\<lparr>req_ContentLength := n, req_Body := LimitedBody n\<rparr>
                  else req\<lparr>req_ContentLength := n\<rparr>)
         | bodyModeChunked \<Rightarrow>
             Inr (req\<lparr>req_ContentLength := - 1, req_TransferEncoding := [str ''chunked''],
                      req_Body := ChunkedBody\<rparr>)
         | bodyModeEOF \<Rightarrow> Inl ErrUnsupportedBodyMode)"

definition ReadRequest :: "(bytes \<Rightarrow> error + URL) \<Rightarrow> reader \<Rightarrow> (error + Request) \<times> reader" where
  "ReadRequest parseURI r =
     (case readCRLFLine r of
        (Inl e, r) \<Rightarrow> (Inl e, r)
      | (Inr line, r) \<Rightarrow>
          (case parseRequestLineBytes line of
             None \<Rightarrow> (Inl ErrReqMethod, r)
           | Some line \<Rightarrow>
               (case parseRequestURL parseURI (rl_Method line) (rl_Target line) of
                  Inl e \<Rightarrow> (Inl e, r)
                | Inr requestURL \<Rightarrow>
                    (case readHeaders
                            \<lparr>hd_meta = newMeta REQUEST 0, hd_host = u_Host requestURL,
                             hd_close = False, hd_keepAlive = False, hd_headers = []\<rparr> r of
                       (Inl e, r) \<Rightarrow> (Inl e, r)
                     | (Inr st, r) \<Rightarrow> (buildRequest line requestURL st, r)))))"

section \<open>Comma-separated tokens\<close>

text \<open>The elements of a comma-separated list, and an element without the space around it.\<close>

fun elements :: "bytes \<Rightarrow> bytes list" where
  "elements [] = [[]]"
| "elements (c # cs) =
     (if c = COMMA then [] # elements cs
      else (case elements cs of [] \<Rightarrow> [[c]] | t # ts \<Rightarrow> (c # t) # ts))"

definition trimOWS :: "bytes \<Rightarrow> bytes" where
  "trimOWS t = rev (dropWhile (\<lambda>c. c = SP \<or> c = HTAB) (rev (dropWhile (\<lambda>c. c = SP \<or> c = HTAB) t)))"

lemma elements_Cons: "\<exists>t ts. elements v = t # ts"
  by (induction v) (auto split: list.splits)

lemma elements_split:
  "elements v =
     takeWhile (\<lambda>c. c \<noteq> COMMA) v #
       (if COMMA \<in> set v then elements (drop (length (takeWhile (\<lambda>c. c \<noteq> COMMA) v) + 1) v) else [])"
  by (induction v) auto

lemma trimOWS_Nil [simp]: "trimOWS [] = []"
  by (simp add: trimOWS_def)

lemma trimOWS_Cons [simp]: "c = SP \<or> c = HTAB \<Longrightarrow> trimOWS (c # t) = trimOWS t"
  by (auto simp: trimOWS_def)

lemma equalFoldToken_Nil: "equalFoldToken [] token \<longleftrightarrow> token = []"
  by (auto simp: equalFoldToken_def)

lemma elements_skip:
  assumes "token \<noteq> []"
  shows "list_ex (\<lambda>t. equalFoldToken (trimOWS t) token)
           (elements (dropWhile (\<lambda>c. c = SP \<or> c = HTAB \<or> c = COMMA) v)) =
         list_ex (\<lambda>t. equalFoldToken (trimOWS t) token) (elements v)"
proof (induction v)
  case (Cons c v)
  obtain t ts where "elements v = t # ts" using elements_Cons by blast
  with Cons assms show ?case by (auto simp: equalFoldToken_Nil)
qed simp

lemma dropWhile_sep_hd:
  assumes "dropWhile (\<lambda>c. c = SP \<or> c = HTAB \<or> c = COMMA) v = w" "w \<noteq> []"
  shows "dropWhile (\<lambda>c. c = SP \<or> c = HTAB) (takeWhile (\<lambda>c. c \<noteq> COMMA) w) = takeWhile (\<lambda>c. c \<noteq> COMMA) w"
  using assms hd_dropWhile [of "\<lambda>c. c = SP \<or> c = HTAB \<or> c = COMMA" v] by (cases w) auto

text \<open>
  C37: \<^verbatim>\<open>headerValueHasTokenBytes\<close> finds exactly the elements of a comma-separated list: it answers
  true when some element, without the spaces and tabs around it, is the token in any letter case.
\<close>

theorem headerValueHasTokenBytes_iff:
  "token \<noteq> [] \<Longrightarrow>
     headerValueHasTokenBytes v token \<longleftrightarrow>
       list_ex (\<lambda>t. equalFoldToken (trimOWS t) token) (elements v)"
proof (induction "length v" arbitrary: v rule: less_induct)
  case less
  let ?P = "\<lambda>t. equalFoldToken (trimOWS t) token"
  define w where "w = dropWhile (\<lambda>c. c = SP \<or> c = HTAB \<or> c = COMMA) v"
  define field where "field = takeWhile (\<lambda>c. c \<noteq> COMMA) w"
  show ?case
  proof (cases "v = []")
    case True
    then show ?thesis
      using less.prems by (subst headerValueHasTokenBytes.simps) (simp add: equalFoldToken_Nil)
  next
    case False
    have len: "length (drop (length field + 1) w) < length v"
      using False length_dropWhile_le [of "\<lambda>c. c = SP \<or> c = HTAB \<or> c = COMMA" v]
      by (cases v) (auto simp: w_def)
    have strip: "rev (dropWhile (\<lambda>c. c = SP \<or> c = HTAB) (rev field)) = trimOWS field"
      using dropWhile_sep_hd [OF w_def [symmetric]]
      by (cases "w = []") (simp_all add: trimOWS_def field_def)
    have "list_ex ?P (elements v) = list_ex ?P (elements w)"
      unfolding w_def using elements_skip [OF less.prems] by simp
    also have "\<dots> \<longleftrightarrow> ?P field \<or> list_ex ?P (elements (drop (length field + 1) w))"
    proof (cases "COMMA \<in> set w")
      case True
      then show ?thesis by (subst elements_split) (simp add: field_def)
    next
      case no: False
      then have "field = w" unfolding field_def by (intro takeWhile_eq_all_conv [THEN iffD2]) auto
      with no show ?thesis
        using less.prems by (subst elements_split) (simp add: equalFoldToken_Nil field_def [symmetric])
    qed
    finally have spec: "list_ex ?P (elements v) \<longleftrightarrow>
        ?P field \<or> list_ex ?P (elements (drop (length field + 1) w))" .
    have "headerValueHasTokenBytes v token =
        (if equalFoldToken (trimOWS field) token then True
         else headerValueHasTokenBytes (drop (length field + 1) w) token)"
      using False strip by (subst headerValueHasTokenBytes.simps) (simp add: Let_def w_def field_def)
    with spec less.hyps [OF len less.prems] show ?thesis by simp
  qed
qed

theorem headerValueHasTokenBytes_iff_witness:
  "headerValueHasTokenBytes (str ''Upgrade,  close , x'') ''close''"
proof -
  have "list_ex (\<lambda>t. equalFoldToken (trimOWS t) ''close'') (elements (str ''Upgrade,  close , x''))"
    by code_simp
  then show ?thesis using headerValueHasTokenBytes_iff [of "''close''" "str ''Upgrade,  close , x''"] by simp
qed

section \<open>Header keys\<close>

lemma canonLoop_lower: "canonLoop upper (map lowerByte name) = canonLoop upper name"
proof (induction name arbitrary: upper)
  case (Cons c cs)
  have "(if upper then if 97 \<le> lowerByte c \<and> lowerByte c \<le> 122 then lowerByte c - (97 - 65) else lowerByte c
         else if 65 \<le> lowerByte c \<and> lowerByte c \<le> 90 then lowerByte c + (97 - 65) else lowerByte c) =
        (if upper then if 97 \<le> c \<and> c \<le> 122 then c - (97 - 65) else c
         else if 65 \<le> c \<and> c \<le> 90 then c + (97 - 65) else c)"
    by (simp add: lowerByte_def word_le_nat_alt unat_word_ariths)
  with Cons.IH show ?case by (simp only: canonLoop.simps list.map Let_def)
qed simp

lemma lower_canonLoop: "map lowerByte (canonLoop upper name) = map lowerByte name"
proof (induction name arbitrary: upper)
  case (Cons c cs)
  have "lowerByte (if upper then if 97 \<le> c \<and> c \<le> 122 then c - (97 - 65) else c
         else if 65 \<le> c \<and> c \<le> 90 then c + (97 - 65) else c) = lowerByte c"
    by (auto simp: lowerByte_def word_le_nat_alt unat_word_ariths unat_sub_if')
  with Cons.IH show ?case by (simp only: canonLoop.simps list.map Let_def)
qed simp

lemma canonicalCases_ok:
  "list_all (\<lambda>(token, key). canonLoop True (str token) = str key) canonicalCases"
  by code_simp

lemma canonicalHeaderKey_eq:
  "(case canonicalHeaderKey name of Some key \<Rightarrow> key | None \<Rightarrow> canonicalHeaderKeyBytes name) =
     canonicalHeaderKeyBytes name"
proof (cases "switchFold canonicalCases name")
  case None
  then show ?thesis by (simp add: canonicalHeaderKey_def)
next
  case (Some key)
  then obtain token where t: "(token, key) \<in> set canonicalCases" "equalFoldToken name token"
    by (rule switchFold_SomeE)
  from t(1) canonicalCases_ok have "canonLoop True (str token) = str key" by (auto simp: list_all_iff)
  moreover have "map lowerByte name = str token" using t(2) by (simp add: equalFoldToken_eq)
  ultimately have "canonLoop True name = str key" using canonLoop_lower [of True name] by simp
  with Some show ?thesis by (simp add: canonicalHeaderKey_def canonicalHeaderKeyBytes_def)
qed

lemma addParsedHeader_eq: "addParsedHeader headers name v = addValue (canonicalHeaderKeyBytes name) v headers"
  using canonicalHeaderKey_eq [of name] by (auto simp: addParsedHeader_def split: option.splits)

text \<open>
  C38: header keys. The table of common names agrees with the general algorithm, and two names get
  the same key exactly when they are equal up to letter case, so headers that differ in case only
  are collected under one key and no others are.
\<close>

theorem canonicalHeaderKey_agrees:
  "(case canonicalHeaderKey name of Some key \<Rightarrow> key | None \<Rightarrow> canonicalHeaderKeyBytes name) =
     canonicalHeaderKeyBytes name \<and>
   (canonicalHeaderKeyBytes name = canonicalHeaderKeyBytes name' \<longleftrightarrow>
      map lowerByte name = map lowerByte name')"
proof
  show "(canonicalHeaderKeyBytes name = canonicalHeaderKeyBytes name') =
      (map lowerByte name = map lowerByte name')"
    unfolding canonicalHeaderKeyBytes_def by (metis canonLoop_lower lower_canonLoop)
qed (rule canonicalHeaderKey_eq)

section \<open>Header maps\<close>

text \<open>The values under a key, in order.\<close>

definition valuesOf :: "bytes \<Rightarrow> (bytes \<times> bytes) list \<Rightarrow> bytes list" where
  "valuesOf key phs = map snd (filter (\<lambda>(k, _). k = key) phs)"

lemma buildHeaders_snoc: "buildHeaders (phs @ [(k, v)]) = addValue k v (buildHeaders phs)"
  by (simp add: buildHeaders_def)

lemma buildHeaders_lookup:
  "buildHeaders phs key = (if valuesOf key phs = [] then None else Some (valuesOf key phs))"
proof (induction phs rule: rev_induct)
  case (snoc kv phs)
  obtain k v where "kv = (k, v)" by fastforce
  with snoc show ?case
    by (auto simp: buildHeaders_snoc addValue_def valuesOf_def split: option.splits if_splits)
qed (simp add: buildHeaders_def valuesOf_def)

section \<open>Reading does not depend on buffering\<close>

text \<open>Two readers with the same bytes ahead.\<close>

definition sameAhead :: "reader \<Rightarrow> reader \<Rightarrow> bool" where
  "sameAhead r1 r2 \<longleftrightarrow> unread r1 = unread r2 \<and> rd_end r1 = rd_end r2"

lemma readCRLFLine_same:
  assumes "sameAhead r1 r2"
  shows "fst (readCRLFLine r1) = fst (readCRLFLine r2)"
    and "sameAhead (snd (readCRLFLine r1)) (snd (readCRLFLine r2))"
  using assms by (simp_all add: sameAhead_def bufio.line_result bufio.line_rest bufio.line_end)

lemma readHeaders_same:
  "sameAhead r1 r2 \<Longrightarrow>
     fst (readHeaders st r1) = fst (readHeaders st r2) \<and>
     sameAhead (snd (readHeaders st r1)) (snd (readHeaders st r2))"
proof (induction st r1 arbitrary: r2 rule: readHeaders.induct)
  case (1 st r1)
  obtain res r1' where l1: "readCRLFLine r1 = (res, r1')" by fastforce
  obtain r2' where l2: "readCRLFLine r2 = (res, r2')" and same: "sameAhead r1' r2'"
    using readCRLFLine_same [OF "1.prems"] l1 by (cases "readCRLFLine r2") auto
  show ?case
    using "1.IH" l1 l2 same
    by (subst (1 2) readHeaders.simps, subst (3 4) readHeaders.simps)
      (auto split: sum.splits)
qed

text \<open>
  C5: \<^verbatim>\<open>ReadRequest\<close> does not depend on how the bytes arrive. Two connections with the same bytes
  ahead, however they are cut into reads and whatever the sizes of the buffers, give the same
  request or the same error, and the same bytes are left for the body and the next request.
\<close>

theorem ReadRequest_chunking:
  assumes "unread r1 = unread r2" and "rd_end r1 = rd_end r2"
  shows "fst (ReadRequest parseURI r1) = fst (ReadRequest parseURI r2) \<and>
     unread (snd (ReadRequest parseURI r1)) = unread (snd (ReadRequest parseURI r2))"
proof -
  have same: "sameAhead r1 r2" using assms by (simp add: sameAhead_def)
  obtain res r1' where l1: "readCRLFLine r1 = (res, r1')" by fastforce
  obtain r2' where l2: "readCRLFLine r2 = (res, r2')" and same': "sameAhead r1' r2'"
    using readCRLFLine_same [OF same] l1 by (cases "readCRLFLine r2") auto
  have hd: "\<exists>res r1'' r2''. readHeaders st r1' = (res, r1'') \<and> readHeaders st r2' = (res, r2'') \<and>
      unread r1'' = unread r2''" for st
    using readHeaders_same [OF same', of st]
    by (cases "readHeaders st r1'"; cases "readHeaders st r2'") (auto simp: sameAhead_def)
  show ?thesis
  proof (cases res)
    case (Inl e)
    with l1 l2 same' show ?thesis by (simp add: ReadRequest_def sameAhead_def)
  next
    case (Inr line)
    show ?thesis
    proof (cases "parseRequestLineBytes line")
      case None
      with l1 l2 Inr same' show ?thesis by (simp add: ReadRequest_def sameAhead_def)
    next
      case (Some rl)
      show ?thesis
      proof (cases "parseRequestURL parseURI (rl_Method rl) (rl_Target rl)")
        case (Inl e)
        with l1 l2 Inr Some same' show ?thesis by (simp add: ReadRequest_def sameAhead_def)
      next
        case url: (Inr u)
        from hd [of "\<lparr>hd_meta = newMeta REQUEST 0, hd_host = u_Host u, hd_close = False,
            hd_keepAlive = False, hd_headers = []\<rparr>"]
        obtain hres r1'' r2'' where
          h: "readHeaders \<lparr>hd_meta = newMeta REQUEST 0, hd_host = u_Host u, hd_close = False,
              hd_keepAlive = False, hd_headers = []\<rparr> r1' = (hres, r1'')"
            "readHeaders \<lparr>hd_meta = newMeta REQUEST 0, hd_host = u_Host u, hd_close = False,
              hd_keepAlive = False, hd_headers = []\<rparr> r2' = (hres, r2'')" "unread r1'' = unread r2''" by blast
        show ?thesis
          using l1 l2 Inr Some url h by (cases hres) (simp_all add: ReadRequest_def)
      qed
    qed
  qed
qed

theorem ReadRequest_chunking_witness:
  "fst (ReadRequest (\<lambda>_. Inl ErrReqMethod)
      \<lparr>rd_size = 16, rd_buf = [], rd_src = [str ''GET / HT'', str ''TP/1.1'' @ [CR], LF # CRLF], rd_end = ErrEOF\<rparr>) =
   fst (ReadRequest (\<lambda>_. Inl ErrReqMethod)
      \<lparr>rd_size = 4096, rd_buf = str ''GET / HTTP/1.1'' @ CRLF @ CRLF, rd_src = [], rd_end = ErrEOF\<rparr>)"
proof -
  let ?r1 = "\<lparr>rd_size = 16, rd_buf = [], rd_src = [str ''GET / HT'', str ''TP/1.1'' @ [CR], LF # CRLF], rd_end = ErrEOF\<rparr>"
  let ?r2 = "\<lparr>rd_size = 4096, rd_buf = str ''GET / HTTP/1.1'' @ CRLF @ CRLF, rd_src = [], rd_end = ErrEOF\<rparr>"
  have "unread ?r1 = unread ?r2" "rd_end ?r1 = rd_end ?r2" by (simp_all add: unread_def)
  from ReadRequest_chunking [OF this] show ?thesis by blast
qed

section \<open>What a request reads to\<close>

text \<open>The parts of the request a list of headers gives, from the headers alone.\<close>

definition isHostHeader :: "headerLine \<Rightarrow> bool" where
  "isHostHeader h = equalFoldToken (h_Name h) ''host''"

definition hostOf :: "headerLine list \<Rightarrow> bytes" where
  "hostOf hs =
     (case filter (\<lambda>h. isHostHeader h \<and> h_Value h \<noteq> []) hs of [] \<Rightarrow> [] | h # _ \<Rightarrow> h_Value h)"

definition hasConnectionToken :: "string \<Rightarrow> headerLine list \<Rightarrow> bool" where
  "hasConnectionToken token hs =
     list_ex (\<lambda>h. equalFoldToken (h_Name h) ''connection'' \<and> headerValueHasTokenBytes (h_Value h) token) hs"

definition storedHeaders :: "headerLine list \<Rightarrow> (bytes \<times> bytes) list" where
  "storedHeaders hs =
     map (\<lambda>h. (canonicalHeaderKeyBytes (h_Name h), h_Value h)) (filter (\<lambda>h. \<not> isHostHeader h) hs)"

definition afterHeaders :: "headState \<Rightarrow> messageMeta \<Rightarrow> headerLine list \<Rightarrow> headState" where
  "afterHeaders st meta hs =
     \<lparr>hd_meta = meta,
      hd_host = (if hd_host st = [] then hostOf hs else hd_host st),
      hd_close = (hd_close st \<or> hasConnectionToken ''close'' hs),
      hd_keepAlive = (hd_keepAlive st \<or> hasConnectionToken ''keep-alive'' hs),
      hd_headers = hd_headers st @ storedHeaders hs\<rparr>"

lemma not_both_host_connection:
  "equalFoldToken b ''host'' \<Longrightarrow> \<not> equalFoldToken b ''connection''"
  by (auto simp: equalFoldToken_eq)

lemma afterHeaders_Nil: "afterHeaders st (hd_meta st) [] = st"
  by (simp add: afterHeaders_def hostOf_def hasConnectionToken_def storedHeaders_def)

lemma noteRequestHeader_step:
  assumes "parseHeaderLineBytes line = Some h" and "applyHeaderMeta (hd_meta st) h = Some meta"
  shows "\<exists>st'. noteRequestHeader line st = Inr st' \<and> hd_meta st' = meta \<and>
           (\<forall>m hs. afterHeaders st' m hs = afterHeaders st m (h # hs))"
proof (cases "isHostHeader h")
  case True
  then have "\<not> equalFoldToken (h_Name h) ''connection''"
    by (simp add: isHostHeader_def not_both_host_connection)
  with True assms show ?thesis
    by (auto simp: noteRequestHeader_def afterHeaders_def hostOf_def hasConnectionToken_def Let_def
        storedHeaders_def isHostHeader_def)
next
  case False
  with assms show ?thesis
    by (auto simp: noteRequestHeader_def afterHeaders_def hostOf_def hasConnectionToken_def Let_def
        storedHeaders_def isHostHeader_def canonicalHeaderKey_eq)
qed

lemma readHeaders_render:
  assumes "list_all header_ok hs" and "list_all (\<lambda>h. length (renderHeader h) \<le> 4096) hs"
    and "applyMetas (hd_meta st) hs = Some meta"
    and "unread r = headerBlock (map renderHeader hs) @ raw"
  shows "\<exists>r'. readHeaders st r = (Inr (afterHeaders st meta hs), r') \<and> unread r' = raw"
  using assms
proof (induction hs arbitrary: st r)
  case Nil
  then have "unread r = [] @ CRLF @ raw" by (simp add: headerBlock_def)
  from bufio.line_append [OF this] Nil.prems(3) show ?case
    by (subst readHeaders.simps, cases "readCRLFLine r") (auto simp: afterHeaders_Nil)
next
  case (Cons h hs)
  from Cons.prems(1) have ok: "header_ok h" by simp
  have p: "parseHeaderLineBytes (renderHeader h) = Some h"
    using renderHeaders_parse [of "[h]"] ok by (simp add: headers_of_def)
  have nl: "LF \<notin> set (renderHeader h)" "renderHeader h \<noteq> []"
    using ok by (auto simp: renderHeader_def header_ok_def)
  from Cons.prems(3) obtain m1 where m1: "applyHeaderMeta (hd_meta st) h = Some m1"
    "applyMetas m1 hs = Some meta" by (auto simp: bind_eq_Some_conv split: option.splits)
  obtain st' where st': "noteRequestHeader (renderHeader h) st = Inr st'" "hd_meta st' = m1"
    "afterHeaders st' meta hs = afterHeaders st meta (h # hs)"
    using noteRequestHeader_step [OF p m1(1)] by blast
  have u: "unread r = renderHeader h @ CRLF @ (headerBlock (map renderHeader hs) @ raw)"
    using Cons.prems(4) by (simp add: headerBlock_def)
  from Cons.prems(2) have len: "length (renderHeader h) \<le> 4096" by simp
  obtain r1 where r1: "readCRLFLine r = (Inr (renderHeader h), r1)"
    "unread r1 = headerBlock (map renderHeader hs) @ raw"
    using bufio.line_append [OF u nl(1) len] by (cases "readCRLFLine r") auto
  have "applyMetas (hd_meta st') hs = Some meta" using m1 st'(2) by simp
  with Cons.IH [of st' r1] Cons.prems(1,2) r1(2) obtain r' where
    "readHeaders st' r1 = (Inr (afterHeaders st' meta hs), r')" "unread r' = raw" by auto
  with r1(1) st' nl(2) show ?case by (subst readHeaders.simps) simp
qed

lemma queryScan_plain:
  "PERCENT \<notin> set cs \<Longrightarrow> HASH \<notin> set cs \<Longrightarrow>
     queryScan i q cs =
       Some (case q of
               Some k \<Rightarrow> Some k
             | None \<Rightarrow> if QUESTION \<in> set cs then Some (i + length (takeWhile (\<lambda>c. c \<noteq> QUESTION) cs)) else None)"
  by (induction i q cs rule: queryScan.induct) (auto split: option.splits)

text \<open>A target in origin form without escapes: its path and the query behind the question mark.\<close>

definition plainTarget :: "bytes \<Rightarrow> bool" where
  "plainTarget t \<longleftrightarrow> t \<noteq> [] \<and> hd t = SLASH \<and> PERCENT \<notin> set t \<and> HASH \<notin> set t"

definition splitTarget :: "bytes \<Rightarrow> URL" where
  "splitTarget t =
     (let path = takeWhile (\<lambda>c. c \<noteq> QUESTION) t
      in \<lparr>u_Host = [], u_Path = path, u_RawQuery = drop (length path + 1) t\<rparr>)"

lemma parseRequestURL_plain:
  assumes "plainTarget t"
  shows "parseRequestURL parseURI method t = Inr (splitTarget t)"
proof -
  obtain cs where t: "t = SLASH # cs" using assms by (cases t) (auto simp: plainTarget_def)
  have "queryScan 1 None cs =
      Some (if QUESTION \<in> set cs then Some (1 + length (takeWhile (\<lambda>c. c \<noteq> QUESTION) cs)) else None)"
    using assms by (simp add: queryScan_plain plainTarget_def t)
  moreover have "take (Suc (length (takeWhile (\<lambda>c. c \<noteq> QUESTION) cs))) t = takeWhile (\<lambda>c. c \<noteq> QUESTION) t"
    by (simp add: t takeWhile_eq_take [symmetric])
  moreover have "takeWhile (\<lambda>c. c \<noteq> QUESTION) cs = cs" if "QUESTION \<notin> set cs"
    using that by (intro takeWhile_eq_all_conv [THEN iffD2]) auto
  ultimately show ?thesis
    by (cases "QUESTION \<in> set cs") (simp_all del: takeWhile_eq_all_conv add: parseRequestURL_def splitTarget_def t Let_def)
qed

section \<open>Printing and reading a request\<close>

text \<open>The request the server sees for a request line and headers, and how its body is framed.\<close>

definition expectedRequest :: "requestLine \<Rightarrow> headerLine list \<Rightarrow> messageMeta \<Rightarrow> Request" where
  "expectedRequest rl hs meta =
     \<lparr>req_Method = str (Method_String (rl_Method rl)), req_URL = splitTarget (rl_Target rl),
      req_Proto = str ''HTTP/'' @ [rl_Major rl + 48, DOT, rl_Minor rl + 48],
      req_ProtoMajor = uint (rl_Major rl), req_ProtoMinor = uint (rl_Minor rl),
      req_Header = (\<lambda>key. if valuesOf key (storedHeaders hs) = [] then None
                          else Some (valuesOf key (storedHeaders hs))),
      req_Host = hostOf hs, req_RequestURI = rl_Target rl,
      req_Close = (if rl_Major rl = 1 \<and> rl_Minor rl = 0 then \<not> hasConnectionToken ''keep-alive'' hs
                   else hasConnectionToken ''close'' hs),
      req_Body = (if m_hasTransferEncoding meta then ChunkedBody
                  else if sint (m_contentLength meta) > 0 then LimitedBody (sint (m_contentLength meta))
                  else NoBody),
      req_ContentLength = (if m_hasTransferEncoding meta then - 1 else sint (m_contentLength meta)),
      req_TransferEncoding = (if m_hasTransferEncoding meta then [str ''chunked''] else [])\<rparr>"

lemma itoa_digit: "d \<le> 9 \<Longrightarrow> itoa (unat (d :: byte)) = [d + 48]"
proof -
  assume "d \<le> 9"
  then have "unat d < 10" by (simp add: word_le_nat_alt)
  then show ?thesis by (simp add: itoa.simps add.commute)
qed

lemma httpVersionString_digits:
  "major \<le> 9 \<Longrightarrow> minor \<le> 9 \<Longrightarrow>
     httpVersionString major minor = str ''HTTP/'' @ [major + 48, DOT, minor + 48]"
  by (auto simp: httpVersionString_def itoa_digit)

text \<open>A framing that starts without a length keeps length zero until a length is noted.\<close>

lemma applyMetas_zero:
  assumes "applyMetas meta hs = Some meta'" and "m_hasContentLength meta \<or> m_contentLength meta = 0"
  shows "m_hasContentLength meta' \<or> m_contentLength meta' = 0"
  using assms
proof (induction hs arbitrary: meta)
  case (Cons h hs)
  then obtain m1 where m1: "applyHeaderMeta meta h = Some m1" "applyMetas m1 hs = Some meta'"
    by (auto split: option.splits)
  then have "m_hasContentLength m1 \<or> m_contentLength m1 = 0"
    using Cons.prems(2) by (auto simp: applyHeaderMeta_def split: if_splits option.splits)
  with Cons.IH m1(2) show ?case by blast
qed simp

lemma buildRequest_expected:
  assumes "requestLine_ok rl" and "applyMetas (newMeta REQUEST 0) hs = Some meta"
    and "st = \<lparr>hd_meta = newMeta REQUEST 0, hd_host = [], hd_close = False, hd_keepAlive = False, hd_headers = []\<rparr>"
  shows "buildRequest rl (splitTarget (rl_Target rl)) (afterHeaders st meta hs) = Inr (expectedRequest rl hs meta)"
proof -
  have kind: "m_kind meta = REQUEST" using applyMetas_kind [OF assms(2)] by (simp add: newMeta_def)
  have zero: "m_hasContentLength meta \<or> m_contentLength meta = 0"
    using applyMetas_zero [OF assms(2)] by (simp add: newMeta_def)
  have v: "httpVersionString (rl_Major rl) (rl_Minor rl) = str ''HTTP/'' @ [rl_Major rl + 48, DOT, rl_Minor rl + 48]"
    using assms(1) by (intro httpVersionString_digits) (simp_all add: requestLine_ok_def)
  show ?thesis
    using kind zero unfolding assms(3)
    by (auto simp: buildRequest_def Let_def afterHeaders_def expectedRequest_def v decideBodyMode_def
        shouldCloseAfterReadConnection_def buildHeaders_lookup fun_eq_iff)
qed

lemma ReadRequest_reads:
  assumes "requestLine_ok rl" and "plainTarget (rl_Target rl)" and "list_all header_ok hs"
    and "length (renderRequestLine rl) \<le> 4096" and "list_all (\<lambda>h. length (renderHeader h) \<le> 4096) hs"
    and "applyMetas (newMeta REQUEST 0) hs = Some meta"
    and "unread r = renderRequest rl hs raw"
  shows "fst (ReadRequest parseURI r) = Inr (expectedRequest rl hs meta) \<and>
     unread (snd (ReadRequest parseURI r)) = raw"
proof -
  let ?st = "\<lparr>hd_meta = newMeta REQUEST 0, hd_host = [], hd_close = False, hd_keepAlive = False, hd_headers = []\<rparr>"
  have u: "unread r = renderRequestLine rl @ CRLF @ (headerBlock (map renderHeader hs) @ raw)"
    using assms(7) by (simp add: renderRequest_def)
  have nl: "LF \<notin> set (renderRequestLine rl)" by (rule renderRequestLine_no_LF [OF assms(1)])
  obtain r1 where r1: "readCRLFLine r = (Inr (renderRequestLine rl), r1)"
    "unread r1 = headerBlock (map renderHeader hs) @ raw"
    using bufio.line_append [OF u nl assms(4)] by (cases "readCRLFLine r") auto
  have "applyMetas (hd_meta ?st) hs = Some meta" using assms(6) by simp
  from readHeaders_render [OF assms(3,5) this r1(2)] obtain r' where
    "readHeaders ?st r1 = (Inr (afterHeaders ?st meta hs), r')" "unread r' = raw" by blast
  then show ?thesis
    using r1(1) renderRequestLine_parses(1) [OF assms(1)] parseRequestURL_plain [OF assms(2)]
      buildRequest_expected [OF assms(1,6) refl]
    by (simp add: ReadRequest_def splitTarget_def Let_def)
qed

text \<open>
  C4: printing and reading a request. For a printed request line with a target in origin form and
  printed headers, each line at most 4096 bytes long, followed by any bytes, \<^verbatim>\<open>ReadRequest\<close> returns
  the request with that method, path, query, version, with every header but Host under its
  canonical key with its values in order, the first Host that is not empty, the connection's
  persistence, and the body framing of the headers. It consumes the head exactly: the bytes
  behind it stay unread. The standard library's URL parser is not called.
\<close>

theorem ReadRequest_render:
  assumes "requestLine_ok rl" and "plainTarget (rl_Target rl)" and "list_all header_ok hs"
    and "length (renderRequestLine rl) \<le> 4096" and "list_all (\<lambda>h. length (renderHeader h) \<le> 4096) hs"
    and "applyMetas (newMeta REQUEST 0) hs = Some meta"
    and "unread r = renderRequest rl hs raw"
  shows "fst (ReadRequest parseURI r) = Inr (expectedRequest rl hs meta) \<and>
     unread (snd (ReadRequest parseURI r)) = raw"
  by (rule ReadRequest_reads [OF assms])

theorem ReadRequest_render_witness:
  "\<exists>req r'.
     ReadRequest (\<lambda>_. Inl ErrReqMethod)
       \<lparr>rd_size = 16, rd_buf = [],
        rd_src = [str ''POST /a?b=1 HTTP/1.1'' @ CRLF @ str ''Host: h'', CRLF @ str ''content-LENGTH: 2'' @ CRLF @ CRLF @ str ''hi''],
        rd_end = ErrEOF\<rparr> = (Inr req, r') \<and>
     req_URL req = \<lparr>u_Host = [], u_Path = str ''/a'', u_RawQuery = str ''b=1''\<rparr> \<and> req_Host req = str ''h'' \<and>
     req_Header req (str ''Content-Length'') = Some [str ''2''] \<and> req_Body req = LimitedBody 2 \<and>
     unread r' = str ''hi''"
proof -
  let ?rl = "\<lparr>rl_Method = POST, rl_Target = str ''/a?b=1'', rl_Major = 1, rl_Minor = 1\<rparr>"
  let ?hs = "[\<lparr>h_Name = str ''Host'', h_Value = str ''h''\<rparr>, \<lparr>h_Name = str ''content-LENGTH'', h_Value = str ''2''\<rparr>]"
  let ?meta = "\<lparr>m_kind = REQUEST, m_statusCode = 0, m_hasContentLength = True,
      m_contentLength = 2, m_hasTransferEncoding = False\<rparr>"
  let ?r = "\<lparr>rd_size = 16, rd_buf = [],
      rd_src = [str ''POST /a?b=1 HTTP/1.1'' @ CRLF @ str ''Host: h'', CRLF @ str ''content-LENGTH: 2'' @ CRLF @ CRLF @ str ''hi''],
      rd_end = ErrEOF\<rparr>"
  have "requestLine_ok ?rl" "plainTarget (rl_Target ?rl)" "list_all header_ok ?hs"
    "length (renderRequestLine ?rl) \<le> 4096" "list_all (\<lambda>h. length (renderHeader h) \<le> 4096) ?hs"
    "applyMetas (newMeta REQUEST 0) ?hs = Some ?meta" "unread ?r = renderRequest ?rl ?hs (str ''hi'')"
    by code_simp+
  from ReadRequest_render [OF this, of "\<lambda>_. Inl ErrReqMethod"]
  have "fst (ReadRequest (\<lambda>_. Inl ErrReqMethod) ?r) = Inr (expectedRequest ?rl ?hs ?meta) \<and>
    unread (snd (ReadRequest (\<lambda>_. Inl ErrReqMethod) ?r)) = str ''hi''" .
  then have "ReadRequest (\<lambda>_. Inl ErrReqMethod) ?r =
      (Inr (expectedRequest ?rl ?hs ?meta), snd (ReadRequest (\<lambda>_. Inl ErrReqMethod) ?r))"
    "unread (snd (ReadRequest (\<lambda>_. Inl ErrReqMethod) ?r)) = str ''hi''" by (metis prod.collapse, blast)
  moreover have "req_URL (expectedRequest ?rl ?hs ?meta) = \<lparr>u_Host = [], u_Path = str ''/a'', u_RawQuery = str ''b=1''\<rparr>"
    "req_Host (expectedRequest ?rl ?hs ?meta) = str ''h''"
    "req_Header (expectedRequest ?rl ?hs ?meta) (str ''Content-Length'') = Some [str ''2'']"
    "req_Body (expectedRequest ?rl ?hs ?meta) = LimitedBody 2" by code_simp+
  ultimately show ?thesis by blast
qed

lemma addParsedHeader_builds:
  "foldl (\<lambda>headers h. addParsedHeader headers (h_Name h) (h_Value h)) Map.empty hs =
     buildHeaders (map (\<lambda>h. (canonicalHeaderKeyBytes (h_Name h), h_Value h)) hs)"
  by (induction hs rule: rev_induct) (simp_all add: buildHeaders_def addParsedHeader_eq)

end
