(* ===== verification/Buffered_Writer.thy ===== *)
theory Buffered_Writer
  imports Framing "HOL-Library.Sublist"
begin

text \<open>
  Go's \<^verbatim>\<open>bufio.Writer\<close> as the response writer uses it: \<^verbatim>\<open>Write\<close>, \<^verbatim>\<open>WriteString\<close> and \<^verbatim>\<open>Flush\<close>
  over a connection that may fail. The connection takes a number of bytes and then refuses: every
  behaviour of a connection that keeps the contract of \<^verbatim>\<open>io.Writer\<close> is one of these, because
  the writer does not write again after a failure. The interface its client uses is the locale
  \<open>byte_sink\<close>: what has been accepted is a prefix of what was written.
\<close>

section \<open>Definitions\<close>

datatype ioError = ErrHijacked | ErrAlreadyHijacked | ErrConn string | ConnUnavailable | NilDeref

text \<open>
  \<open>wr_size\<close> is the size asked for, \<open>wr_buf\<close> the buffered bytes, \<open>wr_err\<close> the error that sticks,
  \<open>wr_sent\<close> the bytes the connection has accepted and \<open>wr_room\<close> how many more it will accept
  (\<open>None\<close>: any number).
\<close>

record writer =
  wr_size :: nat
  wr_buf :: bytes
  wr_err :: "ioError option"
  wr_sent :: bytes
  wr_room :: "nat option"

definition writerSize :: "writer \<Rightarrow> nat" where
  "writerSize w = (if wr_size w = 0 then 4096 else wr_size w)"

definition available :: "writer \<Rightarrow> nat" where
  "available w = writerSize w - length (wr_buf w)"

text \<open>One \<^verbatim>\<open>Write\<close> of the connection: the number of bytes it took, and an error if not all.\<close>

definition connWrite :: "bytes \<Rightarrow> writer \<Rightarrow> nat \<times> ioError option \<times> writer" where
  "connWrite p w =
     (case wr_room w of
        None \<Rightarrow> (length p, None, w\<lparr>wr_sent := wr_sent w @ p\<rparr>)
      | Some k \<Rightarrow>
          if length p \<le> k
          then (length p, None, w\<lparr>wr_sent := wr_sent w @ p, wr_room := Some (k - length p)\<rparr>)
          else (k, Some (ErrConn ''write''), w\<lparr>wr_sent := wr_sent w @ take k p, wr_room := Some 0\<rparr>))"

definition flushWriter :: "writer \<Rightarrow> ioError option \<times> writer" where
  "flushWriter w =
     (case wr_err w of
        Some e \<Rightarrow> (Some e, w)
      | None \<Rightarrow>
          if wr_buf w = [] then (None, w)
          else
            (case connWrite (wr_buf w) w of
               (n, None, w') \<Rightarrow> (None, w'\<lparr>wr_buf := []\<rparr>)
             | (n, Some e, w') \<Rightarrow> (Some e, w'\<lparr>wr_buf := drop n (wr_buf w), wr_err := Some e\<rparr>)))"

lemma connWrite_frame:
  assumes "connWrite p w = (n, err, w')"
  shows "wr_size w' = wr_size w" "wr_buf w' = wr_buf w" "wr_err w' = wr_err w"
    and "wr_sent w' = wr_sent w @ take n p" "n \<le> length p" "err = None \<Longrightarrow> n = length p"
    and "wr_room w = None \<Longrightarrow> err = None \<and> wr_room w' = None"
  using assms by (auto simp: connWrite_def split: option.splits if_splits)

lemma flushWriter_cases:
  "(\<exists>e. wr_err w = Some e \<and> flushWriter w = (Some e, w)) \<or>
   (wr_err w = None \<and> (\<exists>w'. flushWriter w = (None, w') \<and> wr_err w' = None \<and> wr_buf w' = [] \<and>
      wr_sent w' = wr_sent w @ wr_buf w \<and> wr_size w' = wr_size w \<and>
      (wr_room w = None \<longrightarrow> wr_room w' = None))) \<or>
   (wr_err w = None \<and> wr_room w \<noteq> None \<and> (\<exists>e w' n. flushWriter w = (Some e, w') \<and> wr_err w' = Some e \<and>
      wr_sent w' = wr_sent w @ take n (wr_buf w) \<and> wr_size w' = wr_size w \<and>
      length (wr_buf w') \<le> length (wr_buf w)))"
proof (cases "wr_err w")
  case None
  obtain n err w' where c: "connWrite (wr_buf w) w = (n, err, w')" by (metis prod_cases3)
  note f = connWrite_frame [OF c]
  show ?thesis
    using None c f by (cases err) (auto simp: flushWriter_def)
qed (simp add: flushWriter_def)

definition loopMeasure :: "bytes \<Rightarrow> writer \<Rightarrow> nat" where
  "loopMeasure p w =
     (if wr_err w = None then 1 + 2 * length p + (if wr_buf w = [] then 0 else 1) else 0)"

lemma writeLoop_direct_decreases:
  assumes "available w < length p" "wr_err w = None" "connWrite p w = (n, err, w')"
  shows "loopMeasure (drop n p) (w'\<lparr>wr_err := err\<rparr>) < loopMeasure p w"
  using connWrite_frame [OF assms(3)] assms(1,2) by (auto simp: loopMeasure_def)

lemma writeLoop_copy_decreases:
  assumes "available w < length p" "wr_err w = None" "\<not> (wr_buf w = [] \<and> direct)"
  shows "loopMeasure (drop (available w) p) (snd (flushWriter (w\<lparr>wr_buf := wr_buf w @ take (available w) p\<rparr>))) < loopMeasure p w"
proof -
  have "available w > 0 \<or> wr_buf w \<noteq> []" by (auto simp: available_def writerSize_def)
  with flushWriter_cases [of "w\<lparr>wr_buf := wr_buf w @ take (available w) p\<rparr>"] assms(1,2)
  show ?thesis by (auto simp: loopMeasure_def)
qed

text \<open>
  The loop of \<^verbatim>\<open>Write\<close> and \<^verbatim>\<open>WriteString\<close>. With an empty buffer, \<^verbatim>\<open>Write\<close> hands the bytes to the
  connection directly (\<open>direct\<close>); \<^verbatim>\<open>WriteString\<close> does not, since the connection is no
  \<^verbatim>\<open>io.StringWriter\<close>.
\<close>

function writeLoop :: "bool \<Rightarrow> nat \<Rightarrow> bytes \<Rightarrow> writer \<Rightarrow> nat \<times> bytes \<times> writer" where
  "writeLoop direct nn p w =
     (if length p > available w \<and> wr_err w = None
      then
        if wr_buf w = [] \<and> direct
        then
          (case connWrite p w of (n, err, w) \<Rightarrow>
             writeLoop direct (nn + n) (drop n p) (w\<lparr>wr_err := err\<rparr>))
        else
          (let n = available w;
               w = snd (flushWriter (w\<lparr>wr_buf := wr_buf w @ take n p\<rparr>))
           in writeLoop direct (nn + n) (drop n p) w)
      else (nn, p, w))"
  by pat_completeness auto

termination
  by (relation "measure (\<lambda>(_, _, p, w). loopMeasure p w)")
    (use writeLoop_direct_decreases writeLoop_copy_decreases in auto)

declare writeLoop.simps [simp del]

definition bufWriteWith :: "bool \<Rightarrow> bytes \<Rightarrow> writer \<Rightarrow> nat \<times> ioError option \<times> writer" where
  "bufWriteWith direct p w =
     (case writeLoop direct 0 p w of (nn, p, w) \<Rightarrow>
        (case wr_err w of
           Some e \<Rightarrow> (nn, Some e, w)
         | None \<Rightarrow> (nn + length p, None, w\<lparr>wr_buf := wr_buf w @ p\<rparr>)))"

text \<open>What is written in one call: bytes by \<^verbatim>\<open>Write\<close>, a string by \<^verbatim>\<open>WriteString\<close>.\<close>

datatype piece = B bytes | S bytes

fun pieceBytes :: "piece \<Rightarrow> bytes" where
  "pieceBytes (B p) = p"
| "pieceBytes (S p) = p"

fun writePiece :: "piece \<Rightarrow> writer \<Rightarrow> nat \<times> ioError option \<times> writer" where
  "writePiece (B p) w = bufWriteWith True p w"
| "writePiece (S p) w = bufWriteWith False p w"

text \<open>
  A sequence of writes that stops at the first error, as in
  \<^verbatim>\<open>if _, err := w.bufWriter.Write(x); err != nil { return err }\<close> one after the other.
\<close>

fun writesWith :: "(piece \<Rightarrow> 'w \<Rightarrow> nat \<times> ioError option \<times> 'w) \<Rightarrow> piece list \<Rightarrow> 'w \<Rightarrow> ioError option \<times> 'w" where
  "writesWith write [] w = (None, w)"
| "writesWith write (p # ps) w =
     (case write p w of
        (n, Some e, w) \<Rightarrow> (Some e, w)
      | (n, None, w) \<Rightarrow> writesWith write ps w)"

section \<open>The interface\<close>

locale byte_sink =
  fixes written :: "'w \<Rightarrow> bytes"
    and accepted :: "'w \<Rightarrow> bytes"
    and healthy :: "'w \<Rightarrow> bool"
    and write_op :: "piece \<Rightarrow> 'w \<Rightarrow> nat \<times> ioError option \<times> 'w"
    and flush_op :: "'w \<Rightarrow> ioError option \<times> 'w"
  assumes accepted_written: "prefix (accepted w) (written w)"
    and write_ok: "write_op p w = (n, None, w') \<Longrightarrow> written w' = written w @ pieceBytes p \<and> n = length (pieceBytes p)"
    and write_err: "write_op p w = (n, Some e, w') \<Longrightarrow> prefix (accepted w') (written w @ pieceBytes p)"
    and write_healthy: "healthy w \<Longrightarrow> \<exists>n w'. write_op p w = (n, None, w') \<and> healthy w'"
    and flush_ok: "flush_op w = (None, w') \<Longrightarrow> written w' = written w \<and> accepted w' = written w"
    and flush_err: "flush_op w = (Some e, w') \<Longrightarrow> prefix (accepted w') (written w)"
    and flush_healthy: "healthy w \<Longrightarrow> \<exists>w'. flush_op w = (None, w') \<and> healthy w'"
begin

lemma writes_ok:
  "writesWith write_op ps w = (None, w') \<Longrightarrow> written w' = written w @ concat (map pieceBytes ps)"
proof (induction ps arbitrary: w)
  case (Cons p ps)
  then obtain n w1 where "write_op p w = (n, None, w1)" "writesWith write_op ps w1 = (None, w')"
    by (auto split: prod.splits option.splits)
  with Cons.IH write_ok show ?case by fastforce
qed simp

lemma writes_err:
  "writesWith write_op ps w = (Some e, w') \<Longrightarrow> prefix (accepted w') (written w @ concat (map pieceBytes ps))"
proof (induction ps arbitrary: w)
  case (Cons p ps)
  obtain n err w1 where w1: "write_op p w = (n, err, w1)" by (metis prod_cases3)
  show ?case
  proof (cases err)
    case None
    with Cons.IH [of w1] Cons.prems w1 write_ok [of p w n w1] show ?thesis by simp
  next
    case (Some e')
    with Cons.prems w1 write_err [of p w n e' w1] show ?thesis
      by (simp, metis append.assoc prefix_append)
  qed
qed simp

lemma writes_healthy:
  "healthy w \<Longrightarrow> \<exists>w'. writesWith write_op ps w = (None, w') \<and> healthy w'"
proof (induction ps arbitrary: w)
  case (Cons p ps)
  obtain n w1 where "write_op p w = (n, None, w1)" "healthy w1"
    using write_healthy [OF Cons.prems] by blast
  with Cons.IH [of w1] show ?case by simp
qed simp

end

text \<open>What has been written, and a writer that has not failed over a connection that will not.\<close>

definition stream :: "writer \<Rightarrow> bytes" where
  "stream w = wr_sent w @ wr_buf w"

definition soundWriter :: "writer \<Rightarrow> bool" where
  "soundWriter w \<longleftrightarrow> wr_err w = None \<and> wr_room w = None"

lemma flush_stream:
  assumes "flushWriter w = (err, w')"
  shows "wr_err w' = err" "prefix (wr_sent w') (stream w)" "err = None \<Longrightarrow> stream w' = stream w"
    and "err = None \<Longrightarrow> wr_sent w' = stream w" "soundWriter w \<Longrightarrow> soundWriter w'"
  using flushWriter_cases [of w] assms
  by (auto simp: stream_def soundWriter_def take_is_prefix)

lemma writeLoop_direct:
  assumes "connWrite p w = (n, err, w1)" "wr_buf w = []" "wr_err w = None"
  shows "stream (w1\<lparr>wr_err := err\<rparr>) @ drop n p = stream w @ p" "n \<le> length p"
    and "soundWriter w \<Longrightarrow> soundWriter (w1\<lparr>wr_err := err\<rparr>)"
  using connWrite_frame [OF assms(1)] assms(2,3) by (auto simp: stream_def soundWriter_def)

lemma writeLoop_stop: "wr_err w = Some e \<Longrightarrow> writeLoop direct nn p w = (nn, p, w)"
  by (subst writeLoop.simps) simp

lemma writeLoop_spec:
  assumes "writeLoop direct nn p w = (nn', p', w')"
  shows "(wr_err w' = None \<longrightarrow> stream w' @ p' = stream w @ p \<and> nn' + length p' = nn + length p) \<and>
    prefix (wr_sent w') (stream w @ p) \<and> (soundWriter w \<longrightarrow> soundWriter w')"
  using assms
proof (induction direct nn p w rule: writeLoop.induct)
  case (1 direct nn p w)
  show ?case
  proof (cases "length p > available w \<and> wr_err w = None")
    case False
    with "1.prems" show ?thesis by (subst (asm) writeLoop.simps) (auto simp: stream_def)
  next
    case go: True
    show ?thesis
    proof (cases "wr_buf w = [] \<and> direct")
      case True
      obtain n err w1 where c: "connWrite p w = (n, err, w1)" by (metis prod_cases3)
      have rec: "writeLoop direct (nn + n) (drop n p) (w1\<lparr>wr_err := err\<rparr>) = (nn', p', w')"
        using "1.prems" go True c by (subst (asm) writeLoop.simps) simp
      note ih = "1.IH"(1) [OF go True c [symmetric] refl rec]
      have eq: "stream (w1\<lparr>wr_err := err\<rparr>) @ drop n p = stream w @ p" and le: "n \<le> length p"
        and sw: "soundWriter w \<Longrightarrow> soundWriter (w1\<lparr>wr_err := err\<rparr>)" using writeLoop_direct [OF c] go True by simp_all
      have "nn + n + (length p - n) = nn + length p" using le by simp
      from ih [unfolded eq length_drop this] sw show ?thesis by blast
    next
      case False
      let ?w = "w\<lparr>wr_buf := wr_buf w @ take (available w) p\<rparr>"
      obtain err w1 where fl: "flushWriter ?w = (err, w1)" by fastforce
      note f = flush_stream [OF fl]
      have st: "stream ?w @ drop (available w) p = stream w @ p" by (simp add: stream_def)
      have sw: "soundWriter ?w = soundWriter w" by (simp add: soundWriter_def)
      have rec: "writeLoop direct (nn + available w) (drop (available w) p) w1 = (nn', p', w')"
        using "1.prems" go False fl by (subst (asm) writeLoop.simps) (simp add: Let_def)
      show ?thesis
      proof (cases err)
        case None
        have rec': "writeLoop direct (nn + available w) (drop (available w) p) (snd (flushWriter ?w)) = (nn', p', w')"
          using rec fl by simp
        note ih = "1.IH"(2) [OF go False refl refl rec']
        have "nn + available w + (length p - available w) = nn + length p" using go by simp
        from ih [unfolded fl snd_conv f(3) [OF None] st length_drop this] f(5) sw show ?thesis by blast
      next
        case (Some e)
        with rec f(1) have "w' = w1" by (simp add: writeLoop_stop)
        have "prefix (wr_sent w1) (stream w @ p)" using f(2) unfolding st [symmetric] by (rule prefix_prefix)
        with f(1,5) Some sw \<open>w' = w1\<close> show ?thesis by simp
      qed
    qed
  qed
qed

lemma bufWriteWith_stream:
  assumes "bufWriteWith direct p w = (n, err, w')"
  shows "err = None \<Longrightarrow> stream w' = stream w @ p \<and> n = length p" "prefix (wr_sent w') (stream w @ p)"
    and "soundWriter w \<Longrightarrow> err = None \<and> soundWriter w'"
proof -
  obtain nn p1 w1 where l: "writeLoop direct 0 p w = (nn, p1, w1)" by (metis prod_cases3)
  note spec = writeLoop_spec [OF l]
  show "err = None \<Longrightarrow> stream w' = stream w @ p \<and> n = length p" "prefix (wr_sent w') (stream w @ p)"
    "soundWriter w \<Longrightarrow> err = None \<and> soundWriter w'"
    using assms l spec
    by (auto simp: bufWriteWith_def stream_def soundWriter_def split: option.splits)
qed

lemma writePiece_stream:
  assumes "writePiece q w = (n, err, w')"
  shows "err = None \<Longrightarrow> stream w' = stream w @ pieceBytes q \<and> n = length (pieceBytes q)"
    and "prefix (wr_sent w') (stream w @ pieceBytes q)"
    and "soundWriter w \<Longrightarrow> err = None \<and> soundWriter w'"
  using assms bufWriteWith_stream by (cases q; auto)+

interpretation bw: byte_sink stream wr_sent soundWriter writePiece flushWriter
proof
  fix w w' :: writer and q n e
  show "prefix (wr_sent w) (stream w)" by (simp add: stream_def)
  show "writePiece q w = (n, None, w') \<Longrightarrow> stream w' = stream w @ pieceBytes q \<and> n = length (pieceBytes q)"
    using writePiece_stream(1) by blast
  show "writePiece q w = (n, Some e, w') \<Longrightarrow> prefix (wr_sent w') (stream w @ pieceBytes q)"
    using writePiece_stream(2) by blast
  show "soundWriter w \<Longrightarrow> \<exists>n w'. writePiece q w = (n, None, w') \<and> soundWriter w'"
    using writePiece_stream(3) [of q w] by (metis prod_cases3)
  show "flushWriter w = (None, w') \<Longrightarrow> stream w' = stream w \<and> wr_sent w' = stream w"
    using flush_stream(3,4) by blast
  show "flushWriter w = (Some e, w') \<Longrightarrow> prefix (wr_sent w') (stream w)"
    using flush_stream(2) by blast
  show "soundWriter w \<Longrightarrow> \<exists>w'. flushWriter w = (None, w') \<and> soundWriter w'"
    using flush_stream(1,5) [of w] by (metis prod.collapse soundWriter_def)
qed

end
