(* ===== verification/App_Context.thy ===== *)
theory App_Context
  imports Hop_Prelude
begin

text \<open>
  \<^verbatim>\<open>appcontext/appcontext.go\<close>: the request context and its pool. Pointers to connections, readers,
  writers and parent contexts are handles; a read handler is a handle too, and the callback that
  \<^verbatim>\<open>SetReadHandler\<close> calls acts on the read handlers of the connection states.
\<close>

section \<open>Definitions\<close>

type_synonym objId = nat
type_synonym readHandlers = "objId \<Rightarrow> objId option"

record RequestContext =
  c_conn :: "objId option"
  c_req :: "objId option"
  c_reader :: "objId option"
  c_writer :: "objId option"
  c_remoteAddr :: bytes
  c_onSetReadHandler :: "(objId \<Rightarrow> readHandlers \<Rightarrow> readHandlers) option"

text \<open>\<^verbatim>\<open>new(RequestContext)\<close>\<close>

definition zeroContext :: RequestContext where
  "zeroContext = \<lparr>c_conn = None, c_req = None, c_reader = None, c_writer = None, c_remoteAddr = [],
     c_onSetReadHandler = None\<rparr>"

text \<open>
  \<^verbatim>\<open>sync.Pool\<close>: \<^verbatim>\<open>Get\<close> may return any object of the pool and takes it out, or makes a new one, also
  when the pool is not empty. The choice is the argument \<open>i\<close>; an index out of range makes a new
  object.
\<close>

definition poolGet :: "'a \<Rightarrow> nat \<Rightarrow> 'a list \<Rightarrow> 'a \<times> 'a list" where
  "poolGet new i pool = (if i < length pool then (pool ! i, take i pool @ drop (i + 1) pool) else (new, pool))"

definition poolPut :: "'a \<Rightarrow> 'a list \<Rightarrow> 'a list" where
  "poolPut x pool = x # pool"

definition NewRequestContext ::
    "objId option \<Rightarrow> objId option \<Rightarrow> objId option \<Rightarrow> objId option \<Rightarrow> nat \<Rightarrow>
     RequestContext list \<Rightarrow> RequestContext \<times> RequestContext list" where
  "NewRequestContext conn parent rd wr i pool =
     (case poolGet zeroContext i pool of (c, pool) \<Rightarrow>
        (c\<lparr>c_conn := conn, c_req := parent, c_reader := rd, c_writer := wr\<rparr>, pool))"

definition ctx_SetReadHandler :: "objId \<Rightarrow> RequestContext \<Rightarrow> readHandlers \<Rightarrow> readHandlers" where
  "ctx_SetReadHandler h c handlers =
     (case c_onSetReadHandler c of Some cb \<Rightarrow> cb h handlers | None \<Rightarrow> handlers)"

definition SetOnSetReadHandler ::
    "(objId \<Rightarrow> readHandlers \<Rightarrow> readHandlers) option \<Rightarrow> RequestContext \<Rightarrow> RequestContext" where
  "SetOnSetReadHandler cb c = c\<lparr>c_onSetReadHandler := cb\<rparr>"

definition ctx_reset :: "RequestContext \<Rightarrow> RequestContext" where
  "ctx_reset c = c\<lparr>c_conn := None, c_req := None, c_reader := None, c_writer := None, c_remoteAddr := [],
     c_onSetReadHandler := None\<rparr>"

definition ctx_Release :: "RequestContext \<Rightarrow> RequestContext list \<Rightarrow> RequestContext list" where
  "ctx_Release c pool = poolPut (ctx_reset c) pool"

definition ctx_Conn :: "RequestContext \<Rightarrow> objId option" where
  "ctx_Conn c = c_conn c"

definition ctx_Req :: "RequestContext \<Rightarrow> objId option" where
  "ctx_Req c = c_req c"

definition GetReader :: "RequestContext \<Rightarrow> objId option" where
  "GetReader c = c_reader c"

definition GetWriter :: "RequestContext \<Rightarrow> objId option" where
  "GetWriter c = c_writer c"

definition SetRemoteAddrString :: "bytes \<Rightarrow> RequestContext \<Rightarrow> RequestContext" where
  "SetRemoteAddrString addr c = c\<lparr>c_remoteAddr := addr\<rparr>"

definition RemoteAddrString :: "RequestContext \<Rightarrow> bytes" where
  "RemoteAddrString c = c_remoteAddr c"

section \<open>Object pools\<close>

text \<open>
  The contract of a pool of recycled objects: the constructor's object is clean, an object is
  cleaned before it is put back, and initialising a clean object does not depend on which clean
  object it is. Then whatever the pool holds, a fresh object is the same.
\<close>

locale recycled =
  fixes new_obj :: 'a
    and clean :: "'a \<Rightarrow> bool"
    and wipe :: "'a \<Rightarrow> 'a"
    and init :: "'b \<Rightarrow> 'a \<Rightarrow> 'a"
  assumes clean_new: "clean new_obj"
    and clean_wipe: "clean (wipe x)"
    and init_clean: "clean x \<Longrightarrow> init a x = init a new_obj"
begin

lemma get_clean: "list_all clean pool \<Longrightarrow> clean (fst (poolGet new_obj i pool))"
  by (auto simp: poolGet_def clean_new list_all_length)

lemma get_rest: "list_all clean pool \<Longrightarrow> list_all clean (snd (poolGet new_obj i pool))"
  by (auto simp: poolGet_def list_all_iff dest: in_set_takeD in_set_dropD)

lemma put_clean: "list_all clean pool \<Longrightarrow> list_all clean (poolPut (wipe x) pool)"
  by (simp add: poolPut_def clean_wipe)

lemma fresh: "list_all clean pool \<Longrightarrow> init a (fst (poolGet new_obj i pool)) = init a new_obj"
  by (rule init_clean [OF get_clean])

end

interpretation ctxPool: recycled zeroContext "\<lambda>c. c = zeroContext" ctx_reset
  "\<lambda>(conn, parent, rd, wr) c. c\<lparr>c_conn := conn, c_req := parent, c_reader := rd, c_writer := wr\<rparr>"
  by unfold_locales (auto simp: zeroContext_def ctx_reset_def)

text \<open>Pools that arise from the empty one by taking contexts out, using them, and releasing them.\<close>

inductive ctxPool_reach :: "RequestContext list \<Rightarrow> bool" where
  empty: "ctxPool_reach []"
| taken: "ctxPool_reach pool \<Longrightarrow> NewRequestContext conn parent rd wr i pool = (c, pool') \<Longrightarrow> ctxPool_reach pool'"
| released: "ctxPool_reach pool \<Longrightarrow> ctxPool_reach (ctx_Release c pool)"

lemma ctxPool_reach_clean: "ctxPool_reach pool \<Longrightarrow> list_all (\<lambda>c. c = zeroContext) pool"
proof (induction rule: ctxPool_reach.induct)
  case (taken pool conn parent rd wr i c pool')
  then show ?case
    using ctxPool.get_rest [of pool i] by (auto simp: NewRequestContext_def split: prod.splits)
next
  case (released pool c)
  then show ?case using ctxPool.put_clean [of pool c] by (simp add: ctx_Release_def)
qed simp

section \<open>Properties\<close>

text \<open>
  No request sees another's context. Whatever has been released to the pool and whichever
  object the pool hands out, a new request context has the connection, parent, reader and writer
  it was asked for, an empty remote address and no callback, so that setting a read handler on
  it changes nothing until a callback is installed.
\<close>

lemma NewRequestContext_isolated:
  assumes "ctxPool_reach pool"
  shows "fst (NewRequestContext conn parent rd wr i pool) =
       \<lparr>c_conn = conn, c_req = parent, c_reader = rd, c_writer = wr, c_remoteAddr = [],
        c_onSetReadHandler = None\<rparr> \<and>
     ctx_SetReadHandler h (fst (NewRequestContext conn parent rd wr i pool)) handlers = handlers"
proof -
  have "fst (NewRequestContext conn parent rd wr i pool) =
      zeroContext\<lparr>c_conn := conn, c_req := parent, c_reader := rd, c_writer := wr\<rparr>"
    using ctxPool.fresh [OF ctxPool_reach_clean [OF assms], of "(conn, parent, rd, wr)" i]
    by (cases "poolGet zeroContext i pool") (simp add: NewRequestContext_def)
  then show ?thesis by (simp add: ctx_SetReadHandler_def zeroContext_def)
qed

end
