(* ===== verification/Response_Writer.thy ===== *)
theory Response_Writer
  imports Read_Request Buffered_Writer App_Context "HOL-Library.List_Lexorder" "HOL-Library.AList"
begin

text \<open>
  The response writer of \<^verbatim>\<open>adaptor/adaptor.go\<close>: the header map, the decision between a length and
  chunks, the buffering of the first write, flushing, hijacking and the end of a response, over
  the buffered writer of theory \<open>Buffered_Writer\<close>. \<^verbatim>\<open>http.DetectContentType\<close> is the argument
  \<open>detect\<close> and the cached date, which a goroutine replaces every second, the argument \<open>date\<close>.
\<close>

section \<open>Definitions\<close>

subsection \<open>Header maps and what the standard library writes of them\<close>

text \<open>An \<^verbatim>\<open>http.Header\<close> is a list of keys with their values; every key occurs once.\<close>

type_synonym headerMap = "(bytes \<times> bytes list) list"

definition firstHeaderValue :: "headerMap \<Rightarrow> bytes \<Rightarrow> bytes" where
  "firstHeaderValue headers key =
     (case map_of headers key of Some (v # _) \<Rightarrow> v | _ \<Rightarrow> [])"

definition setSingleHeaderValue :: "bytes \<Rightarrow> bytes \<Rightarrow> headerMap \<Rightarrow> headerMap" where
  "setSingleHeaderValue key value headers = AList.update key [value] headers"

text \<open>
  \<^verbatim>\<open>http.Header.Write\<close>: the entries in the order of their keys, without those whose key is not a
  token; line ends in a value become spaces and the space around it goes.
\<close>

definition isTokenByte :: "byte \<Rightarrow> bool" where
  "isTokenByte c \<longleftrightarrow>
     48 \<le> c \<and> c \<le> 57 \<or> 65 \<le> c \<and> c \<le> 90 \<or> 97 \<le> c \<and> c \<le> 122 \<or>
     c \<in> set [33, 35, 36, 37, 38, 39, 42, 43, 45, 46, 94, 95, 96, 124, 126]"

definition validHeaderFieldName :: "bytes \<Rightarrow> bool" where
  "validHeaderFieldName key \<longleftrightarrow> key \<noteq> [] \<and> list_all isTokenByte key"

definition cleanValue :: "bytes \<Rightarrow> bytes" where
  "cleanValue v = trimOWS (map (\<lambda>c. if c = LF \<or> c = CR then SP else c) v)"

definition sortedEntries :: "headerMap \<Rightarrow> headerMap" where
  "sortedEntries headers = filter (\<lambda>(key, _). validHeaderFieldName key) (sort_key fst headers)"

definition headerPieces :: "headerMap \<Rightarrow> piece list" where
  "headerPieces headers =
     concat (map (\<lambda>(key, vs). concat (map (\<lambda>v. [S key, S (str '': ''), S (cleanValue v), S CRLF]) vs))
       (sortedEntries headers))"

text \<open>\<^verbatim>\<open>http.StatusText\<close>\<close>

definition statusTexts :: "(int \<times> string) list" where
  "statusTexts =
     [(100, ''Continue''), (101, ''Switching Protocols''), (102, ''Processing''), (103, ''Early Hints''),
      (200, ''OK''), (201, ''Created''), (202, ''Accepted''), (203, ''Non-Authoritative Information''),
      (204, ''No Content''), (205, ''Reset Content''), (206, ''Partial Content''), (207, ''Multi-Status''),
      (208, ''Already Reported''), (226, ''IM Used''), (300, ''Multiple Choices''),
      (301, ''Moved Permanently''), (302, ''Found''), (303, ''See Other''), (304, ''Not Modified''),
      (305, ''Use Proxy''), (307, ''Temporary Redirect''), (308, ''Permanent Redirect''),
      (400, ''Bad Request''), (401, ''Unauthorized''), (402, ''Payment Required''), (403, ''Forbidden''),
      (404, ''Not Found''), (405, ''Method Not Allowed''), (406, ''Not Acceptable''),
      (407, ''Proxy Authentication Required''), (408, ''Request Timeout''), (409, ''Conflict''),
      (410, ''Gone''), (411, ''Length Required''), (412, ''Precondition Failed''),
      (413, ''Request Entity Too Large''), (414, ''Request URI Too Long''),
      (415, ''Unsupported Media Type''), (416, ''Requested Range Not Satisfiable''),
      (417, ''Expectation Failed''), (418, ''I'm a teapot''), (421, ''Misdirected Request''),
      (422, ''Unprocessable Entity''), (423, ''Locked''), (424, ''Failed Dependency''),
      (425, ''Too Early''), (426, ''Upgrade Required''), (428, ''Precondition Required''),
      (429, ''Too Many Requests''), (431, ''Request Header Fields Too Large''),
      (451, ''Unavailable For Legal Reasons''), (500, ''Internal Server Error''),
      (501, ''Not Implemented''), (502, ''Bad Gateway''), (503, ''Service Unavailable''),
      (504, ''Gateway Timeout''), (505, ''HTTP Version Not Supported''),
      (506, ''Variant Also Negotiates''), (507, ''Insufficient Storage''), (508, ''Loop Detected''),
      (510, ''Not Extended''), (511, ''Network Authentication Required'')]"

definition StatusText :: "int \<Rightarrow> bytes" where
  "StatusText code = (case map_of statusTexts code of Some t \<Rightarrow> str t | None \<Rightarrow> [])"

definition itoaInt :: "int \<Rightarrow> bytes" where
  "itoaInt n = (if n < 0 then DASH # itoa (nat (- n)) else itoa (nat n))"

subsection \<open>The writer\<close>

text \<open>
  The buffered writer belongs to the connection; while a request is handled the response writer
  alone uses it, so it is kept here by value. It is nil after \<^verbatim>\<open>Hijack\<close> and \<^verbatim>\<open>Release\<close>.
\<close>

record ResponseWriter =
  rw_ctx :: "RequestContext option"
  rw_header :: headerMap
  rw_trailer :: headerMap
  rw_statusCode :: int
  rw_hijacked :: bool
  rw_headerSent :: bool
  rw_chunked :: bool
  rw_bufWriter :: "writer option"
  rw_pending :: bytes

definition zeroResponseWriter :: ResponseWriter where
  "zeroResponseWriter =
     \<lparr>rw_ctx = None, rw_header = [], rw_trailer = [], rw_statusCode = 0, rw_hijacked = False,
      rw_headerSent = False, rw_chunked = False, rw_bufWriter = None, rw_pending = []\<rparr>"

text \<open>\<^verbatim>\<open>NewResponseWriter\<close> on the object \<open>w\<close> the pool returned.\<close>

definition initResponseWriter :: "RequestContext \<times> writer option \<Rightarrow> ResponseWriter \<Rightarrow> ResponseWriter" where
  "initResponseWriter a w =
     (case a of (ctx, bw) \<Rightarrow>
        w\<lparr>rw_ctx := Some ctx, rw_statusCode := 200, rw_hijacked := False, rw_headerSent := False,
          rw_chunked := False, rw_pending := [], rw_bufWriter := bw\<rparr>)"

definition NewResponseWriter ::
    "RequestContext \<Rightarrow> writer option \<Rightarrow> nat \<Rightarrow> ResponseWriter list \<Rightarrow> ResponseWriter \<times> ResponseWriter list" where
  "NewResponseWriter ctx bw i pool =
     (case poolGet zeroResponseWriter i pool of (w, pool) \<Rightarrow> (initResponseWriter (ctx, bw) w, pool))"

text \<open>The maps and the pending slice are emptied or replaced by new ones, by their size.\<close>

definition wipeResponseWriter :: "ResponseWriter \<Rightarrow> ResponseWriter" where
  "wipeResponseWriter w =
     w\<lparr>rw_bufWriter := None, rw_ctx := None, rw_statusCode := 0, rw_hijacked := False,
       rw_headerSent := False, rw_chunked := False, rw_pending := [], rw_header := [], rw_trailer := []\<rparr>"

definition rw_Release :: "ResponseWriter \<Rightarrow> ResponseWriter list \<Rightarrow> ResponseWriter list" where
  "rw_Release w pool = poolPut (wipeResponseWriter w) pool"

text \<open>
  Calls of the buffered writer, one after the other up to the first error; a nil writer is a
  panic, written as the error \<open>NilDeref\<close>, which ends the operation as an error does.
\<close>

definition put :: "piece list \<Rightarrow> ResponseWriter \<Rightarrow> ioError option \<times> ResponseWriter" where
  "put ps w =
     (case rw_bufWriter w of
        None \<Rightarrow> (Some NilDeref, w)
      | Some bw \<Rightarrow> (case writesWith writePiece ps bw of (err, bw) \<Rightarrow> (err, w\<lparr>rw_bufWriter := Some bw\<rparr>)))"

definition putCount :: "piece \<Rightarrow> ResponseWriter \<Rightarrow> (nat \<times> ioError option) \<times> ResponseWriter" where
  "putCount q w =
     (case rw_bufWriter w of
        None \<Rightarrow> ((0, Some NilDeref), w)
      | Some bw \<Rightarrow> (case writePiece q bw of (n, err, bw) \<Rightarrow> ((n, err), w\<lparr>rw_bufWriter := Some bw\<rparr>)))"

definition flushBuffer :: "ResponseWriter \<Rightarrow> ioError option \<times> ResponseWriter" where
  "flushBuffer w =
     (case rw_bufWriter w of
        None \<Rightarrow> (Some NilDeref, w)
      | Some bw \<Rightarrow> (case flushWriter bw of (err, bw) \<Rightarrow> (err, w\<lparr>rw_bufWriter := Some bw\<rparr>)))"

definition headerContentLength :: bytes where "headerContentLength = str ''Content-Length''"
definition headerContentType :: bytes where "headerContentType = str ''Content-Type''"
definition headerTransferEnc :: bytes where "headerTransferEnc = str ''Transfer-Encoding''"
definition headerDateKey :: bytes where "headerDateKey = str ''Date''"

definition writeChunkHeader :: "nat \<Rightarrow> ResponseWriter \<Rightarrow> ioError option \<times> ResponseWriter" where
  "writeChunkHeader n w = put [B (appendInt16 n), B CRLF] w"

definition writeChunkTrailer :: "ResponseWriter \<Rightarrow> ioError option \<times> ResponseWriter" where
  "writeChunkTrailer w = put [B CRLF] w"

definition WriteHeader :: "int \<Rightarrow> ResponseWriter \<Rightarrow> ResponseWriter" where
  "WriteHeader code w = (if rw_hijacked w \<or> rw_headerSent w then w else w\<lparr>rw_statusCode := code\<rparr>)"

text \<open>\<^verbatim>\<open>ensureHeaderSent\<close>, first the condition of its fast path.\<close>

definition fastHead :: "ResponseWriter \<Rightarrow> bool" where
  "fastHead w \<longleftrightarrow>
     rw_statusCode w = 200 \<and> rw_trailer w = [] \<and> firstHeaderValue (rw_header w) headerDateKey = [] \<and>
     firstHeaderValue (rw_header w) headerTransferEnc = [] \<and>
     firstHeaderValue (rw_header w) headerContentLength \<noteq> [] \<and> length (rw_header w) \<le> 2 \<and>
     (length (rw_header w) = 1 \<or>
      length (rw_header w) = 2 \<and> firstHeaderValue (rw_header w) headerContentType \<noteq> [])"

definition fastHeadPieces :: "bytes \<Rightarrow> headerMap \<Rightarrow> piece list" where
  "fastHeadPieces date headers =
     [S (str ''HTTP/1.1 200 OK'' @ CRLF), B (str ''Date: ''), S date, B CRLF] @
     (if firstHeaderValue headers headerContentType \<noteq> []
      then [B (str ''Content-Type: ''), S (firstHeaderValue headers headerContentType), B CRLF] else []) @
     [B (str ''Content-Length: ''), S (firstHeaderValue headers headerContentLength), B CRLF, B CRLF]"

definition statusLine :: "int \<Rightarrow> bytes" where
  "statusLine code =
     (let statusText = StatusText code;
          statusText = (if statusText = [] then str ''status code '' @ itoaInt code else statusText)
      in str ''HTTP/1.1 '' @ itoaInt code @ str '' '' @ statusText @ CRLF)"

definition startPieces :: "bytes \<Rightarrow> ResponseWriter \<Rightarrow> piece list" where
  "startPieces date w =
     S (statusLine (rw_statusCode w)) #
     (if firstHeaderValue (rw_header w) headerDateKey = [] then [B (str ''Date: ''), S (date @ CRLF)] else [])"

definition framingPieces :: "ResponseWriter \<Rightarrow> piece list" where
  "framingPieces w =
     (if rw_chunked w \<and> firstHeaderValue (rw_header w) headerTransferEnc = []
      then if rw_trailer w \<noteq> [] then [B (str ''Transfer-Encoding: chunked, trailers'' @ CRLF)]
           else [B (str ''Transfer-Encoding: chunked'' @ CRLF)]
      else [])"

definition ensureHeaderSent :: "bytes \<Rightarrow> ResponseWriter \<Rightarrow> ioError option \<times> ResponseWriter" where
  "ensureHeaderSent date w =
     (if rw_headerSent w then (None, w)
      else if fastHead w
      then
        (case put (fastHeadPieces date (rw_header w)) w of
           (Some e, w) \<Rightarrow> (Some e, w)
         | (None, w) \<Rightarrow> (None, w\<lparr>rw_chunked := False, rw_headerSent := True\<rparr>))
      else
        (case put (startPieces date w) w of
           (Some e, w) \<Rightarrow> (Some e, w)
         | (None, w) \<Rightarrow>
             (let w = w\<lparr>rw_chunked := (firstHeaderValue (rw_header w) headerContentLength = [] \<or>
                                       rw_trailer w \<noteq> [])\<rparr>
              in case put (headerPieces (rw_header w) @ framingPieces w @ [B CRLF]) w of
                   (Some e, w) \<Rightarrow> (Some e, w)
                 | (None, w) \<Rightarrow> (None, w\<lparr>rw_headerSent := True\<rparr>))))"

text \<open>The bytes held back by the first write, as a chunk or as they are.\<close>

definition putPending :: "ResponseWriter \<Rightarrow> ioError option \<times> ResponseWriter" where
  "putPending w =
     (case (if rw_chunked w
            then put [B (appendInt16 (length (rw_pending w))), B CRLF, B (rw_pending w), B CRLF] w
            else put [B (rw_pending w)] w) of
        (Some e, w) \<Rightarrow> (Some e, w)
      | (None, w) \<Rightarrow> (None, w\<lparr>rw_pending := []\<rparr>))"

text \<open>The bytes of one call, as a chunk or as they are, with the count \<^verbatim>\<open>Write\<close> returns.\<close>

definition putData :: "piece \<Rightarrow> ResponseWriter \<Rightarrow> (nat \<times> ioError option) \<times> ResponseWriter" where
  "putData q w =
     (if rw_chunked w
      then
        (case writeChunkHeader (length (pieceBytes q)) w of
           (Some e, w) \<Rightarrow> ((0, Some e), w)
         | (None, w) \<Rightarrow>
             (case putCount q w of
                ((n, Some e), w) \<Rightarrow> ((n, Some e), w)
              | ((n, None), w) \<Rightarrow> (case writeChunkTrailer w of (err, w) \<Rightarrow> ((n, err), w))))
      else putCount q w)"

definition sniff :: "(bytes \<Rightarrow> bytes) \<Rightarrow> bytes \<Rightarrow> ResponseWriter \<Rightarrow> ResponseWriter" where
  "sniff detect p w =
     (if firstHeaderValue (rw_header w) headerContentType = []
      then w\<lparr>rw_header := setSingleHeaderValue headerContentType (detect (take 512 p)) (rw_header w)\<rparr>
      else w)"

text \<open>\<^verbatim>\<open>if !w.headerSent\<close> of \<^verbatim>\<open>Write\<close>; \<open>Inl\<close> is a return from \<^verbatim>\<open>Write\<close>.\<close>

definition beforeWrite ::
    "(bytes \<Rightarrow> bytes) \<Rightarrow> bytes \<Rightarrow> bytes \<Rightarrow> ResponseWriter \<Rightarrow>
     ((nat \<times> ioError option) \<times> ResponseWriter) + ResponseWriter" where
  "beforeWrite detect date p w =
     (let w = sniff detect p w
      in if firstHeaderValue (rw_header w) headerContentLength = [] \<and>
            firstHeaderValue (rw_header w) headerTransferEnc = [] \<and> rw_trailer w = []
         then
           if rw_pending w = [] then Inl ((length p, None), w\<lparr>rw_pending := p\<rparr>)
           else
             (case ensureHeaderSent date w of
                (Some e, w) \<Rightarrow> Inl ((0, Some e), w)
              | (None, w) \<Rightarrow>
                  (case putPending w of
                     (Some e, w) \<Rightarrow> Inl ((0, Some e), w)
                   | (None, w) \<Rightarrow> Inr w))
         else
           (case ensureHeaderSent date w of
              (Some e, w) \<Rightarrow> Inl ((0, Some e), w)
            | (None, w) \<Rightarrow> Inr w))"

definition rw_Write ::
    "(bytes \<Rightarrow> bytes) \<Rightarrow> bytes \<Rightarrow> bytes \<Rightarrow> ResponseWriter \<Rightarrow> (nat \<times> ioError option) \<times> ResponseWriter" where
  "rw_Write detect date p w =
     (if rw_hijacked w then ((0, Some ErrHijacked), w)
      else if p = [] then ((0, None), w)
      else if \<not> rw_headerSent w
      then (case beforeWrite detect date p w of Inl r \<Rightarrow> r | Inr w \<Rightarrow> putData (B p) w)
      else putData (B p) w)"

definition rw_WriteString ::
    "(bytes \<Rightarrow> bytes) \<Rightarrow> bytes \<Rightarrow> bytes \<Rightarrow> ResponseWriter \<Rightarrow> (nat \<times> ioError option) \<times> ResponseWriter" where
  "rw_WriteString detect date p w =
     (if rw_hijacked w then ((0, Some ErrHijacked), w)
      else if p = [] then ((0, None), w)
      else if \<not> rw_headerSent w
      then (case ensureHeaderSent date (sniff detect p w) of
              (Some e, w) \<Rightarrow> ((0, Some e), w)
            | (None, w) \<Rightarrow> putData (S p) w)
      else putData (S p) w)"

text \<open>
  \<^verbatim>\<open>ReadFrom\<close>: the source is what its successive reads return and the error after them, \<open>None\<close>
  for \<^verbatim>\<open>io.EOF\<close>; \<open>readerFrom\<close> is the \<^verbatim>\<open>ReadFrom\<close> of the connection, if it has one. A read
  returns at most 32 KB and may return nothing.
\<close>

fun copyLoop :: "nat \<Rightarrow> bytes list \<Rightarrow> ioError option \<Rightarrow> ResponseWriter \<Rightarrow> (nat \<times> ioError option) \<times> ResponseWriter" where
  "copyLoop n [] end w = ((n, end), w)"
| "copyLoop n (b # bs) end w =
     (if b = [] then copyLoop n bs end w
      else
        (case put (if rw_chunked w then [B (appendInt16 (length b)), B CRLF, B b, B CRLF] else [B b]) w of
           (Some e, w) \<Rightarrow> ((n, Some e), w)
         | (None, w) \<Rightarrow> copyLoop (n + length b) bs end w))"

definition rw_ReadFrom ::
    "(bytes list \<Rightarrow> writer \<Rightarrow> (nat \<times> ioError option) \<times> writer) option \<Rightarrow> bytes \<Rightarrow> bytes list \<Rightarrow> ioError option \<Rightarrow>
     ResponseWriter \<Rightarrow> (nat \<times> ioError option) \<times> ResponseWriter" where
  "rw_ReadFrom readerFrom date src end w =
     (if rw_hijacked w then ((0, Some ErrHijacked), w)
      else
        (case ensureHeaderSent date w of
           (Some e, w) \<Rightarrow> ((0, Some e), w)
         | (None, w) \<Rightarrow>
             if \<not> rw_chunked w
             then
               (let w = snd (flushBuffer w)
                in case (readerFrom, rw_bufWriter w) of
                     (Some rf, Some bw) \<Rightarrow> (case rf src bw of (r, bw) \<Rightarrow> (r, w\<lparr>rw_bufWriter := Some bw\<rparr>))
                   | _ \<Rightarrow> copyLoop 0 src end w)
             else copyLoop 0 src end w))"

definition rw_Flush :: "bytes \<Rightarrow> ResponseWriter \<Rightarrow> ResponseWriter" where
  "rw_Flush date w =
     (if rw_hijacked w then w
      else if \<not> rw_headerSent w
      then
        (case ensureHeaderSent date w of
           (Some e, w1) \<Rightarrow> w1
         | (None, w1) \<Rightarrow>
             if rw_pending w \<noteq> [] \<and> firstHeaderValue (rw_header w) headerContentLength = []
             then (case putPending w1 of
                     (Some e, w2) \<Rightarrow> w2
                   | (None, w2) \<Rightarrow> snd (flushBuffer w2))
             else snd (flushBuffer w1))
      else snd (flushBuffer w))"

text \<open>\<^verbatim>\<open>Hijack\<close>: the connection and reader of the context, and the writer, which is detached.\<close>

record hijacked =
  hj_conn :: "objId option"
  hj_reader :: "objId option"
  hj_writer :: writer

definition Hijack :: "ResponseWriter \<Rightarrow> (ioError + hijacked) \<times> ResponseWriter" where
  "Hijack w =
     (if rw_hijacked w then (Inl ErrAlreadyHijacked, w)
      else
        (let w = snd (flushBuffer (w\<lparr>rw_hijacked := True\<rparr>))
         in case (rw_ctx w, rw_bufWriter w) of
              (Some ctx, Some bw) \<Rightarrow>
                (Inr \<lparr>hj_conn = ctx_Conn ctx, hj_reader = GetReader ctx, hj_writer = bw\<rparr>,
                 w\<lparr>rw_bufWriter := None\<rparr>)
            | _ \<Rightarrow> (Inl NilDeref, w)))"

definition Hijacked :: "ResponseWriter \<Rightarrow> bool" where
  "Hijacked w = rw_hijacked w"

definition HeaderSent :: "ResponseWriter \<Rightarrow> bool" where
  "HeaderSent w = rw_headerSent w"

definition rw_SetReadHandler :: "objId \<Rightarrow> ResponseWriter \<Rightarrow> readHandlers \<Rightarrow> readHandlers" where
  "rw_SetReadHandler h w handlers =
     (case rw_ctx w of None \<Rightarrow> handlers | Some ctx \<Rightarrow> ctx_SetReadHandler h ctx handlers)"

definition endPieces :: "headerMap \<Rightarrow> piece list" where
  "endPieces trailer =
     (if trailer \<noteq> [] then [B (str ''0'' @ CRLF)] @ headerPieces trailer @ [B CRLF]
      else [B (str ''0'' @ CRLF @ CRLF)])"

definition EndResponse :: "bytes \<Rightarrow> ResponseWriter \<Rightarrow> ioError option \<times> ResponseWriter" where
  "EndResponse date w =
     (if rw_hijacked w then (None, w)
      else
        (let w = (if \<not> rw_headerSent w \<and> firstHeaderValue (rw_header w) headerContentLength = []
                  then w\<lparr>rw_header := setSingleHeaderValue headerContentLength
                            (itoa (length (rw_pending w))) (rw_header w)\<rparr>
                  else w)
         in case ensureHeaderSent date w of
              (Some e, w) \<Rightarrow> (Some e, w)
            | (None, w) \<Rightarrow>
                (case (if rw_pending w \<noteq> [] then put [B (rw_pending w)] w else (None, w)) of
                   (Some e, w) \<Rightarrow> (Some e, w)
                 | (None, w) \<Rightarrow>
                     (let w = w\<lparr>rw_pending := []\<rparr>
                      in case (if rw_chunked w then put (endPieces (rw_trailer w)) w else (None, w)) of
                           (Some e, w) \<Rightarrow> (Some e, w)
                         | (None, w) \<Rightarrow> flushBuffer w))))"

subsection \<open>\<^verbatim>\<open>BufferedConn\<close>\<close>

text \<open>\<^verbatim>\<open>Read\<close> of the connection with a slice of \<open>n\<close> bytes, and of the wrapped connection.\<close>

definition connRead :: "nat \<Rightarrow> reader \<Rightarrow> (bytes \<times> error option) \<times> reader" where
  "connRead n r =
     (case rd_src r of
        [] \<Rightarrow> (([], Some (rd_end r)), r)
      | c # cs \<Rightarrow> ((take n c, None), r\<lparr>rd_src := (if length c \<le> n then cs else drop n c # cs)\<rparr>))"

definition BufferedConn_Read :: "nat \<Rightarrow> reader \<Rightarrow> (bytes \<times> error option) \<times> reader" where
  "BufferedConn_Read n r =
     (if rd_buf r \<noteq> [] then ((take n (rd_buf r), None), r\<lparr>rd_buf := drop n (rd_buf r)\<rparr>)
      else connRead n r)"


subsection \<open>Optional interfaces\<close>

text \<open>\<^verbatim>\<open>Unwrap\<close>, the deadlines (the connection's own setter is the argument) and \<^verbatim>\<open>EnableFullDuplex\<close>.\<close>

definition Unwrap :: "ResponseWriter \<Rightarrow> objId option" where
  "Unwrap w = None"

definition connOf :: "ResponseWriter \<Rightarrow> objId option" where
  "connOf w = (case rw_ctx w of None \<Rightarrow> None | Some ctx \<Rightarrow> ctx_Conn ctx)"

definition SetReadDeadline :: "(objId \<Rightarrow> int \<Rightarrow> ioError option) \<Rightarrow> int \<Rightarrow> ResponseWriter \<Rightarrow> ioError option" where
  "SetReadDeadline connSetReadDeadline deadline w =
     (case connOf w of None \<Rightarrow> Some ConnUnavailable | Some conn \<Rightarrow> connSetReadDeadline conn deadline)"

definition SetWriteDeadline :: "(objId \<Rightarrow> int \<Rightarrow> ioError option) \<Rightarrow> int \<Rightarrow> ResponseWriter \<Rightarrow> ioError option" where
  "SetWriteDeadline connSetWriteDeadline deadline w =
     (case connOf w of None \<Rightarrow> Some ConnUnavailable | Some conn \<Rightarrow> connSetWriteDeadline conn deadline)"

definition EnableFullDuplex :: "ResponseWriter \<Rightarrow> ioError option" where
  "EnableFullDuplex w = None"

end
