(* ===== verification/Response_Wire.thy ===== *)
theory Response_Wire
  imports Response_Writer
begin

text \<open>
  What the response writer puts on the wire, over a connection that does not fail: the bytes of
  the head, then for a handler that writes a body with \<^verbatim>\<open>Write\<close> calls the whole response. A
  response in at most one piece is sent with its length, a longer one in chunks.
\<close>

section \<open>The head\<close>

text \<open>The bytes written so far, a writer over a sound connection, and everything but the writer.\<close>

definition wire :: "ResponseWriter \<Rightarrow> bytes" where
  "wire w = (case rw_bufWriter w of Some bw \<Rightarrow> stream bw | None \<Rightarrow> [])"

definition ready :: "ResponseWriter \<Rightarrow> bool" where
  "ready w \<longleftrightarrow> (case rw_bufWriter w of Some bw \<Rightarrow> soundWriter bw | None \<Rightarrow> False)"

definition control :: "ResponseWriter \<Rightarrow> ResponseWriter" where
  "control w = w\<lparr>rw_bufWriter := None\<rparr>"

lemma control_eqD:
  assumes "control w' = control w"
  shows "rw_ctx w' = rw_ctx w" "rw_header w' = rw_header w" "rw_trailer w' = rw_trailer w"
    "rw_statusCode w' = rw_statusCode w" "rw_hijacked w' = rw_hijacked w"
    "rw_headerSent w' = rw_headerSent w" "rw_chunked w' = rw_chunked w" "rw_pending w' = rw_pending w"
  using arg_cong [OF assms, of rw_ctx] arg_cong [OF assms, of rw_header] arg_cong [OF assms, of rw_trailer]
    arg_cong [OF assms, of rw_statusCode] arg_cong [OF assms, of rw_hijacked]
    arg_cong [OF assms, of rw_headerSent] arg_cong [OF assms, of rw_chunked] arg_cong [OF assms, of rw_pending]
  by (simp_all add: control_def)

lemma put_ready:
  assumes "ready w"
  obtains w' where "put ps w = (None, w')" "ready w'" "wire w' = wire w @ concat (map pieceBytes ps)"
    "control w' = control w"
proof -
  from assms obtain bw where bw: "rw_bufWriter w = Some bw" "soundWriter bw"
    by (auto simp: ready_def split: option.splits)
  from bw.writes_healthy [OF bw(2), of ps] obtain bw' where
    w': "writesWith writePiece ps bw = (None, bw')" "soundWriter bw'" by blast
  from bw.writes_ok [OF w'(1)] bw w' show thesis
    by (intro that [of "w\<lparr>rw_bufWriter := Some bw'\<rparr>"])
      (simp_all add: put_def ready_def wire_def control_def)
qed

lemma flush_ready:
  assumes "ready w"
  obtains bw w' where "flushBuffer w = (None, w')" "ready w'" "wire w' = wire w" "control w' = control w"
    "rw_bufWriter w' = Some bw" "wr_sent bw = wire w"
proof -
  from assms obtain bw where bw: "rw_bufWriter w = Some bw" "soundWriter bw"
    by (auto simp: ready_def split: option.splits)
  from bw.flush_healthy [OF bw(2)] obtain bw' where
    w': "flushWriter bw = (None, bw')" "soundWriter bw'" by blast
  from bw.flush_ok [OF w'(1)] bw w' show thesis
    by (intro that [of "w\<lparr>rw_bufWriter := Some bw'\<rparr>" bw'])
      (simp_all add: flushBuffer_def ready_def wire_def control_def)
qed

lemma put_update:
  "put ps w = (err, w') \<Longrightarrow> control w' = control w"
  by (auto simp: put_def control_def split: option.splits prod.splits)

lemma frame_updates:
  "ready (w\<lparr>rw_chunked := c\<rparr>) = ready w" "ready (w\<lparr>rw_headerSent := s\<rparr>) = ready w"
  "ready (w\<lparr>rw_pending := x\<rparr>) = ready w" "ready (w\<lparr>rw_header := h\<rparr>) = ready w"
  "wire (w\<lparr>rw_chunked := c\<rparr>) = wire w" "wire (w\<lparr>rw_headerSent := s\<rparr>) = wire w"
  "wire (w\<lparr>rw_pending := x\<rparr>) = wire w" "wire (w\<lparr>rw_header := h\<rparr>) = wire w"
  by (simp_all add: ready_def wire_def)

lemma control_updates:
  "control (w\<lparr>rw_chunked := c\<rparr>) = (control w)\<lparr>rw_chunked := c\<rparr>"
  "control (w\<lparr>rw_headerSent := s\<rparr>) = (control w)\<lparr>rw_headerSent := s\<rparr>"
  "control (w\<lparr>rw_pending := x\<rparr>) = (control w)\<lparr>rw_pending := x\<rparr>"
  "control (w\<lparr>rw_header := h\<rparr>) = (control w)\<lparr>rw_header := h\<rparr>"
  by (simp_all add: control_def)

text \<open>Whether the response will be chunked, and the head.\<close>

definition willChunk :: "ResponseWriter \<Rightarrow> bool" where
  "willChunk w \<longleftrightarrow> firstHeaderValue (rw_header w) headerContentLength = [] \<or> rw_trailer w \<noteq> []"

definition headPieces :: "bytes \<Rightarrow> ResponseWriter \<Rightarrow> piece list" where
  "headPieces date w =
     (if fastHead w then fastHeadPieces date (rw_header w)
      else startPieces date w @ headerPieces (rw_header w) @
           framingPieces (w\<lparr>rw_chunked := willChunk w\<rparr>) @ [B CRLF])"

definition headBytes :: "bytes \<Rightarrow> ResponseWriter \<Rightarrow> bytes" where
  "headBytes date w = concat (map pieceBytes (headPieces date w))"

lemma fastHead_plain: "fastHead w \<Longrightarrow> \<not> willChunk w"
  by (auto simp: fastHead_def willChunk_def)

lemma framingPieces_control:
  assumes "control w' = control w"
  shows "framingPieces (w'\<lparr>rw_chunked := c\<rparr>) = framingPieces (w\<lparr>rw_chunked := c\<rparr>)"
  using control_eqD [OF assms] by (simp add: framingPieces_def)

lemma ensureHeaderSent_ready:
  assumes "ready w" "\<not> rw_headerSent w"
  obtains w' where "ensureHeaderSent date w = (None, w')" "ready w'" "wire w' = wire w @ headBytes date w"
    "control w' = (control w)\<lparr>rw_chunked := willChunk w, rw_headerSent := True\<rparr>"
proof (cases "fastHead w")
  case True
  obtain w1 where "put (fastHeadPieces date (rw_header w)) w = (None, w1)" "ready w1"
    "wire w1 = wire w @ concat (map pieceBytes (fastHeadPieces date (rw_header w)))" "control w1 = control w"
    by (rule put_ready [OF assms(1)])
  with True assms(2) fastHead_plain [OF True] show thesis
    by (intro that [of "w1\<lparr>rw_chunked := False, rw_headerSent := True\<rparr>"])
      (simp_all add: ensureHeaderSent_def headBytes_def headPieces_def frame_updates control_updates)
next
  case False
  obtain w1 where w1: "put (startPieces date w) w = (None, w1)" "ready w1"
    "wire w1 = wire w @ concat (map pieceBytes (startPieces date w))" "control w1 = control w"
    by (rule put_ready [OF assms(1)])
  note c = control_eqD [OF w1(4)]
  have will: "(firstHeaderValue (rw_header w1) headerContentLength = [] \<or> rw_trailer w1 \<noteq> []) = willChunk w"
    by (simp add: willChunk_def c)
  have r: "ready (w1\<lparr>rw_chunked := willChunk w\<rparr>)" using w1(2) by (simp add: frame_updates)
  obtain w2 where w2: "put (headerPieces (rw_header w) @ framingPieces (w\<lparr>rw_chunked := willChunk w\<rparr>) @ [B CRLF])
      (w1\<lparr>rw_chunked := willChunk w\<rparr>) = (None, w2)" "ready w2"
    "wire w2 = wire (w1\<lparr>rw_chunked := willChunk w\<rparr>) @ concat (map pieceBytes
       (headerPieces (rw_header w) @ framingPieces (w\<lparr>rw_chunked := willChunk w\<rparr>) @ [B CRLF]))"
    "control w2 = control (w1\<lparr>rw_chunked := willChunk w\<rparr>)"
    by (rule put_ready [OF r])
  have "ensureHeaderSent date w = (None, w2\<lparr>rw_headerSent := True\<rparr>)"
    using assms(2) False w1(1) w2(1)
    by (simp add: ensureHeaderSent_def Let_def framingPieces_control [OF w1(4)] c(2) will [unfolded c(2)])
  moreover have "control (w2\<lparr>rw_headerSent := True\<rparr>) = (control w)\<lparr>rw_chunked := willChunk w, rw_headerSent := True\<rparr>"
    using w2(4) w1(4) by (simp add: control_updates)
  ultimately show thesis
    using w2(2,3) w1(3) False by (intro that) (simp_all add: frame_updates headBytes_def headPieces_def)
qed

section \<open>Writes\<close>

lemma putPending_ready:
  assumes "ready w"
  obtains w' where "putPending w = (None, w')" "ready w'"
    "wire w' = wire w @ (if rw_chunked w then encodeChunk (rw_pending w) else rw_pending w)"
    "control w' = (control w)\<lparr>rw_pending := []\<rparr>"
proof -
  let ?ps = "if rw_chunked w then [B (appendInt16 (length (rw_pending w))), B CRLF, B (rw_pending w), B CRLF]
    else [B (rw_pending w)]"
  obtain w1 where "put ?ps w = (None, w1)" "ready w1" "wire w1 = wire w @ concat (map pieceBytes ?ps)"
    "control w1 = control w" by (rule put_ready [OF assms])
  then show thesis
    by (intro that [of "w1\<lparr>rw_pending := []\<rparr>"])
      (auto simp: putPending_def frame_updates control_updates encodeChunk_def)
qed

lemma putCount_ready:
  assumes "ready w"
  obtains w' where "putCount q w = ((length (pieceBytes q), None), w')" "ready w'"
    "wire w' = wire w @ pieceBytes q" "control w' = control w"
proof -
  from assms obtain bw where bw: "rw_bufWriter w = Some bw" "soundWriter bw"
    by (auto simp: ready_def split: option.splits)
  from bw.write_healthy [OF bw(2), of q] obtain n bw' where
    w': "writePiece q bw = (n, None, bw')" "soundWriter bw'" by blast
  from bw.write_ok [OF w'(1)] bw w' show thesis
    by (intro that [of "w\<lparr>rw_bufWriter := Some bw'\<rparr>"])
      (simp_all add: putCount_def ready_def wire_def control_def)
qed

lemma putData_ready:
  assumes "ready w"
  obtains w' where "putData q w = ((length (pieceBytes q), None), w')" "ready w'"
    "wire w' = wire w @ (if rw_chunked w then encodeChunk (pieceBytes q) else pieceBytes q)"
    "control w' = control w"
proof (cases "rw_chunked w")
  case False
  obtain w1 where "putCount q w = ((length (pieceBytes q), None), w1)" "ready w1"
    "wire w1 = wire w @ pieceBytes q" "control w1 = control w" by (rule putCount_ready [OF assms])
  with False show thesis by (intro that [of w1]) (simp_all add: putData_def)
next
  case True
  obtain w1 where w1: "put [B (appendInt16 (length (pieceBytes q))), B CRLF] w = (None, w1)" "ready w1"
    "wire w1 = wire w @ concat (map pieceBytes [B (appendInt16 (length (pieceBytes q))), B CRLF])"
    "control w1 = control w" by (rule put_ready [OF assms])
  obtain w2 where w2: "putCount q w1 = ((length (pieceBytes q), None), w2)" "ready w2"
    "wire w2 = wire w1 @ pieceBytes q" "control w2 = control w1" by (rule putCount_ready [OF w1(2)])
  obtain w3 where w3: "put [B CRLF] w2 = (None, w3)" "ready w3"
    "wire w3 = wire w2 @ concat (map pieceBytes [B CRLF])" "control w3 = control w2"
    by (rule put_ready [OF w2(2)])
  show thesis
    using True w1 w2 w3
    by (intro that [of w3]) (simp_all add: putData_def writeChunkHeader_def writeChunkTrailer_def encodeChunk_def)
qed

text \<open>Header maps for which the writer frames the response itself.\<close>

definition unframed :: "headerMap \<Rightarrow> bool" where
  "unframed h \<longleftrightarrow> firstHeaderValue h headerContentLength = [] \<and> firstHeaderValue h headerTransferEnc = []"

definition sniffed :: "(bytes \<Rightarrow> bytes) \<Rightarrow> bytes \<Rightarrow> headerMap \<Rightarrow> headerMap" where
  "sniffed detect p h =
     (if firstHeaderValue h headerContentType = []
      then setSingleHeaderValue headerContentType (detect (take 512 p)) h else h)"

lemma header_keys_distinct [simp]:
  "headerContentLength \<noteq> headerContentType" "headerTransferEnc \<noteq> headerContentType"
  "headerContentLength \<noteq> headerTransferEnc" "headerDateKey \<noteq> headerContentType"
  "headerDateKey \<noteq> headerContentLength" "headerDateKey \<noteq> headerTransferEnc"
  by (simp_all add: headerContentLength_def headerContentType_def headerTransferEnc_def headerDateKey_def)

lemma firstHeaderValue_set [simp]:
  "firstHeaderValue (setSingleHeaderValue key v h) key' = (if key' = key then v else firstHeaderValue h key')"
  by (simp add: firstHeaderValue_def setSingleHeaderValue_def update_conv)

lemma unframed_sniffed [simp]: "unframed (sniffed detect p h) = unframed h"
  using header_keys_distinct by (auto simp: unframed_def sniffed_def)

lemma sniff_eq: "sniff detect p w = w\<lparr>rw_header := sniffed detect p (rw_header w)\<rparr>"
  by (simp add: sniff_def sniffed_def)

text \<open>
  The writer after the non-empty writes \<open>ps\<close> of a handler that has set the headers \<open>h\<close> and the
  status \<open>code\<close>, when \<open>w0\<close> is what the connection had before: the first piece is held back, the
  second starts a chunked response.
\<close>

definition template :: "headerMap \<Rightarrow> int \<Rightarrow> ResponseWriter" where
  "template h code = zeroResponseWriter\<lparr>rw_header := h, rw_statusCode := code\<rparr>"

definition afterWrites ::
    "(bytes \<Rightarrow> bytes) \<Rightarrow> bytes \<Rightarrow> headerMap \<Rightarrow> int \<Rightarrow> bytes \<Rightarrow> bytes list \<Rightarrow> ResponseWriter \<Rightarrow> bool" where
  "afterWrites detect date h code w0 ps w \<longleftrightarrow>
     ready w \<and> \<not> rw_hijacked w \<and> rw_trailer w = [] \<and> rw_statusCode w = code \<and>
     (case ps of
        [] \<Rightarrow> rw_header w = h \<and> rw_pending w = [] \<and> \<not> rw_headerSent w \<and> wire w = w0
      | [p] \<Rightarrow> rw_header w = sniffed detect p h \<and> rw_pending w = p \<and> \<not> rw_headerSent w \<and> wire w = w0
      | p # _ \<Rightarrow> rw_pending w = [] \<and> rw_headerSent w \<and> rw_chunked w \<and>
          wire w = w0 @ headBytes date (template (sniffed detect p h) code) @ concat (map encodeChunk ps))"

lemma headBytes_cong:
  assumes "rw_header w = rw_header w'" "rw_statusCode w = rw_statusCode w'" "rw_trailer w = rw_trailer w'"
  shows "headBytes date w = headBytes date w'" "willChunk w = willChunk w'"
  using assms
  by (auto simp: headBytes_def headPieces_def fastHead_def startPieces_def framingPieces_def willChunk_def)

lemma sniffed_twice:
  "detect (take 512 p) \<noteq> [] \<Longrightarrow> sniffed detect q (sniffed detect p h) = sniffed detect p h"
  by (auto simp: sniffed_def)


lemma afterWrites_first:
  assumes "afterWrites detect date h code w0 [] w" "unframed h" "p \<noteq> []"
  shows "\<exists>w'. rw_Write detect date p w = ((length p, None), w') \<and> afterWrites detect date h code w0 [p] w'"
proof -
  let ?w = "w\<lparr>rw_header := sniffed detect p h, rw_pending := p\<rparr>"
  have "rw_Write detect date p w = ((length p, None), ?w)"
    using assms unframed_sniffed [of detect p h]
    by (simp add: afterWrites_def rw_Write_def beforeWrite_def sniff_eq unframed_def)
  moreover have "afterWrites detect date h code w0 [p] ?w"
    using assms(1) by (simp add: afterWrites_def frame_updates)
  ultimately show ?thesis by blast
qed

lemma afterWrites_second:
  assumes "afterWrites detect date h code w0 [p] w" "unframed h" "p \<noteq> []" "q \<noteq> []"
    and "detect (take 512 p) \<noteq> []"
  shows "\<exists>w'. rw_Write detect date q w = ((length q, None), w') \<and> afterWrites detect date h code w0 [p, q] w'"
proof -
  from assms(1) have w: "ready w" "\<not> rw_hijacked w" "rw_trailer w = []" "rw_statusCode w = code"
    "rw_header w = sniffed detect p h" "rw_pending w = p" "\<not> rw_headerSent w" "wire w = w0"
    by (simp_all add: afterWrites_def)
  have sn: "sniff detect q w = w"
    using w(5) sniffed_twice [of detect p q h, OF assms(5)] by (simp add: sniff_eq)
  have uf: "unframed (rw_header w)" using assms(2) w(5) by simp
  obtain w1 where w1: "ensureHeaderSent date w = (None, w1)" "ready w1" "wire w1 = wire w @ headBytes date w"
    "control w1 = (control w)\<lparr>rw_chunked := willChunk w, rw_headerSent := True\<rparr>"
    by (rule ensureHeaderSent_ready [OF w(1,7)])
  have will: "willChunk w" using uf by (simp add: willChunk_def unframed_def)
  have "control w1 = control (w\<lparr>rw_chunked := True, rw_headerSent := True\<rparr>)"
    using w1(4) will by (simp add: control_updates)
  note c1 = control_eqD [OF this, simplified]
  obtain w2 where w2: "putPending w1 = (None, w2)" "ready w2" "control w2 = (control w1)\<lparr>rw_pending := []\<rparr>"
    "wire w2 = wire w1 @ (if rw_chunked w1 then encodeChunk (rw_pending w1) else rw_pending w1)"
    by (rule putPending_ready [OF w1(2)])
  have "control w2 = control (w1\<lparr>rw_pending := []\<rparr>)" using w2(3) by (simp add: control_updates)
  note c2 = control_eqD [OF this, simplified]
  obtain w3 where w3: "putData (B q) w2 = ((length (pieceBytes (B q)), None), w3)" "ready w3" "control w3 = control w2"
    "wire w3 = wire w2 @ (if rw_chunked w2 then encodeChunk (pieceBytes (B q)) else pieceBytes (B q))"
    by (rule putData_ready [OF w2(2)])
  note c3 = control_eqD [OF w3(3)]
  have "rw_Write detect date q w = ((length q, None), w3)"
    using assms(3,4) w(2,6,7) uf w1(1) w2(1) w3(1) w(3)
    by (simp add: rw_Write_def beforeWrite_def sn unframed_def)
  moreover have "headBytes date w = headBytes date (template (sniffed detect p h) code)"
    using w by (intro headBytes_cong) (simp_all add: template_def zeroResponseWriter_def)
  ultimately show ?thesis
    using w w1(3) w2(4) w3(2,4) c1 c2 c3 by (auto simp: afterWrites_def)
qed

lemma afterWrites_more:
  assumes "afterWrites detect date h code w0 (p # q # ps) w" "r \<noteq> []"
  shows "\<exists>w'. rw_Write detect date r w = ((length r, None), w') \<and>
    afterWrites detect date h code w0 (p # q # ps @ [r]) w'"
proof -
  from assms(1) have w: "ready w" "rw_headerSent w" "rw_chunked w" "\<not> rw_hijacked w"
    by (simp_all add: afterWrites_def)
  obtain w1 where w1: "putData (B r) w = ((length (pieceBytes (B r)), None), w1)" "ready w1" "control w1 = control w"
    "wire w1 = wire w @ (if rw_chunked w then encodeChunk (pieceBytes (B r)) else pieceBytes (B r))"
    by (rule putData_ready [OF w(1)])
  note c = control_eqD [OF w1(3)]
  from assms w w1 c show ?thesis by (auto simp: afterWrites_def rw_Write_def)
qed

lemma afterWrites_step:
  assumes "afterWrites detect date h code w0 ps w" "unframed h" "list_all (\<lambda>p. p \<noteq> []) ps" "q \<noteq> []"
    and "\<And>x. detect x \<noteq> []"
  shows "\<exists>w'. rw_Write detect date q w = ((length q, None), w') \<and> afterWrites detect date h code w0 (ps @ [q]) w'"
proof (cases ps rule: remdups_adj.cases)
  case 1
  with afterWrites_first assms show ?thesis by simp
next
  case (2 p)
  with afterWrites_second [of detect date h code w0 p w q] assms show ?thesis by simp
next
  case (3 p p' ps')
  with afterWrites_more [of detect date h code w0 p p' ps' w q] assms show ?thesis by simp
qed

section \<open>Whole responses\<close>

text \<open>The \<^verbatim>\<open>Write\<close> calls of a handler, each of which must take all its bytes.\<close>

fun writeAll :: "(bytes \<Rightarrow> bytes) \<Rightarrow> bytes \<Rightarrow> bytes list \<Rightarrow> ResponseWriter \<Rightarrow> ResponseWriter option" where
  "writeAll detect date [] w = Some w"
| "writeAll detect date (p # ps) w =
     (case rw_Write detect date p w of
        ((n, None), w) \<Rightarrow> if n = length p then writeAll detect date ps w else None
      | _ \<Rightarrow> None)"

text \<open>The response in bytes: with a length if the body was written in at most one piece.\<close>

definition responseBytes :: "(bytes \<Rightarrow> bytes) \<Rightarrow> bytes \<Rightarrow> headerMap \<Rightarrow> int \<Rightarrow> bytes list \<Rightarrow> bytes" where
  "responseBytes detect date h code ps =
     (case ps of
        [] \<Rightarrow> headBytes date (template (setSingleHeaderValue headerContentLength (itoa 0) h) code)
      | [p] \<Rightarrow> headBytes date (template (setSingleHeaderValue headerContentLength (itoa (length p))
                 (sniffed detect p h)) code) @ p
      | p # _ \<Rightarrow> headBytes date (template (sniffed detect p h) code) @ encodeChunks ps)"

lemma writeAll_afterWrites:
  assumes "unframed h" "\<And>x. detect x \<noteq> []"
  shows "afterWrites detect date h code w0 ps w \<Longrightarrow> list_all (\<lambda>p. p \<noteq> []) ps \<Longrightarrow>
    \<exists>w'. writeAll detect date qs w = Some w' \<and>
      afterWrites detect date h code w0 (ps @ filter (\<lambda>p. p \<noteq> []) qs) w'"
proof (induction qs arbitrary: ps w)
  case (Cons q qs)
  show ?case
  proof (cases "q = []")
    case True
    have "\<not> rw_hijacked w" using Cons.prems(1) by (simp add: afterWrites_def)
    with True have "rw_Write detect date q w = ((length q, None), w)" by (simp add: rw_Write_def)
    with Cons.IH [OF Cons.prems] True show ?thesis by simp
  next
    case False
    from afterWrites_step [OF Cons.prems(1) assms(1) Cons.prems(2) False assms(2)] obtain w1 where
      w1: "rw_Write detect date q w = ((length q, None), w1)"
        "afterWrites detect date h code w0 (ps @ [q]) w1" by blast
    with Cons.IH [OF w1(2)] Cons.prems(2) False show ?thesis by simp
  qed
qed simp


text \<open>\<^verbatim>\<open>EndResponse\<close> of a response that has not been started, and of one in chunks.\<close>

lemma EndResponse_plain:
  assumes "ready w" "\<not> rw_hijacked w" "\<not> rw_headerSent w" "rw_trailer w = []"
    and "firstHeaderValue (rw_header w) headerContentLength = []"
  shows "\<exists>w' bw. EndResponse date w = (None, w') \<and> rw_bufWriter w' = Some bw \<and>
    wr_sent bw = wire w @ headBytes date (template (setSingleHeaderValue headerContentLength
      (itoa (length (rw_pending w))) (rw_header w)) (rw_statusCode w)) @ rw_pending w"
proof -
  let ?w = "w\<lparr>rw_header := setSingleHeaderValue headerContentLength (itoa (length (rw_pending w))) (rw_header w)\<rparr>"
  have r: "ready ?w" "\<not> rw_headerSent ?w" using assms by (simp_all add: frame_updates)
  have "itoa n \<noteq> []" for n by (subst itoa.simps) simp
  then have will: "\<not> willChunk ?w" using assms(4) by (simp add: willChunk_def)
  obtain w1 where w1: "ensureHeaderSent date ?w = (None, w1)" "ready w1" "wire w1 = wire ?w @ headBytes date ?w"
    "control w1 = (control ?w)\<lparr>rw_chunked := willChunk ?w, rw_headerSent := True\<rparr>"
    by (rule ensureHeaderSent_ready [OF r])
  have "control w1 = control (?w\<lparr>rw_chunked := False, rw_headerSent := True\<rparr>)"
    using w1(4) will by (simp add: control_updates)
  note c1 = control_eqD [OF this, simplified]
  obtain wp where wp: "put [B (rw_pending w1)] w1 = (None, wp)" "ready wp" "control wp = control w1"
    "wire wp = wire w1 @ concat (map pieceBytes [B (rw_pending w1)])" by (rule put_ready [OF w1(2)])
  obtain w2 where w2: "(if rw_pending w1 \<noteq> [] then put [B (rw_pending w1)] w1 else (None, w1)) = (None, w2)"
    "ready w2" "wire w2 = wire w1 @ rw_pending w" "control w2 = control w1"
    using wp w1(2) c1(8) by (cases "rw_pending w = []") auto
  note c2 = control_eqD [OF w2(4)]
  have "ready (w2\<lparr>rw_pending := []\<rparr>)" using w2(2) by (simp add: frame_updates)
  then obtain bw w3 where w3: "flushBuffer (w2\<lparr>rw_pending := []\<rparr>) = (None, w3)" "rw_bufWriter w3 = Some bw"
    "wr_sent bw = wire (w2\<lparr>rw_pending := []\<rparr>)" by (rule flush_ready)
  have "EndResponse date w = (None, w3)"
    using assms(2,3,5) w1(1) w2(1) w3(1) c1(7) c2(7) by (simp add: EndResponse_def Let_def)
  moreover have "headBytes date ?w = headBytes date (template (setSingleHeaderValue headerContentLength
      (itoa (length (rw_pending w))) (rw_header w)) (rw_statusCode w))"
    using assms(4) by (intro headBytes_cong) (simp_all add: template_def zeroResponseWriter_def)
  ultimately show ?thesis
    using w3(2,3) w2(3) w1(3) by (simp add: frame_updates)
qed

lemma EndResponse_chunked:
  assumes "ready w" "\<not> rw_hijacked w" "rw_headerSent w" "rw_trailer w = []" "rw_pending w = []" "rw_chunked w"
  shows "\<exists>w' bw. EndResponse date w = (None, w') \<and> rw_bufWriter w' = Some bw \<and>
    wr_sent bw = wire w @ str ''0'' @ CRLF @ CRLF"
proof -
  have e: "rw_pending (w\<lparr>rw_pending := []\<rparr>) = []" by simp
  have "ready (w\<lparr>rw_pending := []\<rparr>)" using assms(1) by (simp add: frame_updates)
  then obtain w1 where w1: "put (endPieces []) (w\<lparr>rw_pending := []\<rparr>) = (None, w1)" "ready w1"
    "wire w1 = wire (w\<lparr>rw_pending := []\<rparr>) @ concat (map pieceBytes (endPieces []))"
    by (rule put_ready)
  obtain bw w2 where "flushBuffer w1 = (None, w2)" "rw_bufWriter w2 = Some bw" "wr_sent bw = wire w1"
    by (rule flush_ready [OF w1(2)])
  with w1(1,3) assms show ?thesis
    by (intro exI [of _ w2] exI [of _ bw])
      (simp add: EndResponse_def ensureHeaderSent_def frame_updates endPieces_def)
qed

lemma EndResponse_afterWrites:
  assumes "afterWrites detect date h code w0 ps w" "unframed h"
  shows "\<exists>w' bw. EndResponse date w = (None, w') \<and> rw_bufWriter w' = Some bw \<and>
    wr_sent bw = w0 @ responseBytes detect date h code ps"
proof (cases ps rule: remdups_adj.cases)
  case 1
  with EndResponse_plain [of w date] assms show ?thesis
    by (simp add: afterWrites_def responseBytes_def unframed_def)
next
  case (2 p)
  with EndResponse_plain [of w date] assms unframed_sniffed [of detect p h] show ?thesis
    by (simp add: afterWrites_def responseBytes_def unframed_def)
next
  case (3 p q ps')
  with EndResponse_chunked [of w date] assms show ?thesis
    by (simp add: afterWrites_def responseBytes_def encodeChunks_def)
qed

text \<open>A handler that sets headers and a status and writes a body, from a fresh writer.\<close>

definition respond ::
    "(bytes \<Rightarrow> bytes) \<Rightarrow> bytes \<Rightarrow> headerMap \<Rightarrow> int \<Rightarrow> bytes list \<Rightarrow> ResponseWriter \<Rightarrow>
     (ioError option \<times> ResponseWriter) option" where
  "respond detect date h code ps w =
     map_option (EndResponse date) (writeAll detect date ps (WriteHeader code (w\<lparr>rw_header := h\<rparr>)))"

lemma respond_bytes:
  assumes "ready w" "\<not> rw_hijacked w" "\<not> rw_headerSent w" "rw_trailer w = []" "rw_pending w = []"
    and "unframed h" "\<And>x. detect x \<noteq> []"
  shows "\<exists>w' bw. respond detect date h code ps w = Some (None, w') \<and> rw_bufWriter w' = Some bw \<and>
    wr_sent bw = wire w @ responseBytes detect date h code (filter (\<lambda>p. p \<noteq> []) ps)"
proof -
  let ?w = "WriteHeader code (w\<lparr>rw_header := h\<rparr>)"
  have "afterWrites detect date h code (wire w) [] ?w"
    using assms(1-5) by (simp add: afterWrites_def WriteHeader_def ready_def wire_def)
  from writeAll_afterWrites [OF assms(6,7) this, of ps] obtain w1 where
    w1: "writeAll detect date ps ?w = Some w1"
      "afterWrites detect date h code (wire w) (filter (\<lambda>p. p \<noteq> []) ps) w1" by auto
  with EndResponse_afterWrites [OF w1(2) assms(6)] show ?thesis by (auto simp: respond_def)
qed

end
