(* ===== verification/Response_Roundtrip.thy ===== *)
theory Response_Roundtrip
  imports Response_Wire
begin

text \<open>
  The two halves of the program together: a response the response writer puts on the wire is read
  back by the repository's own message parser, with the status, the headers and the body the
  handler wrote.
\<close>

section \<open>The head as lines\<close>

definition entryHeaders :: "headerMap \<Rightarrow> headerLine list" where
  "entryHeaders h =
     concat (map (\<lambda>(k, vs). map (\<lambda>v. \<lparr>h_Name = k, h_Value = cleanValue v\<rparr>) vs) (sortedEntries h))"

definition dateHeader :: "bytes \<Rightarrow> headerLine" where
  "dateHeader date = \<lparr>h_Name = headerDateKey, h_Value = date\<rparr>"

text \<open>The header lines of a response without trailers.\<close>

definition headHeaders :: "bytes \<Rightarrow> ResponseWriter \<Rightarrow> headerLine list" where
  "headHeaders date w =
     (if fastHead w
      then dateHeader date #
        (if firstHeaderValue (rw_header w) headerContentType \<noteq> []
         then [\<lparr>h_Name = headerContentType, h_Value = firstHeaderValue (rw_header w) headerContentType\<rparr>] else []) @
        [\<lparr>h_Name = headerContentLength, h_Value = firstHeaderValue (rw_header w) headerContentLength\<rparr>]
      else
        (if firstHeaderValue (rw_header w) headerDateKey = [] then [dateHeader date] else []) @
        entryHeaders (rw_header w) @
        (if willChunk w \<and> firstHeaderValue (rw_header w) headerTransferEnc = []
         then [\<lparr>h_Name = headerTransferEnc, h_Value = str ''chunked''\<rparr>] else []))"

definition reasonOf :: "int \<Rightarrow> bytes" where
  "reasonOf code = (if StatusText code = [] then str ''status code '' @ itoaInt code else StatusText code)"

definition startLine :: "int \<Rightarrow> bytes" where
  "startLine code = str ''HTTP/1.1 '' @ itoaInt code @ str '' '' @ reasonOf code"

lemma statusLine_eq: "statusLine code = startLine code @ CRLF"
  by (simp add: statusLine_def startLine_def reasonOf_def Let_def)

lemma startLine_200: "str ''HTTP/1.1 200 OK'' @ CRLF = startLine 200 @ CRLF"
  by code_simp

definition headerLines :: "headerLine list \<Rightarrow> bytes" where
  "headerLines hs = concat (map (\<lambda>h. renderHeader h @ CRLF) hs)"

lemma headerLines_simps [simp]:
  "headerLines [] = []" "headerLines (h # hs) = renderHeader h @ CRLF @ headerLines hs"
  "headerLines (hs @ hs') = headerLines hs @ headerLines hs'"
  by (simp_all add: headerLines_def)

lemma headerBlock_lines: "headerBlock (map renderHeader hs) = headerLines hs @ CRLF"
  by (simp add: headerBlock_def headerLines_def comp_def)

lemma headerPieces_lines: "concat (map pieceBytes (headerPieces h)) = headerLines (entryHeaders h)"
proof -
  have one: "concat (map pieceBytes (concat (map (\<lambda>v. [S k, S (str '': ''), S (cleanValue v), S CRLF]) vs))) =
      headerLines (map (\<lambda>v. \<lparr>h_Name = k, h_Value = cleanValue v\<rparr>) vs)" for k vs
    by (induction vs) (simp_all add: renderHeader_def)
  have "concat (map pieceBytes (concat (map (\<lambda>(k, vs). concat (map (\<lambda>v. [S k, S (str '': ''), S (cleanValue v), S CRLF]) vs)) es))) =
      headerLines (concat (map (\<lambda>(k, vs). map (\<lambda>v. \<lparr>h_Name = k, h_Value = cleanValue v\<rparr>) vs) es))" for es
    by (induction es) (auto simp: one [simplified])
  then show ?thesis by (simp add: headerPieces_def entryHeaders_def)
qed

lemma headBytes_lines:
  assumes "rw_trailer w = []"
  shows "headBytes date w = startLine (rw_statusCode w) @ CRLF @ headerBlock (map renderHeader (headHeaders date w))"
proof (cases "fastHead w")
  case True
  then have "rw_statusCode w = 200" by (simp add: fastHead_def)
  with True show ?thesis
    unfolding headerBlock_lines headBytes_def headPieces_def fastHeadPieces_def headHeaders_def
    using startLine_200
    by (simp add: renderHeader_def dateHeader_def headerContentType_def headerContentLength_def headerDateKey_def)
next
  case False
  then show ?thesis
    unfolding headerBlock_lines headBytes_def headPieces_def
    using assms
    by (simp add: headHeaders_def headerPieces_lines startPieces_def framingPieces_def statusLine_eq
        renderHeader_def dateHeader_def headerDateKey_def headerTransferEnc_def)
qed

section \<open>Header lines that parse\<close>

lemma token_no_sep: "isTokenByte c \<Longrightarrow> c \<noteq> COLON \<and> c \<noteq> CR \<and> c \<noteq> LF"
  by (auto simp: isTokenByte_def)

lemma validHeaderFieldName_ok:
  "validHeaderFieldName k \<Longrightarrow> COLON \<notin> set k \<and> CR \<notin> set k \<and> LF \<notin> set k \<and> k \<noteq> []"
  using token_no_sep by (fastforce simp: validHeaderFieldName_def list_all_iff)

lemma set_trimOWS: "set (trimOWS v) \<subseteq> set v"
  by (auto simp: trimOWS_def dest!: set_dropWhileD)

lemma hd_rev_dropWhile: "rev (dropWhile P (rev xs)) \<noteq> [] \<Longrightarrow> hd (rev (dropWhile P (rev xs))) = hd xs"
proof (induction xs rule: rev_induct)
  case (snoc x xs)
  then show ?case by (cases xs) (auto split: if_splits)
qed simp

lemma trimmed_trimOWS: "trimmed (trimOWS v)"
proof (cases "trimOWS v = []")
  case False
  let ?s = "\<lambda>c. c = SP \<or> c = HTAB"
  have "hd (trimOWS v) = hd (dropWhile ?s v)" using False unfolding trimOWS_def by (rule hd_rev_dropWhile)
  moreover have "dropWhile ?s v \<noteq> []" using False unfolding trimOWS_def by (metis dropWhile.simps(1) rev.simps(1))
  ultimately show ?thesis using hd_dropWhile [of ?s v] by (simp add: trimmed_iff)
qed (simp add: trimmed_def)

lemma cleanValue_ok: "LF \<notin> set (cleanValue v) \<and> trimmed (cleanValue v)"
  using set_trimOWS [of "map (\<lambda>c. if c = LF \<or> c = CR then SP else c) v"]
  by (auto simp: cleanValue_def trimmed_trimOWS split: if_splits)

lemma entryHeaders_ok: "list_all header_ok (entryHeaders h)"
  using validHeaderFieldName_ok cleanValue_ok
  by (fastforce simp: entryHeaders_def sortedEntries_def list_all_iff header_ok_def)

text \<open>A value that is written and read back as it is.\<close>

definition value_ok :: "bytes \<Rightarrow> bool" where
  "value_ok v \<longleftrightarrow> LF \<notin> set v \<and> trimmed v"

lemma named_header_ok:
  "k \<in> {headerDateKey, headerContentType, headerContentLength, headerTransferEnc} \<Longrightarrow> value_ok v \<Longrightarrow>
     header_ok \<lparr>h_Name = k, h_Value = v\<rparr>"
  by (auto simp: header_ok_def value_ok_def headerDateKey_def headerContentType_def headerContentLength_def
      headerTransferEnc_def)

lemma headHeaders_ok:
  assumes "value_ok date" "value_ok (firstHeaderValue (rw_header w) headerContentType)"
    and "value_ok (firstHeaderValue (rw_header w) headerContentLength)"
  shows "list_all header_ok (headHeaders date w)"
  using assms entryHeaders_ok named_header_ok
  by (auto simp: headHeaders_def dateHeader_def value_ok_def trimmed_def)

section \<open>Framing\<close>

definition framingHeader :: "headerLine \<Rightarrow> bool" where
  "framingHeader h \<longleftrightarrow> equalFoldToken (h_Name h) ''content-length'' \<or> equalFoldToken (h_Name h) ''transfer-encoding''"

lemma applyMetas_filter: "applyMetas m hs = applyMetas m (filter framingHeader hs)"
proof (induction hs arbitrary: m)
  case (Cons h hs)
  show ?case
  proof (cases "framingHeader h")
    case False
    then have "applyHeaderMeta m h = Some m" by (simp add: applyHeaderMeta_def framingHeader_def)
    with False Cons.IH show ?thesis by simp
  next
    case True
    with Cons.IH show ?thesis by (auto split: option.split)
  qed
qed simp

text \<open>
  Header maps of a handler that leaves the framing to the writer: no key is Content-Length or
  Transfer-Encoding in any letter case, keys are distinct, and the first Content-Type is a value
  without a line feed or leading space (the fast path of \<^verbatim>\<open>ensureHeaderSent\<close> writes it as it is).
\<close>

definition handlerHeaders :: "headerMap \<Rightarrow> bool" where
  "handlerHeaders h \<longleftrightarrow>
     distinct (map fst h) \<and> value_ok (firstHeaderValue h headerContentType) \<and>
     list_all (\<lambda>(k, _). \<not> equalFoldToken k ''content-length'' \<and> \<not> equalFoldToken k ''transfer-encoding'') h"

lemma handlerHeaders_keys:
  assumes "handlerHeaders h"
  shows "headerContentLength \<notin> fst ` set h" "headerTransferEnc \<notin> fst ` set h"
proof -
  have "equalFoldToken headerContentLength ''content-length''" "equalFoldToken headerTransferEnc ''transfer-encoding''"
    by code_simp+
  with assms show "headerContentLength \<notin> fst ` set h" "headerTransferEnc \<notin> fst ` set h"
    by (auto simp: handlerHeaders_def list_all_iff)
qed

lemma firstHeaderValue_absent: "k \<notin> fst ` set h \<Longrightarrow> firstHeaderValue h k = []"
  by (simp add: firstHeaderValue_def map_of_eq_None_iff [THEN iffD2])

lemma handlerHeaders_unframed: "handlerHeaders h \<Longrightarrow> unframed h"
  by (simp add: unframed_def firstHeaderValue_absent handlerHeaders_keys)

lemma update_absent: "k \<notin> fst ` set h \<Longrightarrow> AList.update k v h = h @ [(k, v)]"
  by (induction h) auto

lemma handlerHeaders_sniffed:
  assumes "handlerHeaders h" "\<And>x. value_ok (detect x)"
  shows "handlerHeaders (sniffed detect p h)"
proof (cases "firstHeaderValue h headerContentType = []")
  case True
  have "\<not> equalFoldToken headerContentType ''content-length''" "\<not> equalFoldToken headerContentType ''transfer-encoding''"
    by code_simp+
  moreover have "set (AList.update headerContentType [x] h) \<subseteq> insert (headerContentType, [x]) (set h)" for x
    by (induction h) auto
  ultimately show ?thesis
    using True assms firstHeaderValue_set [of headerContentType "detect (take 512 p)" h headerContentType]
      distinct_update [of h headerContentType "[detect (take 512 p)]"]
    unfolding handlerHeaders_def sniffed_def setSingleHeaderValue_def list_all_iff by fastforce
qed (use assms in \<open>simp add: sniffed_def\<close>)

lemma sortedEntries_key:
  "filter (\<lambda>(k, _). k = key) (sortedEntries h) =
     (if validHeaderFieldName key then filter (\<lambda>(k, _). k = key) h else [])"
proof -
  have "filter (\<lambda>(k, _). k = key) (sort_key fst h) = filter (\<lambda>(k, _). k = key) h"
    using sort_key_stable [of fst key h] by (simp add: case_prod_unfold)
  moreover have "filter (\<lambda>(k, _). k = key) (filter (\<lambda>(k, _). validHeaderFieldName k) es) =
      (if validHeaderFieldName key then filter (\<lambda>(k, _). k = key) es else [])" for es :: headerMap
    by (induction es) auto
  ultimately show ?thesis by (simp add: sortedEntries_def)
qed

lemma entryHeaders_framing:
  assumes "\<And>k vs. (k, vs) \<in> set h \<Longrightarrow> k \<noteq> key \<Longrightarrow> \<not> framingHeader \<lparr>h_Name = k, h_Value = []\<rparr>"
  shows "filter framingHeader (entryHeaders h) =
    filter framingHeader (concat (map (\<lambda>(k, vs). map (\<lambda>v. \<lparr>h_Name = k, h_Value = cleanValue v\<rparr>) vs)
      (filter (\<lambda>(k, _). k = key) (sortedEntries h))))"
proof -
  let ?f = "\<lambda>(k, vs). map (\<lambda>v. \<lparr>h_Name = k, h_Value = cleanValue v\<rparr>) vs"
  have none: "filter framingHeader (map (\<lambda>v. \<lparr>h_Name = k, h_Value = cleanValue v\<rparr>) vs) = []"
    if "\<not> framingHeader \<lparr>h_Name = k, h_Value = []\<rparr>" for k vs
    using that by (induction vs) (simp_all add: framingHeader_def)
  have "filter framingHeader (concat (map ?f es)) = filter framingHeader (concat (map ?f (filter (\<lambda>(k, _). k = key) es)))"
    if "set es \<subseteq> set h" for es
    using that by (induction es) (auto simp: none assms)
  moreover have "set (sortedEntries h) \<subseteq> set h" by (auto simp: sortedEntries_def)
  ultimately show ?thesis by (simp add: entryHeaders_def)
qed

text \<open>The framing headers of the two kinds of response.\<close>

lemma handlerHeaders_not_framing:
  "handlerHeaders h \<Longrightarrow> (k, vs) \<in> set h \<Longrightarrow> \<not> framingHeader \<lparr>h_Name = k, h_Value = []\<rparr>"
  by (auto simp: handlerHeaders_def framingHeader_def list_all_iff)

lemma framing_names:
  "framingHeader \<lparr>h_Name = headerContentLength, h_Value = v\<rparr>"
  "framingHeader \<lparr>h_Name = headerTransferEnc, h_Value = v\<rparr>"
  "\<not> framingHeader \<lparr>h_Name = headerContentType, h_Value = v\<rparr>"
  "\<not> framingHeader (dateHeader date)"
  by (simp_all add: framingHeader_def dateHeader_def equalFoldToken_eq headerContentLength_def
      headerContentType_def headerTransferEnc_def headerDateKey_def) (code_simp)+

lemma itoa_digits: "list_all isDigit (itoa n)" "itoa n \<noteq> []"
proof -
  have d: "isDigit (word_of_nat (48 + m))" if "m < 10" for m
    unfolding isDigit_def word_le_nat_alt unat_of_nat using that by simp
  show "list_all isDigit (itoa n)"
  proof (induction n rule: itoa.induct)
    case (1 n)
    then show ?case using d by (subst itoa.simps) auto
  qed
  show "itoa n \<noteq> []" by (subst itoa.simps) simp
qed

lemma decValue_itoa: "decValue (itoa n) = n"
proof (induction n rule: itoa.induct)
  case (1 n)
  have d: "unat (word_of_nat (48 + m) - DIGIT0 :: byte) = m" if "m < 10" for m
    using that by (simp add: unat_of_nat)
  show ?case
  proof (cases "n < 10")
    case True
    then show ?thesis using d by (subst itoa.simps) (simp add: decValue_def)
  next
    case False
    then have "decValue (itoa n) = decValue (itoa (n div 10)) * 10 + n mod 10"
      using d [of "n mod 10"] by (subst itoa.simps) (simp add: decValue_def)
    with 1 False show ?thesis by simp
  qed
qed

lemma digits_value_ok: "list_all isDigit v \<Longrightarrow> value_ok v"
  by (cases v) (auto simp: value_ok_def trimmed_def isDigit_def list_all_iff)

lemma cleanValue_digits: "list_all isDigit v \<Longrightarrow> cleanValue v = v"
proof -
  assume d: "list_all isDigit v"
  then have "\<forall>c \<in> set v. c \<noteq> LF \<and> c \<noteq> CR \<and> c \<noteq> SP \<and> c \<noteq> HTAB" by (auto simp: isDigit_def list_all_iff)
  then have no: "c \<in> set v \<Longrightarrow> c \<noteq> LF \<and> c \<noteq> CR \<and> c \<noteq> SP \<and> c \<noteq> HTAB" for c by blast
  have dw: "dropWhile (\<lambda>c. c = SP \<or> c = HTAB) u = u" if "set u = set v" for u
  proof (cases u)
    case (Cons c cs)
    then have "c \<in> set v" using that by auto
    from no [OF this] Cons show ?thesis by simp
  qed simp
  have "map (\<lambda>c. if c = LF \<or> c = CR then SP else c) v = v" using no by (simp add: map_idI)
  then show ?thesis using dw [of v] dw [of "rev v"] by (simp add: cleanValue_def trimOWS_def)
qed


lemma entryHeaders_length:
  assumes "handlerHeaders h" "list_all isDigit v"
  shows "filter framingHeader (entryHeaders (setSingleHeaderValue headerContentLength v h)) =
    [\<lparr>h_Name = headerContentLength, h_Value = v\<rparr>]"
proof -
  note absent = handlerHeaders_keys(1) [OF assms(1)]
  have upd: "setSingleHeaderValue headerContentLength v h = h @ [(headerContentLength, [v])]"
    using absent by (simp add: setSingleHeaderValue_def update_absent)
  have "filter (\<lambda>(k, _). k = headerContentLength) h = []"
    using absent by (auto simp: filter_empty_conv image_iff)
  moreover have "validHeaderFieldName headerContentLength" by code_simp
  ultimately have "filter (\<lambda>(k, _). k = headerContentLength) (sortedEntries (h @ [(headerContentLength, [v])])) =
      [(headerContentLength, [v])]"
    by (simp add: sortedEntries_key)
  moreover have "\<not> framingHeader \<lparr>h_Name = k, h_Value = []\<rparr>"
    if "(k, vs) \<in> set (h @ [(headerContentLength, [v])])" "k \<noteq> headerContentLength" for k vs
    using that handlerHeaders_not_framing [OF assms(1), of k vs] by auto
  ultimately show ?thesis
    unfolding upd using assms(2) by (subst entryHeaders_framing) (auto simp: framing_names cleanValue_digits)
qed

lemma entryHeaders_unframed: "handlerHeaders h \<Longrightarrow> filter framingHeader (entryHeaders h) = []"
  using handlerHeaders_not_framing
  by (fastforce simp: entryHeaders_def sortedEntries_def framingHeader_def filter_empty_conv)

lemma headHeaders_framing_length:
  assumes "handlerHeaders h" "list_all isDigit v" "v \<noteq> []"
  shows "filter framingHeader (headHeaders date (template (setSingleHeaderValue headerContentLength v h) code)) =
    [\<lparr>h_Name = headerContentLength, h_Value = v\<rparr>]"
  using assms entryHeaders_length [OF assms(1,2)]
  by (auto simp: headHeaders_def framing_names willChunk_def template_def zeroResponseWriter_def)

lemma headHeaders_framing_chunked:
  assumes "handlerHeaders h"
  shows "filter framingHeader (headHeaders date (template h code)) =
    [\<lparr>h_Name = headerTransferEnc, h_Value = str ''chunked''\<rparr>]"
  using assms entryHeaders_unframed [OF assms] handlerHeaders_unframed [OF assms]
  by (auto simp: headHeaders_def framing_names willChunk_def template_def zeroResponseWriter_def unframed_def
      fastHead_def)

lemma applyMetas_length:
  assumes "filter framingHeader hs = [\<lparr>h_Name = headerContentLength, h_Value = itoa n\<rparr>]"
  shows "applyMetas (newMeta RESPONSE st) hs =
    Some ((newMeta RESPONSE st)\<lparr>m_hasContentLength := True, m_contentLength := word_of_nat n\<rparr>)"
proof -
  have "equalFoldToken headerContentLength ''content-length''" by code_simp
  then show ?thesis
    using itoa_digits [of n]
    by (subst applyMetas_filter) (simp add: assms applyHeaderMeta_def newMeta_def parseDecimalInt32_eq decValue_itoa)
qed

lemma applyMetas_chunked:
  assumes "filter framingHeader hs = [\<lparr>h_Name = headerTransferEnc, h_Value = str ''chunked''\<rparr>]"
  shows "applyMetas (newMeta RESPONSE st) hs = Some ((newMeta RESPONSE st)\<lparr>m_hasTransferEncoding := True\<rparr>)"
proof -
  have "equalFoldToken headerTransferEnc ''transfer-encoding''" "\<not> equalFoldToken headerTransferEnc ''content-length''"
    "equalFoldToken (str ''chunked'') ''chunked''" by code_simp+
  then show ?thesis by (subst applyMetas_filter) (simp add: assms applyHeaderMeta_def)
qed

section \<open>The status line\<close>

lemma itoa_three:
  assumes "100 \<le> n" "n \<le> 999"
  obtains d1 d2 d3 where "itoa n = [d1, d2, d3]"
proof -
  have "itoa n = itoa (n div 10 div 10) @ [word_of_nat (48 + n div 10 mod 10)] @ [word_of_nat (48 + n mod 10)]"
    using assms by (subst itoa.simps, subst itoa.simps) simp
  moreover have "itoa (n div 10 div 10) = [word_of_nat (48 + n div 10 div 10)]"
    using assms by (subst itoa.simps) simp
  ultimately show thesis using that by simp
qed

lemma statusTexts_no_LF: "list_all (\<lambda>(_, t). LF \<notin> set (str t)) statusTexts"
  by code_simp

lemma isDigit_not_LF: "list_all isDigit v \<Longrightarrow> LF \<notin> set v"
  by (auto simp: isDigit_def list_all_iff)

lemma reasonOf_no_LF: "0 \<le> code \<Longrightarrow> LF \<notin> set (reasonOf code)"
  using statusTexts_no_LF isDigit_not_LF [OF itoa_digits(1), of "nat code"]
  by (auto simp: reasonOf_def StatusText_def itoaInt_def list_all_iff dest!: map_of_SomeD split: option.splits)

lemma startLine_parses:
  assumes "100 \<le> code" "code \<le> 999"
  shows "parseResponseLineBytes (startLine code) =
      Some \<lparr>sl_Major = 1, sl_Minor = 1, sl_StatusCode = word_of_int code, sl_Reason = reasonOf code\<rparr>"
    and "scanCRLFBytes (startLine code @ [CR]) = None"
proof -
  have "100 \<le> nat code" "nat code \<le> 999" using assms by linarith+
  then obtain d1 d2 d3 where d: "itoa (nat code) = [d1, d2, d3]" by (rule itoa_three)
  have i: "itoaInt code = [d1, d2, d3]" using assms(1) d by (simp add: itoaInt_def)
  have v: "decValue [d1, d2, d3] = nat code" using decValue_itoa [of "nat code"] d by simp
  have c: "(word_of_int code :: uint16) = ucast (word_of_nat (nat code) :: int32)"
    using assms by (simp add: ucast_eq uint_word_of_int)
  show "parseResponseLineBytes (startLine code) =
      Some \<lparr>sl_Major = 1, sl_Minor = 1, sl_StatusCode = word_of_int code, sl_Reason = reasonOf code\<rparr>"
    by (rule parseResponseLineBytes_intro [where ?d1.0 = d1 and ?d2.0 = d2 and ?d3.0 = d3 and t = "SP # reasonOf code"])
      (use itoa_digits(1) [of "nat code"] d v c in \<open>simp_all add: startLine_def i\<close>)
  show "scanCRLFBytes (startLine code @ [CR]) = None"
    using reasonOf_no_LF [of code] isDigit_not_LF [OF itoa_digits(1), of "nat code"] assms(1) d
    by (intro scanCRLFBytes_no_LF) (simp add: startLine_def i)
qed


section \<open>Properties\<close>

lemma length_concat_mem: "p \<in> set ps \<Longrightarrow> length p \<le> length (concat ps)"
  by (induction ps) auto

text \<open>
  The message a response reads back to: the header lines are those of the head the writer chose,
  the framing is a length for a body of at most one piece and chunks otherwise.
\<close>

definition finalHeaders :: "(bytes \<Rightarrow> bytes) \<Rightarrow> headerMap \<Rightarrow> bytes list \<Rightarrow> headerMap" where
  "finalHeaders detect h ps =
     (case ps of
        [] \<Rightarrow> setSingleHeaderValue headerContentLength (itoa 0) h
      | [p] \<Rightarrow> setSingleHeaderValue headerContentLength (itoa (length p)) (sniffed detect p h)
      | p # _ \<Rightarrow> sniffed detect p h)"

definition finalMeta :: "int \<Rightarrow> bytes list \<Rightarrow> messageMeta" where
  "finalMeta code ps =
     (if length ps \<le> 1
      then (newMeta RESPONSE (word_of_int code))\<lparr>m_hasContentLength := True,
             m_contentLength := word_of_nat (length (concat ps))\<rparr>
      else (newMeta RESPONSE (word_of_int code))\<lparr>m_hasTransferEncoding := True\<rparr>)"

definition sentMessage :: "(bytes \<Rightarrow> bytes) \<Rightarrow> bytes \<Rightarrow> headerMap \<Rightarrow> int \<Rightarrow> bytes list \<Rightarrow> parsedMessage" where
  "sentMessage detect date h code ps =
     \<lparr>pm_kind = RESPONSE, pm_request = zeroRequestLine,
      pm_response = \<lparr>sl_Major = 1, sl_Minor = 1, sl_StatusCode = word_of_int code, sl_Reason = reasonOf code\<rparr>,
      pm_headers = headHeaders date (template (finalHeaders detect h ps) code),
      pm_body = concat ps, pm_mode = decideBodyMode (finalMeta code ps), pm_meta = finalMeta code ps\<rparr>"

lemma finalHeaders_ok:
  assumes "handlerHeaders h" "\<And>x. value_ok (detect x)" "value_ok date"
  shows "list_all header_ok (headHeaders date (template (finalHeaders detect h ps) code))"
proof (rule headHeaders_ok [OF assms(3)])
  have v: "value_ok (itoa n)" for n by (rule digits_value_ok [OF itoa_digits(1)])
  have e: "value_ok []" by (simp add: value_ok_def trimmed_def)
  have h: "value_ok (firstHeaderValue h headerContentType)" "value_ok (firstHeaderValue (sniffed detect p h) headerContentType)"
    "firstHeaderValue (sniffed detect p h) headerContentLength = []" for p
    using assms(1) handlerHeaders_sniffed [where p = p, OF assms(1,2)]
      handlerHeaders_unframed [OF handlerHeaders_sniffed [where p = p, OF assms(1,2)]]
    by (simp_all add: handlerHeaders_def unframed_def)
  show "value_ok (firstHeaderValue (rw_header (template (finalHeaders detect h ps) code)) headerContentType)"
    "value_ok (firstHeaderValue (rw_header (template (finalHeaders detect h ps) code)) headerContentLength)"
    using v h e header_keys_distinct(1)
    by (auto simp: template_def zeroResponseWriter_def finalHeaders_def split: list.split)
qed

lemma finalMeta_applied:
  assumes "handlerHeaders h" "\<And>x. value_ok (detect x)"
  shows "applyMetas (newMeta RESPONSE (word_of_int code))
    (headHeaders date (template (finalHeaders detect h ps) code)) = Some (finalMeta code ps)"
proof (cases ps rule: remdups_adj.cases)
  case 1
  then show ?thesis
    using applyMetas_length [where n = 0, OF headHeaders_framing_length [OF assms(1) itoa_digits(1,2)]]
    by (simp add: finalHeaders_def finalMeta_def)
next
  case (2 p)
  then show ?thesis
    using applyMetas_length [OF headHeaders_framing_length [OF handlerHeaders_sniffed [OF assms] itoa_digits(1,2)]]
    by (simp add: finalHeaders_def finalMeta_def)
next
  case (3 p q ps')
  then show ?thesis
    using applyMetas_chunked [OF headHeaders_framing_chunked [OF handlerHeaders_sniffed [OF assms]]]
    by (simp add: finalHeaders_def finalMeta_def)
qed

lemma finalBody:
  assumes "list_all (\<lambda>p. p \<noteq> []) ps" "length (concat ps) < 2 ^ 31"
  shows "responseBytes detect date h code ps =
      headBytes date (template (finalHeaders detect h ps) code) @ encodeBody (decideBodyMode (finalMeta code ps)) ps"
    and "body_ok (finalMeta code ps) ps"
proof -
  have cl: "sint (word_of_nat (length (concat ps)) :: int32) = int (length (concat ps))"
    using assms(2) by (rule sint_word_of_nat32)
  have z: "(word_of_nat (length (concat ps)) :: int32) = 0 \<longleftrightarrow> concat ps = []"
    using word_of_nat32_eq_0 [OF assms(2)] by simp
  have ck: "list_all chunk_ok ps"
    using assms length_concat_mem by (auto simp: chunk_ok_def list_all_iff intro: le_less_trans)
  show "body_ok (finalMeta code ps) ps"
    using cl z ck by (auto simp: body_ok_def finalMeta_def decideBodyMode_def newMeta_def)
  show "responseBytes detect date h code ps =
      headBytes date (template (finalHeaders detect h ps) code) @ encodeBody (decideBodyMode (finalMeta code ps)) ps"
    using z assms(1)
    by (cases ps rule: remdups_adj.cases)
      (auto simp: responseBytes_def finalHeaders_def finalMeta_def encodeBody_def decideBodyMode_def newMeta_def)
qed


lemma responseBytes_parses:
  assumes "handlerHeaders h" "\<And>x. value_ok (detect x)" "value_ok date" "100 \<le> code" "code \<le> 999"
    and "list_all (\<lambda>p. p \<noteq> []) ps" "length (concat ps) < 2 ^ 31"
  shows "parseMessageDetailed (responseBytes detect date h code ps) RESPONSE = Parsed (sentMessage detect date h code ps)"
proof -
  let ?hs = "headHeaders date (template (finalHeaders detect h ps) code)"
  have "headBytes date (template (finalHeaders detect h ps) code) =
      startLine code @ CRLF @ headerBlock (map renderHeader ?hs)"
    by (subst headBytes_lines) (simp_all add: template_def zeroResponseWriter_def)
  then have bytes: "responseBytes detect date h code ps =
      startLine code @ CRLF @ headerBlock (map renderHeader ?hs) @ encodeBody (decideBodyMode (finalMeta code ps)) ps"
    using finalBody(1) [OF assms(6,7)] by simp
  show ?thesis
    unfolding parseMessageDetailed_eq_messageB messageB_Parsed_iff sentMessage_def
    using startLine_parses [OF assms(4,5)] renderHeaders_parse [OF finalHeaders_ok [OF assms(1-3)]]
      finalMeta_applied [OF assms(1,2)] bodyB_encodeBody [OF finalBody(2) [OF assms(6,7)]] bytes
    by (intro conjI exI [of _ "startLine code"] exI [of _ "map renderHeader ?hs"]
        exI [of _ "encodeBody (decideBodyMode (finalMeta code ps)) ps"])
      (simp_all add: start_ok_def startMeta_def)
qed


text \<open>A writer of the default size over a connection that takes everything.\<close>

definition openWriter :: writer where
  "openWriter = \<lparr>wr_size = 4096, wr_buf = [], wr_err = None, wr_sent = [], wr_room = None\<rparr>"


end
