(* ===== verification/Conn_State.thy ===== *)
theory Conn_State
  imports Response_Writer
begin

text \<open>
  The connection state of \<^verbatim>\<open>engine/engine.go\<close>: its operations, its reference count, and the
  interleavings of the calls that share it. \<^verbatim>\<open>netpoll\<close> calls \<^verbatim>\<open>ServeConn\<close> when data arrives and the
  disconnect callback once; each call runs in a goroutine of its own. The step relation takes the
  atomic actions of those goroutines one at a time.
\<close>

section \<open>Definitions\<close>

subsection \<open>The state and its operations\<close>

text \<open>
  \<open>cs_done\<close> is the channel: \<open>None\<close> is nil, \<open>Some closed\<close> otherwise. \<open>cs_err\<close> says whether the
  error is \<^verbatim>\<open>context.Canceled\<close> or nil.
\<close>

record ConnectionState =
  cs_Reader :: "reader option"
  cs_Writer :: "writer option"
  cs_RemoteAddr :: bytes
  cs_ReadHandler :: "objId option"
  cs_ReadTimeout :: int
  cs_Processing :: bool
  cs_refCount :: int32
  cs_done :: "bool option"
  cs_err :: bool

definition zeroState :: ConnectionState where
  "zeroState =
     \<lparr>cs_Reader = None, cs_Writer = None, cs_RemoteAddr = [], cs_ReadHandler = None, cs_ReadTimeout = 0,
      cs_Processing = False, cs_refCount = 0, cs_done = None, cs_err = False\<rparr>"

definition initState :: "int \<Rightarrow> ConnectionState \<Rightarrow> ConnectionState" where
  "initState readTimeout s =
     s\<lparr>cs_ReadTimeout := readTimeout, cs_refCount := 1, cs_done := Some False, cs_err := False\<rparr>"

definition NewConnectionState :: "int \<Rightarrow> nat \<Rightarrow> ConnectionState list \<Rightarrow> ConnectionState \<times> ConnectionState list" where
  "NewConnectionState readTimeout i pool =
     (case poolGet zeroState i pool of (s, pool) \<Rightarrow> (initState readTimeout s, pool))"

definition cs_Reset :: "ConnectionState \<Rightarrow> ConnectionState" where
  "cs_Reset s =
     s\<lparr>cs_Reader := None, cs_Writer := None, cs_RemoteAddr := [], cs_ReadHandler := None,
       cs_Processing := False, cs_ReadTimeout := 0, cs_refCount := 0, cs_done := None, cs_err := False\<rparr>"

definition Done :: "ConnectionState \<Rightarrow> bool option" where
  "Done s = cs_done s"

definition Err :: "ConnectionState \<Rightarrow> bool" where
  "Err s = cs_err s"

text \<open>\<^verbatim>\<open>Cancel\<close>; \<open>None\<close> is the panic of closing a nil or closed channel.\<close>

definition Cancel :: "ConnectionState \<Rightarrow> ConnectionState option" where
  "Cancel s =
     (if \<not> cs_err s
      then (if cs_done s = Some False then Some (s\<lparr>cs_err := True, cs_done := Some True\<rparr>) else None)
      else Some s)"

definition AcquireConnectionState :: "ConnectionState \<Rightarrow> ConnectionState" where
  "AcquireConnectionState s = s\<lparr>cs_refCount := cs_refCount s + 1\<rparr>"

text \<open>The engine's pools of readers and writers, and the pool of connection states.\<close>

record pools =
  readerPool :: "reader list"
  writerPool :: "writer list"
  statePool :: "ConnectionState list"

text \<open>\<^verbatim>\<open>Reset\<close> of the buffered reader and writer to the parked ends.\<close>

definition parkReader :: "reader \<Rightarrow> reader" where
  "parkReader r = r\<lparr>rd_buf := [], rd_src := [], rd_end := ErrEOF\<rparr>"

definition parkWriter :: "writer \<Rightarrow> writer" where
  "parkWriter w = w\<lparr>wr_buf := [], wr_err := None, wr_sent := [], wr_room := None\<rparr>"

definition releasePooledIO :: "ConnectionState \<Rightarrow> pools \<Rightarrow> ConnectionState \<times> pools" where
  "releasePooledIO s ps =
     (let (s, ps) =
            (case cs_Reader s of
               Some r \<Rightarrow> (s\<lparr>cs_Reader := None\<rparr>, ps\<lparr>readerPool := poolPut (parkReader r) (readerPool ps)\<rparr>)
             | None \<Rightarrow> (s, ps))
      in case cs_Writer s of
           Some w \<Rightarrow> (s\<lparr>cs_Writer := None\<rparr>, ps\<lparr>writerPool := poolPut (parkWriter w) (writerPool ps)\<rparr>)
         | None \<Rightarrow> (s, ps))"

definition ReleaseConnectionState :: "ConnectionState \<Rightarrow> pools \<Rightarrow> ConnectionState \<times> pools" where
  "ReleaseConnectionState s ps =
     (let s = s\<lparr>cs_refCount := cs_refCount s - 1\<rparr>
      in if cs_refCount s = 0
         then
           (case releasePooledIO s ps of (s, ps) \<Rightarrow>
              (let s = cs_Reset s in (s, ps\<lparr>statePool := poolPut s (statePool ps)\<rparr>)))
         else (s, ps))"

subsection \<open>Interleavings\<close>

text \<open>
  Where a \<^verbatim>\<open>ServeConn\<close> call stands: it has been entered and holds no reference yet, holds a
  reference and is about to try the lock, is inside the section that \<^verbatim>\<open>Processing\<close> guards, has stored
  false in \<^verbatim>\<open>Processing\<close> for its second look at the input, has found input and is about to try the
  lock again, has found none and is about to release the reader and writer, or is about to drop its
  reference.
\<close>

datatype pc = Entered | Referenced | Critical | Unlocked | HasData | NoInput | Leaving

text \<open>
  The shared state, the calls in progress, whether the connection is still connected, and whether
  a call has dereferenced a nil reader.
\<close>

record system =
  sy_state :: ConnectionState
  sy_pools :: pools
  sy_calls :: "pc list"
  sy_connected :: bool
  sy_panicked :: bool

definition setCall :: "nat \<Rightarrow> pc \<Rightarrow> system \<Rightarrow> system" where
  "setCall i p y = y\<lparr>sy_calls := (sy_calls y)[i := p]\<rparr>"

definition endCall :: "nat \<Rightarrow> system \<Rightarrow> system" where
  "endCall i y = y\<lparr>sy_calls := take i (sy_calls y) @ drop (i + 1) (sy_calls y)\<rparr>"

text \<open>\<^verbatim>\<open>state.Reader == nil\<close> and \<^verbatim>\<open>state.Writer == nil\<close>: the pools' objects, reset to the connection.\<close>

definition takeIO :: "reader \<Rightarrow> writer \<Rightarrow> ConnectionState \<Rightarrow> ConnectionState" where
  "takeIO r w s =
     (let s = (if cs_Reader s = None then s\<lparr>cs_Reader := Some r\<rparr> else s)
      in if cs_Writer s = None then s\<lparr>cs_Writer := Some w\<rparr> else s)"

definition applyRelease :: "(ConnectionState \<Rightarrow> pools \<Rightarrow> ConnectionState \<times> pools) \<Rightarrow> system \<Rightarrow> system" where
  "applyRelease f y =
     (case f (sy_state y) (sy_pools y) of (s, ps) \<Rightarrow> y\<lparr>sy_state := s, sy_pools := ps\<rparr>)"

inductive step :: "system \<Rightarrow> system \<Rightarrow> bool" where
  \<comment> \<open>\<^verbatim>\<open>netpoll\<close> calls \<^verbatim>\<open>ServeConn\<close> while the connection is open\<close>
  enter: "sy_connected y \<Longrightarrow> step y (y\<lparr>sy_calls := sy_calls y @ [Entered]\<rparr>)"
| acquire: "i < length (sy_calls y) \<Longrightarrow> sy_calls y ! i = Entered \<Longrightarrow>
    step y (setCall i Referenced (y\<lparr>sy_state := AcquireConnectionState (sy_state y)\<rparr>))"
| lock: "i < length (sy_calls y) \<Longrightarrow> sy_calls y ! i = Referenced \<Longrightarrow> \<not> cs_Processing (sy_state y) \<Longrightarrow>
    step y (setCall i Critical (y\<lparr>sy_state := takeIO r w ((sy_state y)\<lparr>cs_Processing := True\<rparr>)\<rparr>))"
| busy: "i < length (sy_calls y) \<Longrightarrow> sy_calls y ! i = Referenced \<Longrightarrow> cs_Processing (sy_state y) \<Longrightarrow>
    step y (setCall i Leaving y)"
  \<comment> \<open>the section sets fields of the state, among them the read handler and the reader's contents\<close>
| work: "i < length (sy_calls y) \<Longrightarrow> sy_calls y ! i = Critical \<Longrightarrow> cs_Reader (sy_state y) = Some r\<^sub>0 \<Longrightarrow>
    step y (y\<lparr>sy_state := (sy_state y)\<lparr>cs_Reader := Some r, cs_ReadHandler := h, cs_RemoteAddr := a\<rparr>\<rparr>)"
  \<comment> \<open>\<^verbatim>\<open>releasePooledIO\<close> and then \<^verbatim>\<open>Processing.Store(false)\<close>\<close>
| leave: "i < length (sy_calls y) \<Longrightarrow> sy_calls y ! i = Critical \<Longrightarrow> y' = applyRelease releasePooledIO y \<Longrightarrow>
    step y (setCall i Leaving (y'\<lparr>sy_state := (sy_state y')\<lparr>cs_Processing := False\<rparr>\<rparr>))"
  \<comment> \<open>\<^verbatim>\<open>Processing.Store(false)\<close> after a hijack or in the read handler's path\<close>
| handover: "i < length (sy_calls y) \<Longrightarrow> sy_calls y ! i = Critical \<Longrightarrow>
    step y (setCall i Leaving (y\<lparr>sy_state := (sy_state y)\<lparr>cs_Processing := False\<rparr>\<rparr>))"
| unlock: "i < length (sy_calls y) \<Longrightarrow> sy_calls y ! i = Critical \<Longrightarrow> cs_Reader (sy_state y) = Some r \<Longrightarrow>
    step y (setCall i Unlocked (y\<lparr>sy_state := (sy_state y)\<lparr>cs_Processing := False\<rparr>\<rparr>))"
  \<comment> \<open>the second look at the reader and the connection\<close>
| has_data: "i < length (sy_calls y) \<Longrightarrow> sy_calls y ! i = Unlocked \<Longrightarrow> cs_Reader (sy_state y) = Some r \<Longrightarrow>
    step y (setCall i HasData y)"
| no_input: "i < length (sy_calls y) \<Longrightarrow> sy_calls y ! i = Unlocked \<Longrightarrow> cs_Reader (sy_state y) = Some r \<Longrightarrow>
    step y (setCall i NoInput y)"
| more: "i < length (sy_calls y) \<Longrightarrow> sy_calls y ! i = HasData \<Longrightarrow> \<not> cs_Processing (sy_state y) \<Longrightarrow>
    step y (setCall i Critical (y\<lparr>sy_state := (sy_state y)\<lparr>cs_Processing := True\<rparr>\<rparr>))"
| more_busy: "i < length (sy_calls y) \<Longrightarrow> sy_calls y ! i = HasData \<Longrightarrow> cs_Processing (sy_state y) \<Longrightarrow>
    step y (setCall i Leaving y)"
  \<comment> \<open>\<^verbatim>\<open>state.Reader.Buffered()\<close> on a nil reader, and the deferred recovery of \<^verbatim>\<open>serveHTTP\<close>\<close>
| nil_reader: "i < length (sy_calls y) \<Longrightarrow> sy_calls y ! i = Critical \<or> sy_calls y ! i = Unlocked \<Longrightarrow>
    cs_Reader (sy_state y) = None \<Longrightarrow>
    step y (setCall i Leaving (y\<lparr>sy_state := (sy_state y)\<lparr>cs_Processing := False\<rparr>, sy_panicked := True\<rparr>))"
| release_io: "i < length (sy_calls y) \<Longrightarrow> sy_calls y ! i = NoInput \<Longrightarrow>
    step y (setCall i Leaving (applyRelease releasePooledIO y))"
| drop: "i < length (sy_calls y) \<Longrightarrow> sy_calls y ! i = Leaving \<Longrightarrow>
    step y (endCall i (applyRelease ReleaseConnectionState y))"
  \<comment> \<open>the disconnect callback: \<^verbatim>\<open>Cancel\<close> and the release of the connection's own reference\<close>
| disconnect: "sy_connected y \<Longrightarrow> Cancel (sy_state y) = Some s \<Longrightarrow>
    step y ((applyRelease ReleaseConnectionState (y\<lparr>sy_state := s\<rparr>))\<lparr>sy_connected := False\<rparr>)"

text \<open>
  The states reachable from a connection that has been prepared, when every step satisfies \<open>G\<close>,
  which stands for what \<^verbatim>\<open>netpoll\<close> promises about the order of its calls. At no time are there
  2 to the 30 calls or more.
\<close>

definition prepared :: "int \<Rightarrow> pools \<Rightarrow> system" where
  "prepared timeout ps = \<lparr>sy_state = initState timeout zeroState, sy_pools = ps, sy_calls = [], sy_connected = True, sy_panicked = False\<rparr>"

inductive reach :: "(system \<Rightarrow> system \<Rightarrow> bool) \<Rightarrow> pools \<Rightarrow> system \<Rightarrow> bool" for G ps where
  start: "reach G ps (prepared timeout ps)"
| next_step: "reach G ps y \<Longrightarrow> length (sy_calls y) < 2 ^ 30 \<Longrightarrow> G y y' \<Longrightarrow> step y y' \<Longrightarrow> reach G ps y'"

text \<open>
  The disconnect callback does not overtake a call that has been entered and has not taken its
  reference yet; and, stronger, calls for a connection do not overlap.
\<close>

definition orderly :: "system \<Rightarrow> system \<Rightarrow> bool" where
  "orderly y y' \<longleftrightarrow> sy_connected y' \<or> Entered \<notin> set (sy_calls y)"

definition serial :: "system \<Rightarrow> system \<Rightarrow> bool" where
  "serial y y' \<longleftrightarrow> orderly y y' \<and> length (sy_calls y') \<le> 1"

section \<open>Reference counting\<close>

lemma releasePooledIO_eq:
  "\<exists>ps'. releasePooledIO s ps = (s\<lparr>cs_Reader := None, cs_Writer := None\<rparr>, ps') \<and> statePool ps' = statePool ps"
  by (cases "cs_Reader s"; cases "cs_Writer s") (auto simp: releasePooledIO_def)

lemma ReleaseConnectionState_zero:
  "cs_refCount s = 1 \<Longrightarrow>
     \<exists>ps'. ReleaseConnectionState s ps = (zeroState, ps') \<and> statePool ps' = zeroState # statePool ps"
  using releasePooledIO_eq [of "s\<lparr>cs_refCount := 0\<rparr>" ps]
  by (auto simp: ReleaseConnectionState_def cs_Reset_def zeroState_def poolPut_def Let_def)

lemma ReleaseConnectionState_more:
  "cs_refCount s \<noteq> 1 \<Longrightarrow> ReleaseConnectionState s ps = (s\<lparr>cs_refCount := cs_refCount s - 1\<rparr>, ps)"
  by (simp add: ReleaseConnectionState_def)

text \<open>The references held: one by the connection, one by each call that has taken its own.\<close>

definition refs :: "system \<Rightarrow> nat" where
  "refs y = length (filter (\<lambda>p. p \<noteq> Entered) (sy_calls y)) + (if sy_connected y then 1 else 0)"

lemma filter_update:
  "i < length xs \<Longrightarrow>
     length (filter P (xs[i := q])) + (if P (xs ! i) then 1 else 0) = length (filter P xs) + (if P q then 1 else 0)"
proof (induction xs arbitrary: i)
  case (Cons x xs)
  then show ?case by (cases i) auto
qed simp

lemma filter_remove:
  "i < length xs \<Longrightarrow>
     length (filter P (take i xs @ drop (i + 1) xs)) + (if P (xs ! i) then 1 else 0) = length (filter P xs)"
proof (induction xs arbitrary: i)
  case (Cons x xs)
  then show ?case by (cases i) auto
qed simp

lemma filter_pos: "i < length xs \<Longrightarrow> P (xs ! i) \<Longrightarrow> 0 < length (filter P xs)"
  by (auto simp: length_filter_conv_card intro!: card_gt_0_iff [THEN iffD2])

lemma refCount_small:
  assumes "n < 2 ^ 31"
  shows "(of_nat n :: int32) = 1 \<longleftrightarrow> n = 1" "0 < n \<Longrightarrow> (of_nat n :: int32) - 1 = of_nat (n - 1)"
proof -
  have "unat (of_nat n :: int32) = n" using assms by (simp add: unat_of_nat)
  then show "(of_nat n :: int32) = 1 \<longleftrightarrow> n = 1" by (metis of_nat_1 unat_1)
qed (simp add: of_nat_diff)

text \<open>The invariant, and what it says when the last reference is gone.\<close>

definition counted :: "pools \<Rightarrow> system \<Rightarrow> bool" where
  "counted ps y \<longleftrightarrow>
     (Entered \<in> set (sy_calls y) \<longrightarrow> sy_connected y) \<and> length (sy_calls y) \<le> 2 ^ 30 \<and>
     (sy_connected y \<longrightarrow> \<not> cs_err (sy_state y) \<and> cs_done (sy_state y) = Some False) \<and>
     (if refs y = 0 then sy_state y = zeroState \<and> statePool (sy_pools y) = zeroState # statePool ps
      else cs_refCount (sy_state y) = of_nat (refs y) \<and> statePool (sy_pools y) = statePool ps)"

lemma refs_bound: "length (sy_calls y) \<le> 2 ^ 30 \<Longrightarrow> refs y < 2 ^ 31"
  by (auto simp: refs_def intro: le_less_trans [OF length_filter_le])

lemma counted_release:
  assumes "refs y = n + 1" "n < 2 ^ 31" "cs_refCount (sy_state y) = of_nat (refs y)"
    and "statePool (sy_pools y) = statePool ps"
  shows "if n = 0 then sy_state (applyRelease ReleaseConnectionState y) = zeroState \<and>
       statePool (sy_pools (applyRelease ReleaseConnectionState y)) = zeroState # statePool ps
     else cs_refCount (sy_state (applyRelease ReleaseConnectionState y)) = of_nat n \<and>
       statePool (sy_pools (applyRelease ReleaseConnectionState y)) = statePool ps \<and>
       cs_err (sy_state (applyRelease ReleaseConnectionState y)) = cs_err (sy_state y) \<and>
       cs_done (sy_state (applyRelease ReleaseConnectionState y)) = cs_done (sy_state y)"
proof (cases "n = 0")
  case True
  with assms ReleaseConnectionState_zero [of "sy_state y" "sy_pools y"] show ?thesis
    by (auto simp: applyRelease_def)
next
  case False
  have "(of_nat (n + 1) :: int32) \<noteq> 1"
  proof
    assume "(of_nat (n + 1) :: int32) = 1"
    then have "(of_nat n :: int32) = 0" by simp
    with word_of_nat32_eq_0 [OF assms(2)] False show False by simp
  qed
  with assms False ReleaseConnectionState_more [of "sy_state y" "sy_pools y"] show ?thesis
    by (simp add: applyRelease_def)
qed

lemma applyRelease_frame [simp]:
  "sy_calls (applyRelease f y) = sy_calls y" "sy_connected (applyRelease f y) = sy_connected y"
  "sy_panicked (applyRelease f y) = sy_panicked y"
  by (simp_all add: applyRelease_def split: prod.split)

lemma applyRelease_IO:
  "sy_state (applyRelease releasePooledIO y) = (sy_state y)\<lparr>cs_Reader := None, cs_Writer := None\<rparr>"
  "statePool (sy_pools (applyRelease releasePooledIO y)) = statePool (sy_pools y)"
  using releasePooledIO_eq [of "sy_state y" "sy_pools y"] by (auto simp: applyRelease_def)

lemma takeIO_frame [simp]:
  "cs_refCount (takeIO r w s) = cs_refCount s" "cs_err (takeIO r w s) = cs_err s"
  "cs_done (takeIO r w s) = cs_done s" "cs_Processing (takeIO r w s) = cs_Processing s"
  by (simp_all add: takeIO_def Let_def)

lemma counted_setCall:
  assumes "counted ps y" "i < length (sy_calls y)" "sy_calls y ! i \<noteq> Entered" "q \<noteq> Entered"
    and "sy_calls z = sy_calls y" "sy_connected z = sy_connected y"
    and "cs_refCount (sy_state z) = cs_refCount (sy_state y)" "cs_err (sy_state z) = cs_err (sy_state y)"
    and "cs_done (sy_state z) = cs_done (sy_state y)" "statePool (sy_pools z) = statePool (sy_pools y)"
  shows "counted ps (setCall i q z)"
proof -
  have "refs (setCall i q z) = refs y"
    using filter_update [OF assms(2), of "\<lambda>p. p \<noteq> Entered" q] assms(3-6) by (simp add: refs_def setCall_def)
  moreover have "0 < refs y" using filter_pos [OF assms(2), of "\<lambda>p. p \<noteq> Entered"] assms(3) by (simp add: refs_def)
  moreover have "Entered \<in> set ((sy_calls y)[i := q]) \<Longrightarrow> Entered \<in> set (sy_calls y)"
    using set_update_subset_insert [of "sy_calls y" i q] assms(4) by auto
  ultimately show ?thesis using assms(1,5-10) by (auto simp: counted_def setCall_def)
qed

lemma counted_acquire:
  assumes "counted ps y" "i < length (sy_calls y)" "sy_calls y ! i = Entered"
  shows "counted ps (setCall i Referenced (y\<lparr>sy_state := AcquireConnectionState (sy_state y)\<rparr>))"
proof -
  have "sy_connected y" using assms by (auto simp: counted_def in_set_conv_nth)
  moreover have "Entered \<in> set ((sy_calls y)[i := Referenced]) \<Longrightarrow> Entered \<in> set (sy_calls y)"
    using set_update_subset_insert [of "sy_calls y" i Referenced] by auto
  ultimately show ?thesis
    using assms filter_update [OF assms(2), of "\<lambda>p. p \<noteq> Entered" Referenced]
    by (auto simp: counted_def refs_def setCall_def AcquireConnectionState_def add.commute)
qed

lemma counted_drop:
  assumes "counted ps y" "i < length (sy_calls y)" "sy_calls y ! i = Leaving"
  shows "counted ps (endCall i (applyRelease ReleaseConnectionState y))"
proof -
  let ?y = "endCall i (applyRelease ReleaseConnectionState y)"
  have r: "refs y = refs ?y + 1"
    using filter_remove [OF assms(2), of "\<lambda>p. p \<noteq> Entered"] assms(3) by (simp add: refs_def endCall_def)
  have len: "length (sy_calls ?y) \<le> 2 ^ 30" using assms(1,2) by (auto simp: counted_def endCall_def)
  have b: "refs ?y < 2 ^ 31" by (rule refs_bound [OF len])
  have c: "cs_refCount (sy_state y) = of_nat (refs y)" "statePool (sy_pools y) = statePool ps"
    using assms(1) r by (auto simp: counted_def)
  note rel = counted_release [OF r b c]
  have "Entered \<in> set (sy_calls ?y) \<Longrightarrow> sy_connected y"
    using assms(1) by (auto simp: counted_def endCall_def dest: in_set_takeD in_set_dropD)
  moreover have "sy_connected y \<Longrightarrow> refs ?y \<noteq> 0" by (simp add: refs_def endCall_def)
  moreover have "sy_connected ?y = sy_connected y" "sy_state ?y = sy_state (applyRelease ReleaseConnectionState y)"
    "sy_pools ?y = sy_pools (applyRelease ReleaseConnectionState y)" by (simp_all add: endCall_def)
  ultimately show ?thesis using rel len assms(1) unfolding counted_def by (auto split: if_splits)
qed

lemma counted_disconnect:
  assumes "counted ps y" "sy_connected y" "Cancel (sy_state y) = Some s" "Entered \<notin> set (sy_calls y)"
  shows "counted ps ((applyRelease ReleaseConnectionState (y\<lparr>sy_state := s\<rparr>))\<lparr>sy_connected := False\<rparr>)"
proof -
  let ?z = "y\<lparr>sy_state := s\<rparr>"
  let ?y = "(applyRelease ReleaseConnectionState ?z)\<lparr>sy_connected := False\<rparr>"
  have r: "refs ?z = refs ?y + 1" using assms(2) by (simp add: refs_def)
  have len: "length (sy_calls ?y) \<le> 2 ^ 30" using assms(1) by (simp add: counted_def)
  have b: "refs ?y < 2 ^ 31" by (rule refs_bound [OF len])
  have "cs_refCount s = cs_refCount (sy_state y)" using assms(3) by (auto simp: Cancel_def split: if_splits)
  moreover have "refs y = refs ?z" "refs y \<noteq> 0" using assms(2) by (simp_all add: refs_def)
  ultimately have c: "cs_refCount (sy_state ?z) = of_nat (refs ?z)" "statePool (sy_pools ?z) = statePool ps"
    using assms(1) by (auto simp: counted_def)
  from counted_release [OF r b c] len assms(4) show ?thesis by (auto simp: counted_def)
qed

lemma counted_step:
  assumes "counted ps y" "step y y'" "orderly y y'" "length (sy_calls y) < 2 ^ 30"
  shows "counted ps y'"
  using assms(2)
proof cases
  case enter
  with assms(1,4) show ?thesis by (simp add: counted_def refs_def)
next
  case (acquire i)
  show ?thesis unfolding acquire(1) by (rule counted_acquire [OF assms(1) acquire(2,3)])
next
  case (drop i)
  show ?thesis unfolding drop(1) by (rule counted_drop [OF assms(1) drop(2,3)])
next
  case (disconnect s)
  with counted_disconnect [OF assms(1)] assms(3) show ?thesis by (simp add: orderly_def)
next
  case (work i r\<^sub>0 r h a)
  have "counted ps (setCall i Critical y')"
    by (rule counted_setCall [OF assms(1) work(2)]) (use work in auto)
  moreover have "setCall i Critical y' = y'" using work(1,3) by (simp add: setCall_def list_update_same_conv [OF work(2)])
  ultimately show ?thesis by (simp only:)
next
  case (nil_reader i)
  show ?thesis unfolding nil_reader(1) by (rule counted_setCall [OF assms(1) nil_reader(2)]) (use nil_reader(3) in auto)
qed (simp_all add: applyRelease_IO counted_setCall [OF assms(1)])

lemma reach_counted:
  assumes "reach G ps y" "\<And>y y'. G y y' \<Longrightarrow> orderly y y'"
  shows "counted ps y"
  using assms(1)
proof induction
  case (start timeout)
  show ?case by (simp add: counted_def prepared_def initState_def zeroState_def refs_def)
next
  case (next_step y y')
  with counted_step assms(2) show ?case by blast
qed

section \<open>Mutual exclusion\<close>

text \<open>
  As long as no call has dereferenced a nil reader, \<^verbatim>\<open>Processing\<close> is set exactly when a call is in the
  section it guards, and that call is alone there.
\<close>

definition exclusive :: "system \<Rightarrow> bool" where
  "exclusive y \<longleftrightarrow>
     length (filter (\<lambda>p. p = Critical) (sy_calls y)) = (if cs_Processing (sy_state y) then 1 else 0)"

lemma exclusive_setCall:
  assumes "exclusive y" "i < length (sy_calls y)" "sy_calls z = sy_calls y"
    and "cs_Processing (sy_state z) =
      (if q = Critical then True else if sy_calls y ! i = Critical then False else cs_Processing (sy_state y))"
    and "q = Critical \<longrightarrow> \<not> cs_Processing (sy_state y)"
  shows "exclusive (setCall i q z)"
proof -
  have "sy_calls y ! i = Critical \<Longrightarrow> cs_Processing (sy_state y)"
    using filter_pos [OF assms(2), of "\<lambda>p. p = Critical"] assms(1) by (auto simp: exclusive_def split: if_splits)
  with filter_update [OF assms(2), of "\<lambda>p. p = Critical" q] assms show ?thesis
    by (auto simp: exclusive_def setCall_def split: if_splits)
qed

lemma ReleaseConnectionState_Processing:
  assumes "\<not> cs_Processing s \<or> cs_refCount s \<noteq> 1"
  shows "cs_Processing (fst (ReleaseConnectionState s ps)) = cs_Processing s"
proof (cases "cs_refCount s = 1")
  case True
  with ReleaseConnectionState_zero [of s ps] assms show ?thesis by (auto simp: zeroState_def)
qed (simp add: ReleaseConnectionState_more)

lemma applyRelease_state:
  "sy_state (applyRelease f y) = fst (f (sy_state y) (sy_pools y))"
  by (simp add: applyRelease_def split: prod.split)

text \<open>While a call is in the section, its own reference and the one that is dropped make two.\<close>

lemma critical_refs:
  assumes "counted ps y" "cs_Processing (sy_state y)" "exclusive y"
    and "sy_connected y \<or> (i < length (sy_calls y) \<and> sy_calls y ! i = Leaving)"
  shows "cs_refCount (sy_state y) \<noteq> 1"
proof -
  have "length (filter (\<lambda>p. p = Critical) (sy_calls y)) = 1" using assms(2,3) by (simp add: exclusive_def)
  then obtain j where j: "j < length (sy_calls y)" "sy_calls y ! j = Critical"
    by (metis (mono_tags, lifting) filter_False in_set_conv_nth length_0_conv zero_neq_one)
  have "2 \<le> refs y"
  proof (cases "sy_connected y")
    case True
    with filter_pos [OF j(1), of "\<lambda>p. p \<noteq> Entered"] j(2) show ?thesis by (simp add: refs_def Suc_le_eq)
  next
    case False
    with assms(4) have i: "i < length (sy_calls y)" "sy_calls y ! i = Leaving" by simp_all
    have "card {i, j} \<le> card {k. k < length (sy_calls y) \<and> sy_calls y ! k \<noteq> Entered}"
      by (rule card_mono) (use i j in auto)
    moreover have "i \<noteq> j" using i j by auto
    ultimately show ?thesis using False by (simp add: refs_def length_filter_conv_card)
  qed
  moreover have "refs y < 2 ^ 31" using assms(1) by (intro refs_bound) (simp add: counted_def)
  ultimately show ?thesis
    using assms(1) refCount_small(1) [of "refs y"] by (auto simp: counted_def split: if_splits)
qed

lemma exclusive_step:
  assumes "exclusive y" "counted ps y" "step y y'" "\<not> sy_panicked y'"
  shows "exclusive y'"
  using assms(3)
proof cases
  case enter
  with assms(1) show ?thesis by (simp add: exclusive_def)
next
  case (work i r\<^sub>0 r h a)
  with assms(1) show ?thesis by (simp add: exclusive_def)
next
  case (nil_reader i)
  with assms(4) show ?thesis by (simp add: setCall_def)
next
  case (drop i)
  have "cs_Processing (sy_state y') = cs_Processing (sy_state y)"
    using drop critical_refs [OF assms(2) _ assms(1), of i] ReleaseConnectionState_Processing
    by (auto simp: endCall_def applyRelease_state)
  with drop assms(1) filter_remove [OF drop(2), of "\<lambda>p. p = Critical"] show ?thesis
    by (simp add: exclusive_def endCall_def)
next
  case (disconnect s)
  have "cs_Processing s = cs_Processing (sy_state y)" "cs_refCount s = cs_refCount (sy_state y)"
    using disconnect(3) by (auto simp: Cancel_def split: if_splits)
  with disconnect critical_refs [OF assms(2) _ assms(1)] ReleaseConnectionState_Processing [of s "sy_pools y"] assms(1)
  show ?thesis by (auto simp: exclusive_def applyRelease_state)
qed (simp_all add: applyRelease_IO AcquireConnectionState_def exclusive_setCall [OF assms(1)])

lemma panicked_step: "step y y' \<Longrightarrow> sy_panicked y \<Longrightarrow> sy_panicked y'"
  by (induction rule: step.induct) (simp_all add: setCall_def endCall_def)

lemma reach_exclusive:
  assumes "reach G ps y" "\<And>y y'. G y y' \<Longrightarrow> orderly y y'" "\<not> sy_panicked y"
  shows "exclusive y"
  using assms(1,3)
proof induction
  case (start timeout)
  show ?case by (simp add: exclusive_def prepared_def initState_def zeroState_def)
next
  case (next_step y y')
  with exclusive_step reach_counted [OF _ assms(2)] panicked_step show ?case by blast
qed


section \<open>Recycling\<close>

interpretation csPool: recycled zeroState "\<lambda>s. s = zeroState" cs_Reset initState
  by unfold_locales (simp_all add: zeroState_def cs_Reset_def)

lemma NewConnectionState_fresh:
  "list_all (\<lambda>s. s = zeroState) pool \<Longrightarrow> fst (NewConnectionState timeout i pool) = initState timeout zeroState"
  using csPool.fresh [of pool timeout i] by (cases "poolGet zeroState i pool") (simp add: NewConnectionState_def)

section \<open>Calls that do not overlap\<close>

text \<open>The reader and writer are there from the lock until the call itself gives them back.\<close>

definition equipped :: "system \<Rightarrow> bool" where
  "equipped y \<longleftrightarrow>
     \<not> sy_panicked y \<and>
     (case sy_calls y of
        [] \<Rightarrow> True
      | [p] \<Rightarrow> p \<in> {Critical, Unlocked, HasData, NoInput} \<longrightarrow>
          cs_Reader (sy_state y) \<noteq> None \<and> cs_Writer (sy_state y) \<noteq> None
      | _ \<Rightarrow> False)"

lemma takeIO_Some: "cs_Reader (takeIO r w s) \<noteq> None" "cs_Writer (takeIO r w s) \<noteq> None"
  by (auto simp: takeIO_def)

lemma equipped_one:
  assumes "equipped y" "i < length (sy_calls y)"
  shows "i = 0" "sy_calls y = [sy_calls y ! i]" "\<not> sy_panicked y"
    "sy_calls y ! i \<in> {Critical, Unlocked, HasData, NoInput} \<longrightarrow>
      cs_Reader (sy_state y) \<noteq> None \<and> cs_Writer (sy_state y) \<noteq> None"
  using assms by (auto simp: equipped_def split: list.splits)

lemma equipped_setCall:
  assumes "equipped y" "i < length (sy_calls y)" "sy_calls z = sy_calls y" "sy_panicked z = sy_panicked y"
    and "q \<in> {Critical, Unlocked, HasData, NoInput} \<longrightarrow>
      cs_Reader (sy_state z) \<noteq> None \<and> cs_Writer (sy_state z) \<noteq> None"
  shows "equipped (setCall i q z)"
proof -
  have "(sy_calls y)[i := q] = [q]" using equipped_one(1,2) [OF assms(1,2)] by (metis list_update_code(2))
  with assms(3-5) equipped_one(3) [OF assms(1,2)] show ?thesis by (simp add: equipped_def setCall_def)
qed


lemma equipped_disconnect:
  assumes "equipped y" "counted ps y" "sy_connected y" "Cancel (sy_state y) = Some s" "Entered \<notin> set (sy_calls y)"
  shows "equipped ((applyRelease ReleaseConnectionState (y\<lparr>sy_state := s\<rparr>))\<lparr>sy_connected := False\<rparr>)"
proof (cases "sy_calls y")
  case Nil
  with assms(1) show ?thesis by (simp add: equipped_def)
next
  case (Cons p ps')
  then have "sy_calls y = [p]" and np: "\<not> sy_panicked y"
    using equipped_one(2,3) [OF assms(1), of 0] by auto
  with assms(3,5) have two: "sy_calls y = [p]" "refs y = 2" by (auto simp: refs_def)
  with assms(2) have "cs_refCount (sy_state y) \<noteq> 1" by (simp add: counted_def)
  moreover have "cs_refCount s = cs_refCount (sy_state y)" "cs_Reader s = cs_Reader (sy_state y)"
    "cs_Writer s = cs_Writer (sy_state y)"
    using assms(4) by (auto simp: Cancel_def split: if_splits)
  ultimately show ?thesis
    using assms(1) two np by (simp add: equipped_def applyRelease_state ReleaseConnectionState_more)
qed

lemma equipped_step:
  assumes "equipped y" "counted ps y" "step y y'" "serial y y'"
  shows "equipped y'"
  using assms(3)
proof cases
  case enter
  with assms(1,4) show ?thesis by (auto simp: serial_def equipped_def split: list.splits)
next
  case (drop i)
  with equipped_one(1-3) [OF assms(1) drop(2)] show ?thesis by (simp add: equipped_def endCall_def)
next
  case (disconnect s)
  with equipped_disconnect [OF assms(1,2)] assms(4) show ?thesis by (simp add: serial_def orderly_def)
next
  case (work i r\<^sub>0 r h a)
  then have "sy_calls y = [Critical]" "cs_Writer (sy_state y) \<noteq> None" "\<not> sy_panicked y"
    using equipped_one [OF assms(1) work(2)] by simp_all
  with work(1) show ?thesis by (simp add: equipped_def)
next
  case (nil_reader i)
  with equipped_one(4) [OF assms(1) nil_reader(2)] show ?thesis by auto
next
  case (lock i r w)
  show ?thesis unfolding lock(1) by (rule equipped_setCall [OF assms(1) lock(2)]) (simp_all add: takeIO_Some)
qed (use equipped_one(4) [OF assms(1)] in \<open>simp_all add: equipped_setCall [OF assms(1)]\<close>)

lemma reach_equipped:
  assumes "reach serial ps y"
  shows "equipped y"
  using assms
proof induction
  case (start timeout)
  show ?case by (simp add: equipped_def prepared_def)
next
  case (next_step y y')
  with equipped_step reach_counted [OF next_step(1)] show ?case by (auto simp: serial_def)
qed

end
