(* ===== verification/Conn_Safety.thy ===== *)
theory Conn_Safety
  imports Conn_State
begin

text \<open>
  What the reference count and the \<^verbatim>\<open>Processing\<close> flag of a connection state guarantee about the
  interleavings of the calls that share it, and two interleavings for which they guarantee nothing.
\<close>

section \<open>Runs\<close>

text \<open>Runs in which the connection stays connected satisfy \<open>orderly\<close> at every step.\<close>

lemma reach_connected:
  "reach orderly ps y \<Longrightarrow> length (sy_calls y) < 9 \<Longrightarrow> step y y' \<Longrightarrow> sy_connected y' \<Longrightarrow> reach orderly ps y'"
  by (rule reach.next_step) (simp_all add: orderly_def)

text \<open>A connected system with a given state, calls and panic flag.\<close>

definition running :: "pools \<Rightarrow> ConnectionState \<Rightarrow> pc list \<Rightarrow> bool \<Rightarrow> system" where
  "running ps s cs p = \<lparr>sy_state = s, sy_pools = ps, sy_calls = cs, sy_connected = True, sy_panicked = p\<rparr>"

lemma running_sel [simp]:
  "sy_state (running ps s cs p) = s" "sy_pools (running ps s cs p) = ps" "sy_calls (running ps s cs p) = cs"
  "sy_connected (running ps s cs p)" "sy_panicked (running ps s cs p) = p"
  "(running ps s cs p)\<lparr>sy_state := s'\<rparr> = running ps s' cs p"
  "(running ps s cs p)\<lparr>sy_calls := cs'\<rparr> = running ps s cs' p"
  "(running ps s cs p)\<lparr>sy_panicked := p'\<rparr> = running ps s cs p'"
  "setCall i q (running ps s cs p) = running ps s (cs[i := q]) p"
  by (simp_all add: running_def setCall_def)

lemma prepared_running: "prepared timeout ps = running ps (initState timeout zeroState) [] False"
  by (simp add: prepared_def running_def)

text \<open>A new call gets as far as the lock.\<close>

lemma reach_lock:
  assumes "reach orderly ps (running qs s cs p)" "length cs < 4" "\<not> cs_Processing s"
  shows "reach orderly ps (running qs (takeIO r w ((AcquireConnectionState s)\<lparr>cs_Processing := True\<rparr>)) (cs @ [Critical]) p)"
proof -
  have 1: "reach orderly ps (running qs s (cs @ [Entered]) p)"
    by (rule reach_connected [OF assms(1)])
      (use assms(2) step.enter [of "running qs s cs p"] in simp_all)
  have 2: "reach orderly ps (running qs (AcquireConnectionState s) (cs @ [Referenced]) p)"
    by (rule reach_connected [OF 1])
      (use assms(2) step.acquire [of "length cs" "running qs s (cs @ [Entered]) p"] in simp_all)
  show ?thesis
    by (rule reach_connected [OF 2])
      (use assms(2,3) step.lock [of "length cs" "running qs (AcquireConnectionState s) (cs @ [Referenced]) p" r w]
       in \<open>simp_all add: AcquireConnectionState_def\<close>)
qed


text \<open>The first call of a connection, in a run without overlaps.\<close>

definition noPools :: pools where
  "noPools = \<lparr>readerPool = [], writerPool = [], statePool = []\<rparr>"

definition firstLock :: system where
  "firstLock = running noPools
     (takeIO \<lparr>rd_size = 4096, rd_buf = [], rd_src = [str ''GET''], rd_end = ErrEOF\<rparr>
        \<lparr>wr_size = 4096, wr_buf = [], wr_err = None, wr_sent = [], wr_room = None\<rparr>
        ((AcquireConnectionState (initState 0 zeroState))\<lparr>cs_Processing := True\<rparr>)) [Critical] False"

lemma reach_firstLock: "reach serial noPools firstLock"
proof -
  let ?s = "initState 0 zeroState"
  have 0: "reach serial noPools (running noPools ?s [] False)"
    unfolding prepared_running [symmetric] by (rule reach.start)
  have 1: "reach serial noPools (running noPools ?s [Entered] False)"
    by (rule reach.next_step [OF 0])
      (use step.enter [of "running noPools ?s [] False"] in \<open>simp_all add: serial_def orderly_def\<close>)
  have 2: "reach serial noPools (running noPools (AcquireConnectionState ?s) [Referenced] False)"
    by (rule reach.next_step [OF 1])
      (use step.acquire [of 0 "running noPools ?s [Entered] False"] in \<open>simp_all add: serial_def orderly_def\<close>)
  show ?thesis unfolding firstLock_def
    by (rule reach.next_step [OF 2])
      (use step.lock [of 0 "running noPools (AcquireConnectionState ?s) [Referenced] False"] in
       \<open>simp_all add: serial_def orderly_def AcquireConnectionState_def initState_def zeroState_def\<close>)
qed

lemma reach_weaken: "reach G ps y \<Longrightarrow> (\<And>y y'. G y y' \<Longrightarrow> H y y') \<Longrightarrow> reach H ps y"
  by (induction rule: reach.induct) (auto intro: reach.intros)

text \<open>A call looks at the input a second time and finds none.\<close>

lemma reach_unlock:
  assumes "reach orderly ps (running qs s cs p)" "i < length cs" "length cs < 4" "cs ! i = Critical" "cs_Reader s = Some r"
  shows "reach orderly ps (running qs (s\<lparr>cs_Processing := False\<rparr>) (cs[i := Unlocked]) p)"
  by (rule reach_connected [OF assms(1)])
    (use assms(2-5) step.unlock [of i "running qs s cs p" r] in simp_all)

lemma reach_no_input:
  assumes "reach orderly ps (running qs s cs p)" "i < length cs" "length cs < 4" "cs ! i = Unlocked" "cs_Reader s = Some r"
  shows "reach orderly ps (running qs s (cs[i := NoInput]) p)"
  by (rule reach_connected [OF assms(1)])
    (use assms(2-5) step.no_input [of i "running qs s cs p" r] in simp_all)

lemma reach_release_io:
  assumes "reach orderly ps (running qs s cs p)" "i < length cs" "length cs < 4" "cs ! i = NoInput"
  shows "reach orderly ps (running (snd (releasePooledIO s qs)) (s\<lparr>cs_Reader := None, cs_Writer := None\<rparr>) (cs[i := Leaving]) p)"
proof (rule reach_connected [OF assms(1)])
  obtain qs' where q: "releasePooledIO s qs = (s\<lparr>cs_Reader := None, cs_Writer := None\<rparr>, qs')"
    using releasePooledIO_eq by blast
  then have "applyRelease releasePooledIO (running qs s cs p) = running qs' (s\<lparr>cs_Reader := None, cs_Writer := None\<rparr>) cs p"
    by (simp add: applyRelease_def running_def)
  with q assms(2-4) step.release_io [of i "running qs s cs p"]
  show "step (running qs s cs p)
      (running (snd (releasePooledIO s qs)) (s\<lparr>cs_Reader := None, cs_Writer := None\<rparr>) (cs[i := Leaving]) p)"
    by simp
qed (use assms(3) in simp_all)

lemma reach_nil_reader:
  assumes "reach orderly ps (running qs s cs p)" "i < length cs" "length cs < 4" "cs ! i = Unlocked" "cs_Reader s = None"
  shows "reach orderly ps (running qs (s\<lparr>cs_Processing := False\<rparr>) (cs[i := Leaving]) True)"
  by (rule reach_connected [OF assms(1)])
    (use assms(2-5) step.nil_reader [of i "running qs s cs p"] in simp_all)

text \<open>One call waits between its second look and the release, a second one is in the section.\<close>

lemma reach_waiting:
  fixes r :: reader and w :: writer
  shows "\<exists>s. reach orderly ps (running ps s [NoInput, Critical] False) \<and> cs_Processing s \<and> cs_Reader s = Some r"
proof -
  let ?s0 = "initState 0 zeroState"
  let ?s1 = "takeIO r w ((AcquireConnectionState ?s0)\<lparr>cs_Processing := True\<rparr>)"
  have s1: "cs_Reader ?s1 = Some r"
    by (simp add: takeIO_def AcquireConnectionState_def initState_def zeroState_def)
  have "reach orderly ps (running ps ?s0 [] False)" unfolding prepared_running [symmetric] by (rule reach.start)
  moreover have "\<not> cs_Processing ?s0" by (simp add: initState_def zeroState_def)
  ultimately have 1: "reach orderly ps (running ps ?s1 [Critical] False)" using reach_lock [where cs = "[]"] by simp
  note 2 = reach_no_input [OF reach_unlock [OF 1, of 0 r], of 0 r, simplified, OF s1]
  have "\<not> cs_Processing (?s1\<lparr>cs_Processing := False\<rparr>)" by simp
  note 3 = reach_lock [OF 2 _ this, of r w, simplified]
  have "cs_Reader (takeIO r w (AcquireConnectionState (?s1\<lparr>cs_Processing := False\<rparr>)\<lparr>cs_Processing := True\<rparr>)) = Some r"
    using s1 by (simp add: takeIO_def AcquireConnectionState_def Let_def)
  with 3 show ?thesis by (metis takeIO_frame(4) ConnectionState.select_convs(6) ConnectionState.update_convs(6) ConnectionState.surjective)
qed

lemma reach_nil_critical:
  "\<exists>qs s. reach orderly ps (running qs s [Leaving, Critical] False) \<and> cs_Reader s = None"
proof -
  fix r :: reader
  from reach_waiting [of ps r] obtain s where "reach orderly ps (running ps s [NoInput, Critical] False)" by blast
  from reach_release_io [OF this, of 0] show ?thesis by (auto intro!: exI)
qed

text \<open>The same with a third call at its second look, whose recovery lets a fourth one in.\<close>

lemma reach_two_critical:
  "\<exists>qs s. reach orderly ps (running qs s [Leaving, Leaving, Critical, Critical] True)"
proof -
  fix r :: reader and w :: writer
  from reach_waiting [of ps r] obtain s where s: "reach orderly ps (running ps s [NoInput, Critical] False)" "cs_Reader s = Some r"
    by blast
  note 1 = reach_unlock [OF s(1), of 1 r, simplified, OF s(2)]
  note 2 = reach_lock [OF 1, of r w, simplified]
  note 3 = reach_release_io [OF 2, of 0, simplified]
  note 4 = reach_nil_reader [OF 3, of 1, simplified]
  note 5 = reach_lock [OF 4, of r w, simplified]
  from 5 show ?thesis by blast
qed


section \<open>The disconnect callback overtakes a call\<close>

text \<open>
  The callback drops the last reference while a call is entered and has not taken its own: the
  state is put into the pool, the call takes a reference to the pooled state, and puts it there
  again when it leaves.
\<close>

lemma reach_any:
  "reach (\<lambda>_ _. True) ps y \<Longrightarrow> length (sy_calls y) < 9 \<Longrightarrow> step y y' \<Longrightarrow> reach (\<lambda>_ _. True) ps y'"
  by (rule reach.next_step) simp_all

lemma reach_overtaken:
  "\<exists>qs. reach (\<lambda>_ _. True) ps
     \<lparr>sy_state = zeroState, sy_pools = qs, sy_calls = [Entered], sy_connected = False, sy_panicked = False\<rparr> \<and>
     statePool qs = zeroState # statePool ps"
proof -
  let ?s = "initState 0 zeroState"
  have 1: "reach (\<lambda>_ _. True) ps (running ps ?s [] False)"
    unfolding prepared_running [symmetric] by (rule reach.start)
  note 2 = reach_any [OF 1 _ step.enter, simplified]
  have c: "Cancel ?s = Some (?s\<lparr>cs_err := True, cs_done := Some True\<rparr>)"
    by (simp add: Cancel_def initState_def)
  obtain qs where q: "ReleaseConnectionState (?s\<lparr>cs_err := True, cs_done := Some True\<rparr>) ps = (zeroState, qs)"
    "statePool qs = zeroState # statePool ps"
    using ReleaseConnectionState_zero [of "?s\<lparr>cs_err := True, cs_done := Some True\<rparr>" ps] by (auto simp: initState_def)
  from reach_any [OF 2 _ step.disconnect [where s = "?s\<lparr>cs_err := True, cs_done := Some True\<rparr>"], simplified, OF c] q
  show ?thesis by (auto simp: applyRelease_def running_def)
qed

lemma reach_pooled_twice:
  "\<exists>y. reach (\<lambda>_ _. True) ps y \<and> statePool (sy_pools y) = zeroState # zeroState # statePool ps"
proof -
  from reach_overtaken [of ps] obtain qs where qs: "statePool qs = zeroState # statePool ps"
    and 1: "reach (\<lambda>_ _. True) ps
      \<lparr>sy_state = zeroState, sy_pools = qs, sy_calls = [Entered], sy_connected = False, sy_panicked = False\<rparr>"
    (is "reach _ _ ?y") by blast
  let ?s = "AcquireConnectionState zeroState"
  let ?y2 = "?y\<lparr>sy_state := ?s, sy_calls := [Referenced]\<rparr>"
  have 2: "reach (\<lambda>_ _. True) ps ?y2"
    by (rule reach_any [OF 1]) (use step.acquire [of 0 ?y] in \<open>simp_all add: setCall_def\<close>)
  fix r :: reader and w :: writer
  let ?s3 = "takeIO r w (?s\<lparr>cs_Processing := True\<rparr>)"
  have 3: "reach (\<lambda>_ _. True) ps (?y2\<lparr>sy_state := ?s3, sy_calls := [Critical]\<rparr>)" (is "reach _ _ ?y3")
    by (rule reach_any [OF 2])
      (use step.lock [of 0 ?y2 r w] in \<open>simp_all add: setCall_def AcquireConnectionState_def zeroState_def\<close>)
  let ?s4 = "?s3\<lparr>cs_Processing := False\<rparr>"
  let ?y4 = "?y3\<lparr>sy_state := ?s4, sy_calls := [Leaving]\<rparr>"
  have 4: "reach (\<lambda>_ _. True) ps ?y4"
    by (rule reach_any [OF 3]) (use step.handover [of 0 ?y3] in \<open>simp_all add: setCall_def\<close>)
  have 5: "reach (\<lambda>_ _. True) ps (endCall 0 (applyRelease ReleaseConnectionState ?y4))"
    by (rule reach_any [OF 4 _ step.drop]) simp_all
  have "cs_refCount ?s4 = 1" by (simp add: AcquireConnectionState_def zeroState_def)
  from ReleaseConnectionState_zero [OF this, of qs] obtain qs'
    where "ReleaseConnectionState ?s4 qs = (zeroState, qs')" "statePool qs' = zeroState # statePool qs" by blast
  with qs have "statePool (sy_pools (endCall 0 (applyRelease ReleaseConnectionState ?y4))) = zeroState # zeroState # statePool ps"
    by (simp add: applyRelease_def endCall_def)
  with 5 show ?thesis by blast
qed

section \<open>Properties\<close>



text \<open>
  C13: \<^verbatim>\<open>Processing\<close> keeps the calls of a connection apart. In every such interleaving in which no
  call has dereferenced a nil reader, at most one call is in the section that \<^verbatim>\<open>Processing\<close> guards,
  and the flag is set exactly when there is one.
\<close>

theorem Processing_excludes:
  assumes "reach orderly ps y" "\<not> sy_panicked y"
  shows "(i < length (sy_calls y) \<and> j < length (sy_calls y) \<and> sy_calls y ! i = Critical \<and> sy_calls y ! j = Critical
       \<longrightarrow> i = j) \<and>
     (cs_Processing (sy_state y) \<longleftrightarrow> Critical \<in> set (sy_calls y))"
proof -
  let ?C = "{k. k < length (sy_calls y) \<and> sy_calls y ! k = Critical}"
  have c: "card ?C = (if cs_Processing (sy_state y) then 1 else 0)"
    using reach_exclusive [OF assms(1) _ assms(2)] by (simp add: exclusive_def length_filter_conv_card)
  have fin: "finite ?C" by simp
  have "card ?C \<le> 1" using c by simp
  then have "k \<in> ?C \<Longrightarrow> l \<in> ?C \<Longrightarrow> k = l" for k l using card_le_Suc0_iff_eq [OF fin] by auto
  moreover have "cs_Processing (sy_state y) \<longleftrightarrow> ?C \<noteq> {}"
    using c card_eq_0_iff [of ?C] fin by (metis zero_neq_one)
  ultimately show ?thesis by (auto simp: in_set_conv_nth)
qed

theorem Processing_excludes_witness:
  "reach orderly noPools firstLock \<and> \<not> sy_panicked firstLock \<and> Critical \<in> set (sy_calls firstLock) \<and>
     cs_Processing (sy_state firstLock)"
proof -
  have r: "reach orderly noPools firstLock" "\<not> sy_panicked firstLock" "Critical \<in> set (sy_calls firstLock)"
    using reach_weaken [OF reach_firstLock] by (simp_all add: serial_def firstLock_def)
  with Processing_excludes [OF r(1,2)] show ?thesis by blast
qed

text \<open>
  C17: when \<^verbatim>\<open>netpoll\<close> never runs two calls of a connection at once, no call ever dereferences a nil
  reader or writer: from the lock to the moment it gives them back, a call has both, whenever the
  connection is closed.
\<close>

theorem serial_calls_equipped:
  assumes "reach serial ps y"
  shows "\<not> sy_panicked y \<and>
     (i < length (sy_calls y) \<and> sy_calls y ! i \<in> {Critical, Unlocked, HasData, NoInput} \<longrightarrow>
        (\<exists>r w. cs_Reader (sy_state y) = Some r \<and> cs_Writer (sy_state y) = Some w))"
proof (cases "i < length (sy_calls y)")
  case True
  from equipped_one(3,4) [OF reach_equipped [OF assms] True] show ?thesis by auto
next
  case False
  with reach_equipped [OF assms] show ?thesis by (simp add: equipped_def)
qed

theorem serial_calls_equipped_witness:
  "reach serial noPools firstLock \<and> sy_calls firstLock = [Critical] \<and>
     (\<exists>r w. cs_Reader (sy_state firstLock) = Some r \<and> cs_Writer (sy_state firstLock) = Some w)"
proof -
  have "sy_calls firstLock = [Critical]" by (simp add: firstLock_def)
  with serial_calls_equipped [OF reach_firstLock, of 0] reach_firstLock show ?thesis by simp
qed

text \<open>
  C32: when calls do overlap, the flag does not protect the reader. A call gives the flag back
  before its second look at the input and releases the reader and writer after it; a second call
  that entered in between is then in the section with a nil reader, and when a third one is at its
  second look then, its recovery clears the flag the second one holds, so that a fourth call joins
  it in the section.
\<close>

theorem overlapping_calls_unprotected:
  "(\<exists>y. reach orderly ps y \<and> sy_calls y = [Leaving, Critical] \<and> cs_Reader (sy_state y) = None) \<and>
   (\<exists>y. reach orderly ps y \<and> sy_calls y = [Leaving, Leaving, Critical, Critical])"
  using reach_nil_critical [of ps] reach_two_critical [of ps] by (metis running_sel(1,3))

text \<open>
  C33: when the disconnect callback overtakes a call that has not taken its reference yet, the same
  state is put into the pool twice, so that two connections can be given it.
\<close>

theorem overtaken_call_pools_twice:
  "\<exists>y. reach (\<lambda>_ _. True) ps y \<and> statePool (sy_pools y) = zeroState # zeroState # statePool ps"
  by (rule reach_pooled_twice)

end
