(* ===== verification/Request_Body.thy ===== *)
theory Request_Body
  imports Read_Request Response_Writer
begin

text \<open>
  Reading a request's body: \<^verbatim>\<open>Read\<close> of \<^verbatim>\<open>bufio.Reader\<close>, and the readers \<^verbatim>\<open>ReadRequest\<close> puts on top of it,
  \<^verbatim>\<open>io.LimitReader\<close> and \<^verbatim>\<open>httputil.NewChunkedReader\<close>; and \<^verbatim>\<open>io.Copy\<close> to \<^verbatim>\<open>io.Discard\<close>, with which the
  engine drains a body. All of them are the standard library's; an empty element of \<open>rd_src\<close> stands
  for a time in which nothing arrives.
\<close>

section \<open>Definitions\<close>

subsection \<open>Buffered reads\<close>

text \<open>One \<^verbatim>\<open>Read\<close> with a slice of \<open>n\<close> bytes: at most one read of the source.\<close>

definition bufRead :: "nat \<Rightarrow> reader \<Rightarrow> (bytes \<times> error option) \<times> reader" where
  "bufRead n r =
     (if n = 0 then (([], None), r)
      else if rd_buf r \<noteq> [] then ((take n (rd_buf r), None), r\<lparr>rd_buf := drop n (rd_buf r)\<rparr>)
      else if rd_src r = [] then (([], Some (rd_end r)), r)
      else if bufSize r \<le> n then connRead n r
      else
        (let r = fill r in ((take n (rd_buf r), None), r\<lparr>rd_buf := drop n (rd_buf r)\<rparr>)))"

text \<open>The bytes still to come and the reads still to make.\<close>

definition work :: "reader \<Rightarrow> nat" where
  "work r = length (unread r) + length (rd_src r)"

lemma unread_take: "unread r = take n (rd_buf r) @ unread (r\<lparr>rd_buf := drop n (rd_buf r)\<rparr>)"
  by (simp add: unread_def)

lemma connRead_unread: "rd_buf r = [] \<Longrightarrow> connRead n r = ((b, e), r') \<Longrightarrow> unread r = b @ unread r'"
  by (auto simp: connRead_def unread_def split: list.splits if_splits)

lemma bufRead_unread:
  assumes "bufRead n r = ((b, e), r')"
  shows "unread r = b @ unread r'"
proof (cases "n = 0 \<or> rd_buf r \<noteq> [] \<or> rd_src r = [] \<or> bufSize r \<le> n")
  case True
  with assms connRead_unread [of r n b e r'] show ?thesis
    by (auto simp: bufRead_def unread_take [of r n, symmetric] split: if_splits)
next
  case False
  with assms unread_take [of "fill r" n] show ?thesis by (auto simp: bufRead_def Let_def)
qed

lemma bufRead_src: "bufRead n r = ((b, e), r') \<Longrightarrow> length (rd_src r') \<le> length (rd_src r)"
  by (auto simp: bufRead_def connRead_def fill_def Let_def split: if_splits list.splits)

lemma bufRead_le: "bufRead n r = ((b, e), r') \<Longrightarrow> work r' \<le> work r"
  using bufRead_unread [of n r b e r'] bufRead_src [of n r b e r'] by (simp add: work_def)

lemma bufRead_progress:
  assumes "bufRead n r = ((b, None), r')" "0 < n"
  shows "work r' < work r"
proof (cases "b = []")
  case False
  then have "0 < length b" by simp
  with bufRead_unread [OF assms(1)] bufRead_src [OF assms(1)] show ?thesis
    unfolding work_def by (simp del: length_greater_0_conv)
next
  case True
  with assms have "length (rd_src r') < length (rd_src r)"
    by (auto simp: bufRead_def connRead_def fill_def bufSize_def Let_def split: if_splits list.splits)
  with bufRead_unread [OF assms(1)] show ?thesis by (simp add: work_def)
qed

lemma bufRead_length: "bufRead n r = ((b, e), r') \<Longrightarrow> length b \<le> n"
  by (auto simp: bufRead_def connRead_def fill_def Let_def split: if_splits list.splits)

text \<open>\<^verbatim>\<open>io.ReadFull\<close> with what has been read so far.\<close>

datatype bodyErr = ReadErr error | ErrUnexpectedEOF | ErrChunked string

function readFull :: "bytes \<Rightarrow> nat \<Rightarrow> reader \<Rightarrow> (bytes \<times> bodyErr option) \<times> reader" where
  "readFull acc n r =
     (if n = 0 then ((acc, None), r)
      else
        (case bufRead n r of
           ((b, Some e), r) \<Rightarrow>
             ((acc @ b, Some (if e = ErrEOF \<and> acc @ b \<noteq> [] then ErrUnexpectedEOF else ReadErr e)), r)
         | ((b, None), r) \<Rightarrow> readFull (acc @ b) (n - length b) r))"
  by pat_completeness auto
termination
  by (relation "measure (\<lambda>(_, _, r). work r)") (auto dest: bufRead_progress [OF sym])

declare readFull.simps [simp del]


subsection \<open>The chunked reader\<close>

text \<open>
  \<^verbatim>\<open>httputil.NewChunkedReader\<close> over a \<^verbatim>\<open>bufio.Reader\<close>: the bytes left in the chunk, the error that
  sticks, whether the end of the chunk is still to be checked, and the overhead counted so far.
\<close>

record chunkState =
  ck_n :: nat
  ck_err :: "bodyErr option"
  ck_checkEnd :: bool
  ck_excess :: int

definition newChunkedReader :: chunkState where
  "newChunkedReader = \<lparr>ck_n = 0, ck_err = None, ck_checkEnd = False, ck_excess = 0\<rparr>"

definition readChunkLine :: "reader \<Rightarrow> (bodyErr + bytes) \<times> reader" where
  "readChunkLine r =
     (case ReadSlice LF r of
        (p, Some ErrBufferFull, r) \<Rightarrow> (Inl (ErrChunked ''header line too long''), r)
      | (p, Some (ErrRead e), r) \<Rightarrow> (Inl (if e = ErrEOF then ErrUnexpectedEOF else ReadErr e), r)
      | (p, None, r) \<Rightarrow>
          (case scanToByte p CR of
             None \<Rightarrow> (Inl (ErrChunked ''chunked line ends with bare LF''), r)
           | Some i \<Rightarrow>
               if i \<noteq> length p - 2 then (Inl (ErrChunked ''invalid CR in chunked line''), r)
               else if length p - 2 \<ge> 4096 then (Inl (ErrChunked ''header line too long''), r)
               else (Inr (take (length p - 2) p), r)))"

definition hexValue :: "byte \<Rightarrow> nat option" where
  "hexValue b =
     (if 48 \<le> b \<and> b \<le> 57 then Some (unat b - 48)
      else if 97 \<le> b \<and> b \<le> 102 then Some (unat b - 87)
      else if 65 \<le> b \<and> b \<le> 70 then Some (unat b - 55)
      else None)"

fun parseHexUint :: "nat \<Rightarrow> nat \<Rightarrow> bytes \<Rightarrow> bodyErr + nat" where
  "parseHexUint i n [] = (if i = 0 then Inl (ErrChunked ''empty hex number for chunk length'') else Inr n)"
| "parseHexUint i n (b # bs) =
     (case hexValue b of
        None \<Rightarrow> Inl (ErrChunked ''invalid byte in chunk length'')
      | Some d \<Rightarrow>
          if i = 16 then Inl (ErrChunked ''http chunk length too large'')
          else parseHexUint (i + 1) (16 * n + d) bs)"

text \<open>\<^verbatim>\<open>beginChunk\<close>: trailing white space and the extension are cut off the line.\<close>

definition beginChunk :: "chunkState \<Rightarrow> reader \<Rightarrow> chunkState \<times> reader" where
  "beginChunk ck r =
     (case readChunkLine r of
        (Inl e, r) \<Rightarrow> (ck\<lparr>ck_err := Some e\<rparr>, r)
      | (Inr line, r) \<Rightarrow>
          (let excess = ck_excess ck + int (length line) + 2;
               line = rev (dropWhile (\<lambda>c. c = SP \<or> c = HTAB) (rev line));
               line = takeWhile (\<lambda>c. c \<noteq> SEMICOLON) line
           in case parseHexUint 0 0 line of
                Inl e \<Rightarrow> (ck\<lparr>ck_excess := excess, ck_n := 0, ck_err := Some e\<rparr>, r)
              | Inr n \<Rightarrow>
                  (let excess = max 0 (excess - (16 + 2 * int n));
                       err = (if n = 0 then Some (ReadErr ErrEOF)
                              else if excess > 16 * 1024
                              then Some (ErrChunked ''chunked encoding contains too much non-data'')
                              else None)
                   in (ck\<lparr>ck_n := n, ck_excess := excess, ck_err := err\<rparr>, r))))"

lemma ReadSlice_src: "length (rd_src (snd (snd (ReadSlice delim r)))) \<le> length (rd_src r)"
proof (induction delim r rule: ReadSlice.induct)
  case (1 delim r)
  have "length (rd_src (fill r)) \<le> length (rd_src r)" by (auto simp: fill_def Let_def split: list.split)
  with 1 show ?case by (subst ReadSlice.simps) (force split: option.split)
qed

lemma ReadSlice_work:
  assumes "ReadSlice delim r = (p, e, r')"
  shows "work r' \<le> work r" "e = None \<Longrightarrow> work r' < work r"
proof -
  have s: "length (rd_src r') \<le> length (rd_src r)" using ReadSlice_src [of delim r] assms by simp
  show "work r' \<le> work r"
    by (cases rule: ReadSlice_cases [where r = r and delim = delim]) (use assms s in \<open>auto simp: work_def\<close>)
  assume "e = None"
  then show "work r' < work r"
    by (cases rule: ReadSlice_cases [where r = r and delim = delim])
      (use assms s scanToByte_lt [of "unread r" delim] in \<open>auto simp: work_def\<close>)
qed

lemma readChunkLine_work:
  "readChunkLine r = (res, r') \<Longrightarrow> work r' \<le> work r \<and> (case res of Inl e \<Rightarrow> True | Inr line \<Rightarrow> work r' < work r)"
  by (auto simp: readChunkLine_def dest: ReadSlice_work
      split: prod.splits option.splits readErr.splits if_splits)

lemma beginChunk_work:
  assumes "beginChunk ck r = (ck', r')" "ck_err ck = None"
  shows "work r' \<le> work r" "ck_err ck' = None \<Longrightarrow> work r' < work r"
proof -
  have "work r' \<le> work r \<and> (ck_err ck' = None \<longrightarrow> work r' < work r)"
  proof (cases "readChunkLine r")
    case (Pair res r1)
    from readChunkLine_work [OF this] Pair assms show ?thesis
      by (cases res) (auto simp: beginChunk_def Let_def split: sum.splits)
  qed
  then show "work r' \<le> work r" "ck_err ck' = None \<Longrightarrow> work r' < work r" by blast+
qed

lemma readFull_work:
  "readFull acc n r = ((b, e), r') \<Longrightarrow> work r' \<le> work r \<and> (e = None \<and> 0 < n \<longrightarrow> work r' < work r)"
proof (induction acc n r rule: readFull.induct)
  case (1 acc n r)
  obtain b1 e1 r1 where b1: "bufRead n r = ((b1, e1), r1)" by (metis prod.exhaust)
  show ?case
  proof (cases "n = 0 \<or> e1 \<noteq> None")
    case True
    with 1(2) b1 bufRead_le [OF b1] show ?thesis
      by (subst (asm) readFull.simps) (auto split: if_splits)
  next
    case False
    with 1(2) b1 have "readFull (acc @ b1) (n - length b1) r1 = ((b, e), r')"
      by (subst (asm) readFull.simps) auto
    with 1(1) [of "(b1, e1)" r1 b1 e1] False b1 bufRead_progress [of n r b1 r1] show ?thesis by auto
  qed
qed


text \<open>
  The check of a chunk's end, and the bookkeeping after a read of \<open>n\<close> bytes of chunk data. \<open>Inl\<close>
  is a \<^verbatim>\<open>break\<close> out of the loop.
\<close>

definition checkChunkEnd :: "chunkState \<Rightarrow> reader \<Rightarrow> chunkState \<times> reader" where
  "checkChunkEnd ck r =
     (case readFull [] 2 r of
        ((b, None), r) \<Rightarrow>
          (if b = CRLF then ck\<lparr>ck_checkEnd := False\<rparr>
           else ck\<lparr>ck_err := Some (ErrChunked ''malformed chunked encoding'')\<rparr>, r)
      | ((b, Some e), r) \<Rightarrow>
          (ck\<lparr>ck_err := Some (if e = ReadErr ErrEOF then ErrUnexpectedEOF else e)\<rparr>, r))"

definition afterChunkRead :: "nat \<Rightarrow> error option \<Rightarrow> chunkState \<Rightarrow> chunkState" where
  "afterChunkRead n e ck =
     (let ck = ck\<lparr>ck_n := ck_n ck - n\<rparr>
      in case e of
           None \<Rightarrow> if ck_n ck = 0 then ck\<lparr>ck_checkEnd := True\<rparr> else ck
         | Some e \<Rightarrow> ck\<lparr>ck_err := Some (if e = ErrEOF then ErrUnexpectedEOF else ReadErr e)\<rparr>)"

lemma checkChunkEnd_work:
  assumes "checkChunkEnd ck r = (ck', r')"
  shows "work r' \<le> work r" "ck_err ck' = None \<Longrightarrow> work r' < work r"
  using assms readFull_work [of "[]" 2 r]
  by (auto simp: checkChunkEnd_def split: prod.splits option.splits if_splits)

lemma chunkData_work:
  assumes "bufRead n r = ((b, e), r')"
  shows "work r' \<le> work r" "ck_err (afterChunkRead m e ck) = None \<Longrightarrow> 0 < n \<Longrightarrow> work r' < work r"
  using bufRead_le [OF assms] bufRead_progress [of n r b r'] assms
  by (cases e; simp add: afterChunkRead_def Let_def)+

lemma chunkMeasure:
  "(case checkChunkEnd ck r of (ck, r) \<Rightarrow> 2 * work r + (if ck_err ck = None then 1 else 0)) < Suc (2 * work r)"
  "ck_err ck = None \<Longrightarrow>
     (case beginChunk ck r of (ck, r) \<Rightarrow> 2 * work r + (if ck_err ck = None then 1 else 0)) < Suc (2 * work r)"
  by (cases "checkChunkEnd ck r", use checkChunkEnd_work [of ck r] in force)
    (cases "beginChunk ck r", use beginChunk_work [of ck r] in force)

function chunkedRead ::
    "bytes \<Rightarrow> nat \<Rightarrow> chunkState \<Rightarrow> reader \<Rightarrow> (bytes \<times> bodyErr option) \<times> chunkState \<times> reader" where
  "chunkedRead acc room ck r =
     (if ck_err ck \<noteq> None then ((acc, ck_err ck), ck, r)
      else if ck_checkEnd ck
      then
        if acc \<noteq> [] \<and> length (rd_buf r) < 2 then ((acc, None), ck, r)
        else (case checkChunkEnd ck r of (ck, r) \<Rightarrow> chunkedRead acc room ck r)
      else if ck_n ck = 0
      then
        if acc \<noteq> [] \<and> LF \<notin> set (rd_buf r) then ((acc, None), ck, r)
        else (case beginChunk ck r of (ck, r) \<Rightarrow> chunkedRead acc room ck r)
      else if room = 0 then ((acc, None), ck, r)
      else
        (case bufRead (min room (ck_n ck)) r of ((b, e), r) \<Rightarrow>
           chunkedRead (acc @ b) (room - length b) (afterChunkRead (length b) e ck) r))"
  by pat_completeness auto
termination
  by (relation "measure (\<lambda>(_, _, ck, r). 2 * work r + (if ck_err ck = None then 1 else 0))")
    (auto simp: chunkMeasure dest: chunkData_work [OF sym])

declare chunkedRead.simps [simp del]

text \<open>
  A call ends at once, with an error or with bytes in hand or with no room, or goes on with less
  work to do or with an error.
\<close>

lemma chunkedRead_err [simp]: "ck_err ck = Some x \<Longrightarrow> chunkedRead acc room ck r = ((acc, Some x), ck, r)"
  by (simp add: chunkedRead.simps)

lemma chunkedRead_step:
  obtains (stop) e where "chunkedRead acc room ck r = ((acc, e), ck, r)" "e \<noteq> None \<or> acc \<noteq> [] \<or> room = 0"
  | (go) acc1 room1 ck1 r1 where "chunkedRead acc room ck r = chunkedRead acc1 room1 ck1 r1"
      "ck_err ck = None" "work r1 \<le> work r" "ck_err ck1 = None \<Longrightarrow> work r1 < work r"
proof (cases "ck_err ck")
  case (Some x)
  then show thesis by (intro stop [of "Some x"]) simp_all
next
  case None
  obtain ck2 r2 where c2: "checkChunkEnd ck r = (ck2, r2)" by force
  obtain ck3 r3 where c3: "beginChunk ck r = (ck3, r3)" by force
  obtain b e r4 where b: "bufRead (min room (ck_n ck)) r = ((b, e), r4)" by (metis prod.exhaust)
  note eq = chunkedRead.simps [of acc room ck r]
  consider (check) "ck_checkEnd ck" | (size) "\<not> ck_checkEnd ck" "ck_n ck = 0"
    | (data) "\<not> ck_checkEnd ck" "ck_n ck \<noteq> 0" by blast
  then show thesis
  proof cases
    case check
    with None c2 checkChunkEnd_work [OF c2] eq show thesis
      by (cases "acc \<noteq> [] \<and> length (rd_buf r) < 2") (auto intro: stop [of None] go [of acc room ck2 r2])
  next
    case size
    with None c3 beginChunk_work [OF c3 None] eq show thesis
      by (cases "acc \<noteq> [] \<and> LF \<notin> set (rd_buf r)") (auto intro: stop [of None] go [of acc room ck3 r3])
  next
    case data
    with None b chunkData_work [OF b] eq show thesis
      by (cases "room = 0")
        (auto intro: stop [of None] go [of "acc @ b" "room - length b" "afterChunkRead (length b) e ck" r4])
  qed
qed

text \<open>A read that reports no error has made progress, unless no bytes were asked for.\<close>

lemma chunkedRead_work:
  "chunkedRead acc room ck r = ((b, e), ck', r') \<Longrightarrow>
     work r' \<le> work r \<and> (e = None \<and> acc = [] \<and> 0 < room \<longrightarrow> work r' < work r)"
proof (induction "2 * work r + (if ck_err ck = None then 1 else 0)" arbitrary: acc room ck r rule: less_induct)
  case less
  show ?case
  proof (cases rule: chunkedRead_step [of acc room ck r])
    case (stop e)
    with less(2) show ?thesis by auto
  next
    case (go acc1 room1 ck1 r1)
    show ?thesis
    proof (cases "ck_err ck1")
      case None
      with go less(1) [of r1 ck1 acc1 room1] less(2) show ?thesis by force
    next
      case (Some x)
      with go less(2) show ?thesis by auto
    qed
  qed
qed


subsection \<open>Bodies\<close>

text \<open>The body of a request as it is being read.\<close>

datatype bodyState = BodyNone | BodyLimited int | BodyChunked chunkState

fun openBody :: "requestBody \<Rightarrow> bodyState" where
  "openBody NoBody = BodyNone"
| "openBody (LimitedBody n) = BodyLimited n"
| "openBody ChunkedBody = BodyChunked newChunkedReader"

fun bodyRead :: "nat \<Rightarrow> bodyState \<Rightarrow> reader \<Rightarrow> (bytes \<times> bodyErr option) \<times> bodyState \<times> reader" where
  "bodyRead n BodyNone r = (([], Some (ReadErr ErrEOF)), BodyNone, r)"
| "bodyRead n (BodyLimited k) r =
     (if k \<le> 0 then (([], Some (ReadErr ErrEOF)), BodyLimited k, r)
      else (case bufRead (min n (nat k)) r of
              ((b, e), r) \<Rightarrow> ((b, map_option ReadErr e), BodyLimited (k - int (length b)), r)))"
| "bodyRead n (BodyChunked ck) r =
     (case chunkedRead [] n ck r of (res, ck, r) \<Rightarrow> (res, BodyChunked ck, r))"

lemma bodyRead_work:
  assumes "bodyRead n body r = ((b, e), body', r')"
  shows "work r' \<le> work r" "e = None \<Longrightarrow> 0 < n \<Longrightarrow> work r' < work r"
proof -
  have "work r' \<le> work r \<and> (e = None \<longrightarrow> 0 < n \<longrightarrow> work r' < work r)"
  proof (cases body)
    case (BodyLimited k)
    with assms bufRead_le bufRead_progress [of "min n (nat k)" r b r'] show ?thesis
      by (auto split: if_splits prod.splits)
  next
    case (BodyChunked ck)
    with assms chunkedRead_work [of "[]" n ck r] show ?thesis by (auto split: prod.splits)
  qed (use assms in auto)
  then show "work r' \<le> work r" "e = None \<Longrightarrow> 0 < n \<Longrightarrow> work r' < work r" by blast+
qed

text \<open>
  \<^verbatim>\<open>io.Copy(io.Discard, io.LimitReader(body, limit))\<close>: the count of bytes, and what is left. The
  error is dropped by the only caller. \<^verbatim>\<open>io.Discard\<close> reads 8192 bytes at a time.
\<close>

function discard :: "int \<Rightarrow> int \<Rightarrow> bodyState \<Rightarrow> reader \<Rightarrow> int \<times> bodyState \<times> reader" where
  "discard limit count body r =
     (if limit \<le> 0 then (count, body, r)
      else
        (case bodyRead (min 8192 (nat limit)) body r of
           ((b, Some e), body, r) \<Rightarrow> (count + int (length b), body, r)
         | ((b, None), body, r) \<Rightarrow> discard (limit - int (length b)) (count + int (length b)) body r))"
  by pat_completeness auto
termination
  by (relation "measure (\<lambda>(_, _, _, r). work r)") (auto dest: bodyRead_work(2) [OF sym])

declare discard.simps [simp del]

text \<open>
  Under a read deadline a time without arrivals is an error; what arrives behind it can be read
  again when the deadline is gone.
\<close>

definition beforeDeadline :: "reader \<Rightarrow> reader" where
  "beforeDeadline r =
     (if [] \<in> set (rd_src r)
      then r\<lparr>rd_src := takeWhile (\<lambda>c. c \<noteq> []) (rd_src r), rd_end := ErrIO ''i/o timeout''\<rparr> else r)"

definition afterDeadline :: "reader \<Rightarrow> reader \<Rightarrow> reader" where
  "afterDeadline r0 r =
     r\<lparr>rd_src := rd_src r @ dropWhile (\<lambda>c. c \<noteq> []) (rd_src r0), rd_end := rd_end r0\<rparr>"

definition drainBody :: "int \<Rightarrow> bodyState \<Rightarrow> reader \<Rightarrow> int \<times> reader" where
  "drainBody limit body r =
     (case discard limit 0 body (beforeDeadline r) of (n, body, r') \<Rightarrow> (n, afterDeadline r r'))"

section \<open>Steady arrivals\<close>

text \<open>No time without arrivals.\<close>

definition steady :: "reader \<Rightarrow> bool" where
  "steady r \<longleftrightarrow> [] \<notin> set (rd_src r)"

lemma steady_buf [simp]: "steady (r\<lparr>rd_buf := b\<rparr>) = steady r"
  by (simp add: steady_def)

lemma fill_steady [simp]: "steady r \<Longrightarrow> steady (fill r)"
  by (auto simp: steady_def fill_def Let_def split: list.splits)

lemma connRead_steady: "connRead n r = (res, r') \<Longrightarrow> steady r \<Longrightarrow> steady r'"
  by (auto simp: steady_def connRead_def split: list.splits if_splits)

lemma bufRead_steady: "bufRead n r = (res, r') \<Longrightarrow> steady r \<Longrightarrow> steady r'"
  by (auto simp: bufRead_def Let_def split: if_splits dest: connRead_steady)

lemma ReadSlice_steady: "steady r \<Longrightarrow> steady (snd (snd (ReadSlice delim r)))"
proof (induction delim r rule: ReadSlice.induct)
  case (1 delim r)
  then show ?case by (subst ReadSlice.simps) (auto split: option.split)
qed

lemma readLineLoop_steady: "steady r \<Longrightarrow> steady (snd (readLineLoop line r))"
proof (induction line r rule: readLineLoop.induct)
  case (1 line r)
  from ReadSlice_steady [OF 1(2), of LF] show ?case
    by (subst readLineLoop.simps) (auto simp: Let_def 1(1) split: prod.split option.split readErr.split)
qed

lemma readHeaders_steady: "steady r \<Longrightarrow> steady (snd (readHeaders st r))"
proof (induction st r rule: readHeaders.induct)
  case (1 st r)
  from readLineLoop_steady [OF 1(2), of "[]"] show ?case
    by (subst readHeaders.simps) (auto simp: readCRLFLine_loop 1(1) split: prod.split sum.split)
qed

lemma ReadRequest_steady: "steady r \<Longrightarrow> steady (snd (ReadRequest parseURI r))"
  using readLineLoop_steady [of r "[]"]
  by (auto simp: ReadRequest_def readCRLFLine_loop split: prod.split sum.split option.split)
    (metis readHeaders_steady snd_conv)+

text \<open>Reading a request and draining a body leave less to do.\<close>

lemma readLineLoop_src: "length (rd_src (snd (readLineLoop line r))) \<le> length (rd_src r)"
proof (induction line r rule: readLineLoop.induct)
  case (1 line r)
  from ReadSlice_src [of LF r] 1 show ?case
    by (subst readLineLoop.simps) (fastforce simp: Let_def split: prod.split option.split readErr.split)
qed

lemma readCRLFLine_work:
  "work (snd (readCRLFLine r)) \<le> work r"
  "readCRLFLine r = (Inr line, r') \<Longrightarrow> work r' < work r"
proof -
  have s: "length (rd_src (snd (readCRLFLine r))) \<le> length (rd_src r)"
    using readLineLoop_src [of "[]" r] by (simp add: readCRLFLine_loop)
  moreover have "length (unread (snd (readCRLFLine r))) \<le> length (unread r)"
    by (simp add: bufio.line_rest lineB_def split: option.split)
  ultimately show "work (snd (readCRLFLine r)) \<le> work r" by (simp add: work_def)
  assume "readCRLFLine r = (Inr line, r')"
  with bufio.line_shorter [OF this] s show "work r' < work r" by (simp add: work_def)
qed

lemma readHeaders_work: "work (snd (readHeaders st r)) \<le> work r"
proof (induction st r rule: readHeaders.induct)
  case (1 st r)
  from readCRLFLine_work(1) [of r] 1 show ?case
    by (subst readHeaders.simps) (fastforce split: prod.split sum.split)
qed

lemma ReadRequest_work:
  assumes "ReadRequest parseURI r = (Inr req, r')"
  shows "work r' < work r"
proof -
  obtain line r1 where r1: "readCRLFLine r = (Inr line, r1)"
    using assms by (auto simp: ReadRequest_def split: prod.splits sum.splits)
  from readCRLFLine_work(2) [OF r1] have "work r1 < work r" .
  with assms r1 readHeaders_work [of _ r1] show ?thesis
    by (auto simp: ReadRequest_def split: prod.splits sum.splits option.splits)
      (metis le_less_trans snd_conv)
qed

lemma discard_work: "discard limit count body r = (n, body', r') \<Longrightarrow> work r' \<le> work r"
proof (induction limit count body r rule: discard.induct)
  case (1 limit count body r)
  obtain b e body1 r1 where b: "bodyRead (min 8192 (nat limit)) body r = ((b, e), body1, r1)"
    by (metis prod.exhaust)
  show ?case
  proof (cases "limit \<le> 0")
    case True
    with 1(2) show ?thesis by (simp add: discard.simps)
  next
    case False
    note eq = discard.simps [of limit count body r]
    show ?thesis
    proof (cases e)
      case None
      with False 1(2) b eq have "discard (limit - int (length b)) (count + int (length b)) body1 r1 = (n, body', r')"
        by simp
      with 1(1) [OF False] None b bodyRead_work(1) [OF b]
      show ?thesis by fastforce
    next
      case (Some x)
      with False 1(2) b eq bodyRead_work(1) [OF b] show ?thesis by simp
    qed
  qed
qed

lemma drainBody_work: "drainBody limit body r = (n, r') \<Longrightarrow> work r' \<le> work r"
proof -
  assume d: "drainBody limit body r = (n, r')"
  obtain n1 body1 r1 where r1: "discard limit 0 body (beforeDeadline r) = (n1, body1, r1)" by (metis prod.exhaust)
  have split: "work r = work (beforeDeadline r) +
      length (concat (dropWhile (\<lambda>c. c \<noteq> []) (rd_src r))) + length (dropWhile (\<lambda>c. c \<noteq> []) (rd_src r))"
  proof (cases "[] \<in> set (rd_src r)")
    case True
    have "rd_src r = takeWhile (\<lambda>c. c \<noteq> []) (rd_src r) @ dropWhile (\<lambda>c. c \<noteq> []) (rd_src r)" by simp
    then have "length (concat (rd_src r)) = length (concat (takeWhile (\<lambda>c. c \<noteq> []) (rd_src r))) +
        length (concat (dropWhile (\<lambda>c. c \<noteq> []) (rd_src r)))"
      "length (rd_src r) = length (takeWhile (\<lambda>c. c \<noteq> []) (rd_src r)) + length (dropWhile (\<lambda>c. c \<noteq> []) (rd_src r))"
      by (metis concat_append length_append)+
    with True show ?thesis by (simp add: work_def unread_def beforeDeadline_def)
  next
    case False
    then have "dropWhile (\<lambda>c. c \<noteq> []) (rd_src r) = []" by auto
    with False show ?thesis by (simp del: dropWhile_eq_Nil_conv add: beforeDeadline_def)
  qed
  from d r1 have "r' = afterDeadline r r1" by (simp add: drainBody_def)
  then have "work r' = work r1 +
      length (concat (dropWhile (\<lambda>c. c \<noteq> []) (rd_src r))) + length (dropWhile (\<lambda>c. c \<noteq> []) (rd_src r))"
    by (simp add: afterDeadline_def work_def unread_def)
  with split discard_work [OF r1] show ?thesis by simp
qed

section \<open>Bodies with a length\<close>

text \<open>
  What is left of a body of length \<open>n\<close> when \<open>rest\<close> follows it on the connection: some of its
  bytes are unread, exactly as many as the reader's limit says.
\<close>

definition bodyLeft :: "bytes \<Rightarrow> int \<Rightarrow> bodyState \<Rightarrow> reader \<Rightarrow> bool" where
  "bodyLeft rest n body r \<longleftrightarrow>
     (case body of
        BodyNone \<Rightarrow> n = 0 \<and> unread r = rest
      | BodyLimited k \<Rightarrow> 0 < n \<and> 0 \<le> k \<and> k \<le> n \<and> (\<exists>part. unread r = part @ rest \<and> int (length part) = k)
      | BodyChunked ck \<Rightarrow> False)"

lemma bodyLeft_read:
  assumes "bodyLeft rest m body r" "bodyRead n body r = (res, body', r')"
  shows "bodyLeft rest m body' r'"
proof (cases body)
  case (BodyLimited k)
  with assms(1) obtain part where p: "k \<ge> 0" "unread r = part @ rest" "int (length part) = k" "0 < m" "k \<le> m"
    by (auto simp: bodyLeft_def)
  obtain b e r1 where b: "bufRead (min n (nat k)) r = ((b, e), r1)" by (metis prod.exhaust)
  have "nat k = length part" using p(3) by simp
  then have len: "length b \<le> length part" using bufRead_length [OF b] by simp
  moreover have "b @ unread r1 = part @ rest" using bufRead_unread [OF b] p(2) by simp
  ultimately have "b = take (length b) part" "unread r1 = drop (length b) part @ rest"
    by (auto simp: append_eq_append_conv_if split: if_splits)
  with p len have "bodyLeft rest m (BodyLimited (k - int (length b))) r1"
    by (auto simp: bodyLeft_def of_nat_diff simp del: length_drop intro!: exI [of _ "drop (length b) part"])
      (simp add: of_nat_diff)
  with BodyLimited assms b show ?thesis by (auto split: if_splits)
qed (use assms in \<open>auto simp: bodyLeft_def\<close>)


text \<open>Reading fails only when nothing is left to read.\<close>

lemma bufRead_ok: "bufRead n r = ((b, e), r') \<Longrightarrow> unread r \<noteq> [] \<Longrightarrow> e = None"
  by (auto simp: bufRead_def connRead_def unread_def Let_def split: if_splits list.splits)

text \<open>A limit above the length drains the body and stops in front of what follows it.\<close>

lemma discard_limited:
  "bodyLeft rest m (BodyLimited k) r \<Longrightarrow> k < limit \<Longrightarrow>
     \<exists>r'. discard limit count (BodyLimited k) r = (count + k, BodyLimited 0, r') \<and> unread r' = rest \<and>
       (steady r \<longrightarrow> steady r')"
proof (induction "work r" arbitrary: limit count k r rule: less_induct)
  case less
  from less.prems obtain part where p: "k \<ge> 0" "unread r = part @ rest" "int (length part) = k"
    by (auto simp: bodyLeft_def)
  show ?case
  proof (cases "k = 0")
    case True
    with less.prems p show ?thesis by (subst discard.simps) auto
  next
    case False
    let ?n = "min (min 8192 (nat limit)) (nat k)"
    obtain b e r1 where b: "bufRead ?n r = ((b, e), r1)" by (metis prod.exhaust)
    have "unread r \<noteq> []" using False p by auto
    from bufRead_ok [OF b this] have e: "e = None" .
    have read: "bodyRead (min 8192 (nat limit)) (BodyLimited k) r = ((b, None), BodyLimited (k - int (length b)), r1)"
      using b e False p(1) by simp
    have "0 < ?n" using False p(1) less.prems(2) by auto
    with bufRead_progress [of ?n r b r1] b e have "work r1 < work r" by simp
    from less.hyps [OF this bodyLeft_read [OF less.prems(1) read], of "limit - int (length b)" "count + int (length b)"]
      less.prems(2) bufRead_steady [OF b] read
    show ?thesis using less.prems(2) p(1) by (subst discard.simps) auto
  qed
qed

lemma drainBody_limited:
  assumes "bodyLeft rest m (BodyLimited k) r" "k < limit" "steady r"
  shows "\<exists>r'. drainBody limit (BodyLimited k) r = (k, r') \<and> unread r' = rest \<and> steady r'"
proof -
  have b: "beforeDeadline r = r" using assms(3) by (simp add: beforeDeadline_def steady_def)
  obtain r' where r': "discard limit 0 (BodyLimited k) r = (k, BodyLimited 0, r')" "unread r' = rest" "steady r'"
    using discard_limited [OF assms(1,2), of 0] assms(3) by auto
  have "dropWhile (\<lambda>c. c \<noteq> []) (rd_src r) = []" using assms(3) by (auto simp: steady_def)
  then have "unread (afterDeadline r r') = rest" "steady (afterDeadline r r')"
    using r'(2,3) by (simp_all del: dropWhile_eq_Nil_conv add: afterDeadline_def unread_def steady_def)
  with b r'(1) show ?thesis by (simp add: drainBody_def)
qed

end
