(* ===== verification/Conn_Engine.thy ===== *)
theory Conn_Engine
  imports Request_Body Response_Safety Conn_State
begin

text \<open>
  The engine of \<^verbatim>\<open>engine/engine.go\<close>: \<^verbatim>\<open>ServeConn\<close>, \<^verbatim>\<open>serveHTTP\<close> and \<^verbatim>\<open>handleRequest\<close>, with
  \<^verbatim>\<open>GetRequest\<close> of \<^verbatim>\<open>adaptor/adaptor.go\<close>, as one call runs them. Handlers are programs that read the
  body and call the response writer; \<^verbatim>\<open>netpoll\<close>, the standard library's \<^verbatim>\<open>url.ParseRequestURI\<close> and
  \<^verbatim>\<open>http.DetectContentType\<close>, the clock and the read handlers of hijacked connections are
  parameters.
\<close>

section \<open>Definitions\<close>

subsection \<open>Requests and handlers\<close>

text \<open>
  The request a handler sees: its remote address, its context and the timeout put on that
  context. Context \<open>0\<close> is \<^verbatim>\<open>context.Background()\<close>.
\<close>

record ServerRequest = Request +
  sr_RemoteAddr :: bytes
  sr_ctx :: objId
  sr_timeout :: "int option"

definition background :: objId where
  "background = 0"

definition serverRequest :: "Request \<Rightarrow> bytes \<Rightarrow> objId \<Rightarrow> int option \<Rightarrow> ServerRequest" where
  "serverRequest req addr ctx timeout =
     Request.extend req \<lparr>sr_RemoteAddr = addr, sr_ctx = ctx, sr_timeout = timeout\<rparr>"

text \<open>\<^verbatim>\<open>GetRequest\<close>; \<open>connAddr\<close> is the connection's remote address.\<close>

definition GetRequest ::
    "(bytes \<Rightarrow> error + URL) \<Rightarrow> bytes option \<Rightarrow> RequestContext \<Rightarrow> reader \<Rightarrow> (error + ServerRequest) \<times> reader" where
  "GetRequest parseURI connAddr ctx r =
     (case ReadRequest parseURI r of
        (Inl e, r) \<Rightarrow> (Inl e, r)
      | (Inr req, r) \<Rightarrow>
          (let addr = (if RemoteAddrString ctx \<noteq> [] then RemoteAddrString ctx
                       else case connAddr of Some a \<Rightarrow> a | None \<Rightarrow> []);
               parentCtx = (case ctx_Req ctx of Some c \<Rightarrow> c | None \<Rightarrow> background)
           in (Inr (serverRequest req addr parentCtx None), r)))"

text \<open>
  A handler: what it does next depends on the results of its calls. It may panic, call the
  response writer, install a read handler, or read up to \<open>n\<close> bytes of the body.
\<close>

datatype handlerProg =
    Return
  | Panic
  | Call handlerOp "nat \<times> ioError option \<Rightarrow> handlerProg"
  | InstallReadHandler objId handlerProg
  | ReadBody nat "bytes \<times> bodyErr option \<Rightarrow> handlerProg"

text \<open>One call of the response writer: its result, the writer after it, and the detached buffer.\<close>

fun callOp ::
    "(bytes \<Rightarrow> bytes) \<Rightarrow> bytes \<Rightarrow> handlerOp \<Rightarrow> ResponseWriter \<Rightarrow>
     (nat \<times> ioError option) \<times> ResponseWriter \<times> writer option" where
  "callOp detect date (OpHeader h) w = ((0, None), w\<lparr>rw_header := h\<rparr>, None)"
| "callOp detect date (OpTrailer t) w = ((0, None), w\<lparr>rw_trailer := t\<rparr>, None)"
| "callOp detect date (OpWriteHeader code) w = ((0, None), WriteHeader code w, None)"
| "callOp detect date (OpWrite p) w = (case rw_Write detect date p w of (res, w) \<Rightarrow> (res, w, None))"
| "callOp detect date (OpWriteString p) w = (case rw_WriteString detect date p w of (res, w) \<Rightarrow> (res, w, None))"
| "callOp detect date (OpReadFrom src e) w = (case rw_ReadFrom None date src e w of (res, w) \<Rightarrow> (res, w, None))"
| "callOp detect date OpFlush w = ((0, None), rw_Flush date w, None)"
| "callOp detect date OpHijack w =
     (case Hijack w of
        (Inl e, w) \<Rightarrow> ((0, Some e), w, None)
      | (Inr hj, w) \<Rightarrow> ((0, None), w, Some (hj_writer hj)))"

record hstate =
  hs_rw :: ResponseWriter
  hs_body :: bodyState
  hs_reader :: reader
  hs_handlers :: readHandlers
  hs_detached :: "writer option"

text \<open>\<^verbatim>\<open>Handler.ServeHTTP\<close>: whether it panicked. A nil dereference in a call is a panic.\<close>

primrec runHandler :: "(bytes \<Rightarrow> bytes) \<Rightarrow> bytes \<Rightarrow> handlerProg \<Rightarrow> hstate \<Rightarrow> bool \<times> hstate" where
  "runHandler detect date Return s = (False, s)"
| "runHandler detect date Panic s = (True, s)"
| "runHandler detect date (Call op k) s =
     (case callOp detect date op (hs_rw s) of (res, w, d) \<Rightarrow>
        (let s = s\<lparr>hs_rw := w, hs_detached := (if d = None then hs_detached s else d)\<rparr>
         in if snd res = Some NilDeref then (True, s) else runHandler detect date (k res) s))"
| "runHandler detect date (InstallReadHandler h p) s =
     runHandler detect date p (s\<lparr>hs_handlers := rw_SetReadHandler h (hs_rw s) (hs_handlers s)\<rparr>)"
| "runHandler detect date (ReadBody n k) s =
     (case bodyRead n (hs_body s) (hs_reader s) of (res, body, r) \<Rightarrow>
        runHandler detect date (k res) (s\<lparr>hs_body := body, hs_reader := r\<rparr>))"

subsection \<open>The engine\<close>

record Engine =
  e_Handler :: "ServerRequest \<Rightarrow> handlerProg"
  e_requestTimeout :: int
  e_maxDrainSize :: int
  e_bufferSize :: int

definition MaxDrainSize :: int where
  "MaxDrainSize = 64 * 1024"

definition WithRequestTimeout :: "int \<Rightarrow> Engine \<Rightarrow> Engine" where
  "WithRequestTimeout d e = e\<lparr>e_requestTimeout := d\<rparr>"

definition WithMaxDrainSize :: "int \<Rightarrow> Engine \<Rightarrow> Engine" where
  "WithMaxDrainSize n e = e\<lparr>e_maxDrainSize := n\<rparr>"

definition WithBufferSize :: "int \<Rightarrow> Engine \<Rightarrow> Engine" where
  "WithBufferSize n e = e\<lparr>e_bufferSize := n\<rparr>"

definition NewEngine :: "(ServerRequest \<Rightarrow> handlerProg) \<Rightarrow> (Engine \<Rightarrow> Engine) list \<Rightarrow> Engine" where
  "NewEngine handler opts =
     foldl (\<lambda>e opt. opt e)
       \<lparr>e_Handler = handler, e_requestTimeout = 0, e_maxDrainSize = MaxDrainSize, e_bufferSize = 4096\<rparr> opts"

text \<open>What the pools' constructors make.\<close>

definition pooledReader :: "Engine \<Rightarrow> reader" where
  "pooledReader e = \<lparr>rd_size = nat (e_bufferSize e), rd_buf = [], rd_src = [], rd_end = ErrEOF\<rparr>"

definition pooledWriter :: "Engine \<Rightarrow> writer" where
  "pooledWriter e = \<lparr>wr_size = nat (e_bufferSize e), wr_buf = [], wr_err = None, wr_sent = [], wr_room = None\<rparr>"

text \<open>
  What a call relies on: of \<^verbatim>\<open>netpoll\<close>, whether the connection is active, what has arrived and not
  been read yet (\<open>None\<close> for a nil reader), its address; the handles of the connection, of its
  context and of its reader and writer; the time left until the context's deadline; the object a
  pool chooses; and what a read handler does.
\<close>

datatype readHandlerResult = HandlerOk | HandlerErr string | HandlerPanic

record netEnv =
  np_parseURI :: "bytes \<Rightarrow> error + URL"
  np_detect :: "bytes \<Rightarrow> bytes"
  np_date :: bytes
  np_active :: "reader \<Rightarrow> bool"
  np_arrived :: "reader \<Rightarrow> bytes option"
  np_addr :: "bytes option"
  np_conn :: objId
  np_ctx :: objId
  np_reader :: objId
  np_writer :: objId
  np_deadline :: "int option"
  np_pick :: nat
  np_readHandler :: "objId \<Rightarrow> reader \<Rightarrow> writer \<Rightarrow> readHandlerResult \<times> reader \<times> writer"

subsection \<open>\<^verbatim>\<open>handleRequest\<close>\<close>

text \<open>
  The parts of the state \<^verbatim>\<open>handleRequest\<close> reads and writes, and the requests given to the handler so
  far.
\<close>

record exchange =
  ex_reader :: reader
  ex_writer :: writer
  ex_handlers :: readHandlers
  ex_rws :: "ResponseWriter list"
  ex_served :: "ServerRequest list"

datatype requestError = ReqErr error | HandlerPanicked | EndErr ioError

definition withTimeout :: "Engine \<Rightarrow> netEnv \<Rightarrow> ServerRequest \<Rightarrow> ServerRequest" where
  "withTimeout e env req =
     (if e_requestTimeout e > 0 \<and>
         (case np_deadline env of None \<Rightarrow> True | Some left \<Rightarrow> left > e_requestTimeout e)
      then req\<lparr>sr_timeout := Some (e_requestTimeout e)\<rparr> else req)"

text \<open>The buffered writer after the handler: detached by \<^verbatim>\<open>Hijack\<close>, or still the response writer's.\<close>

definition writerAfter :: "writer \<Rightarrow> hstate \<Rightarrow> ResponseWriter \<Rightarrow> writer" where
  "writerAfter bw s w =
     (case rw_bufWriter w of Some bw \<Rightarrow> bw | None \<Rightarrow> (case hs_detached s of Some bw \<Rightarrow> bw | None \<Rightarrow> bw))"

definition handleRequest ::
    "Engine \<Rightarrow> netEnv \<Rightarrow> RequestContext \<Rightarrow> exchange \<Rightarrow>
     (requestError + ServerRequest \<times> bodyState \<times> bool) \<times> exchange" where
  "handleRequest e env ctx x =
     (case GetRequest (np_parseURI env) (np_addr env) ctx (ex_reader x) of
        (Inl err, r) \<Rightarrow> (Inl (ReqErr err), x\<lparr>ex_reader := r\<rparr>)
      | (Inr req, r) \<Rightarrow>
          (case NewResponseWriter ctx (Some (ex_writer x)) (np_pick env) (ex_rws x) of (w, rws) \<Rightarrow>
             (let req = withTimeout e env req
              in case runHandler (np_detect env) (np_date env) (e_Handler e req)
                        \<lparr>hs_rw = w, hs_body = openBody (req_Body req), hs_reader = r,
                         hs_handlers = ex_handlers x, hs_detached = None\<rparr> of
                   (panicked, s) \<Rightarrow>
                     (let w = hs_rw s;
                          (err, w) =
                            (if panicked
                             then (if \<not> HeaderSent w then EndResponse (np_date env) (WriteHeader 500 w) else (None, w))
                             else EndResponse (np_date env) w);
                          x = \<lparr>ex_reader = hs_reader s, ex_writer = writerAfter (ex_writer x) s w,
                               ex_handlers = hs_handlers s, ex_rws = rw_Release w rws,
                               ex_served = ex_served x @ [req]\<rparr>
                      in if panicked then (Inl HandlerPanicked, x)
                         else (case err of
                                 Some err \<Rightarrow> (Inl (EndErr err), x)
                               | None \<Rightarrow> (Inr (req, hs_body s, Hijacked w), x))))))"


subsection \<open>\<^verbatim>\<open>serveHTTP\<close>\<close>

text \<open>
  The connection itself: what will arrive on it and what it has accepted, whether it has been
  closed. While a buffered reader or writer is attached, it keeps the input and the output.
\<close>

record world =
  wd_state :: ConnectionState
  wd_pools :: pools
  wd_ctxs :: "RequestContext list"
  wd_rws :: "ResponseWriter list"
  wd_src :: "bytes list"
  wd_end :: error
  wd_sent :: bytes
  wd_room :: "nat option"
  wd_closed :: bool
  wd_served :: "ServerRequest list"

definition detachIO :: "world \<Rightarrow> world" where
  "detachIO y =
     (let y = (case cs_Reader (wd_state y) of
                 Some r \<Rightarrow> y\<lparr>wd_src := rd_src r, wd_end := rd_end r\<rparr> | None \<Rightarrow> y);
          y = (case cs_Writer (wd_state y) of
                 Some w \<Rightarrow> y\<lparr>wd_sent := wr_sent w, wd_room := wr_room w\<rparr> | None \<Rightarrow> y)
      in case releasePooledIO (wd_state y) (wd_pools y) of (s, ps) \<Rightarrow> y\<lparr>wd_state := s, wd_pools := ps\<rparr>)"

definition setProcessing :: "bool \<Rightarrow> world \<Rightarrow> world" where
  "setProcessing b y = y\<lparr>wd_state := (wd_state y)\<lparr>cs_Processing := b\<rparr>\<rparr>"

text \<open>\<^verbatim>\<open>releasePooledIO\<close> and \<^verbatim>\<open>Processing.Store(false)\<close>\<close>

definition giveBack :: "world \<Rightarrow> world" where
  "giveBack y = setProcessing False (detachIO y)"

definition closeConn :: "world \<Rightarrow> world" where
  "closeConn y = y\<lparr>wd_closed := True\<rparr>"

definition headerEndMarker :: bytes where
  "headerEndMarker = CRLF @ CRLF"

text \<open>\<^verbatim>\<open>bytes.Contains\<close>\<close>

fun containsBytes :: "bytes \<Rightarrow> bytes \<Rightarrow> bool" where
  "containsBytes sep [] \<longleftrightarrow> sep = []"
| "containsBytes sep (c # cs) \<longleftrightarrow> take (length sep) (c # cs) = sep \<or> containsBytes sep cs"

text \<open>How a call of \<^verbatim>\<open>serveHTTP\<close> ends.\<close>

datatype serveOutcome =
    Inactive
  | NoData
  | HeadMissing
  | Failed requestError
  | TakenOver
  | WaitsForDone
  | CloseAfter
  | Idle
  | NilReader

text \<open>The checks in front of a request, when nothing is buffered.\<close>

definition notReady :: "netEnv \<Rightarrow> reader \<Rightarrow> serveOutcome option" where
  "notReady env r =
     (if rd_buf r = []
      then
        (case np_arrived env r of
           None \<Rightarrow> None
         | Some peekBuf \<Rightarrow>
             if peekBuf = [] then Some NoData
             else if \<not> containsBytes headerEndMarker peekBuf then Some HeadMissing
             else None)
      else None)"

text \<open>\<^verbatim>\<open>req.Header.Get\<close> with a canonical key.\<close>

definition headerGet :: "header \<Rightarrow> bytes \<Rightarrow> bytes" where
  "headerGet h key = (case h key of Some (v # vs) \<Rightarrow> v | _ \<Rightarrow> [])"

definition connectionKey :: bytes where "connectionKey = str ''Connection''"

datatype iteration = GoOn world | Stop serveOutcome world

text \<open>What follows \<^verbatim>\<open>handleRequest\<close> in the loop.\<close>

definition drainRequest :: "Engine \<Rightarrow> ServerRequest \<Rightarrow> bodyState \<Rightarrow> reader \<Rightarrow> bool \<times> reader" where
  "drainRequest e req body r =
     (if req_ContentLength req > 0 \<or> req_TransferEncoding req \<noteq> []
      then (case drainBody (wrap64 (e_maxDrainSize e + 1)) body r of
              (n, r) \<Rightarrow> (n > e_maxDrainSize e \<or> req_Close req, r))
      else (req_Close req, r))"

definition afterRequest ::
    "Engine \<Rightarrow> netEnv \<Rightarrow> requestError + ServerRequest \<times> bodyState \<times> bool \<Rightarrow> reader \<Rightarrow> world \<Rightarrow> iteration" where
  "afterRequest e env res r y =
     (case res of
        Inl err \<Rightarrow> Stop (Failed err) (giveBack (if err \<noteq> ReqErr ErrEOF then closeConn y else y))
      | Inr (req, body, True) \<Rightarrow>
          Stop (if cs_ReadHandler (wd_state y) \<noteq> None then TakenOver else WaitsForDone) (setProcessing False y)
      | Inr (req, body, False) \<Rightarrow>
          (case drainRequest e req body r of (close, r) \<Rightarrow>
             (let y = y\<lparr>wd_state := (wd_state y)\<lparr>cs_Reader := Some r\<rparr>\<rparr>
              in if close \<or> headerGet (req_Header req) connectionKey = str ''close''
                 then Stop CloseAfter (giveBack (closeConn y))
                 else if rd_buf r \<noteq> [] then GoOn y
                 else
                   (let y = setProcessing False y
                    in if (case np_arrived env r of None \<Rightarrow> False | Some b \<Rightarrow> b \<noteq> [])
                       then GoOn (setProcessing True y)
                       else Stop Idle (detachIO y)))))"

definition serveRequest :: "Engine \<Rightarrow> netEnv \<Rightarrow> reader \<Rightarrow> writer \<Rightarrow> world \<Rightarrow> iteration" where
  "serveRequest e env r w y =
     (case NewRequestContext (Some (np_conn env)) (Some (np_ctx env)) (Some (np_reader env)) (Some (np_writer env))
             (np_pick env) (wd_ctxs y) of (ctx, ctxs) \<Rightarrow>
        (let s = wd_state y;
             ctx = SetRemoteAddrString (cs_RemoteAddr s) ctx;
             ctx = SetOnSetReadHandler (Some (\<lambda>h handlers. handlers(np_conn env := Some h))) ctx
         in case handleRequest e env ctx
                   \<lparr>ex_reader = r, ex_writer = w, ex_handlers = (\<lambda>_. None)(np_conn env := cs_ReadHandler s),
                    ex_rws = wd_rws y, ex_served = wd_served y\<rparr> of
              (res, x) \<Rightarrow>
                afterRequest e env res (ex_reader x)
                  (y\<lparr>wd_state := s\<lparr>cs_Reader := Some (ex_reader x), cs_Writer := Some (ex_writer x),
                                   cs_ReadHandler := ex_handlers x (np_conn env)\<rparr>,
                     wd_ctxs := ctx_Release ctx ctxs, wd_rws := ex_rws x, wd_served := ex_served x\<rparr>)))"

text \<open>One pass of the loop. A nil reader or writer is a panic, recovered by \<^verbatim>\<open>serveHTTP\<close>.\<close>

definition serveIter :: "Engine \<Rightarrow> netEnv \<Rightarrow> world \<Rightarrow> iteration" where
  "serveIter e env y =
     (case (cs_Reader (wd_state y), cs_Writer (wd_state y)) of
        (Some r, Some w) \<Rightarrow>
          if wd_closed y \<or> \<not> np_active env r then Stop Inactive (giveBack y)
          else (case notReady env r of
                  Some out \<Rightarrow> Stop out (giveBack y)
                | None \<Rightarrow> serveRequest e env r w y)
      | _ \<Rightarrow> Stop NilReader (setProcessing False (closeConn y)))"


text \<open>The handler and the drain only consume.\<close>

lemma runHandler_work: "runHandler detect date p s = (panicked, s') \<Longrightarrow> work (hs_reader s') \<le> work (hs_reader s)"
proof (induction p arbitrary: s)
  case (Call op k)
  obtain res w d where c: "callOp detect date op (hs_rw s) = (res, w, d)" by (metis prod.exhaust)
  show ?case
  proof (cases "snd res = Some NilDeref")
    case False
    with Call.prems Call.IH [of "k res"] c show ?thesis by (fastforce simp: Let_def)
  qed (use Call.prems c in \<open>auto simp: Let_def\<close>)
next
  case (ReadBody n k)
  obtain b e body r where b: "bodyRead n (hs_body s) (hs_reader s) = ((b, e), body, r)" by (metis prod.exhaust)
  with ReadBody.prems ReadBody.IH [of "k (b, e)"] bodyRead_work(1) [OF b] show ?case by fastforce
next
  case (InstallReadHandler h p)
  then show ?case by fastforce
qed simp_all

lemma handleRequest_work:
  assumes "handleRequest e env ctx x = (Inr res, x')"
  shows "work (ex_reader x') < work (ex_reader x)"
proof -
  obtain req r where req: "ReadRequest (np_parseURI env) (ex_reader x) = (Inr req, r)"
    using assms by (auto simp: handleRequest_def GetRequest_def Let_def split: prod.splits sum.splits)
  from assms req have "work (ex_reader x') \<le> work r"
    by (auto simp: handleRequest_def GetRequest_def Let_def split: prod.splits if_splits option.splits
        dest!: runHandler_work)
  with ReadRequest_work [OF req] show ?thesis by simp
qed

lemma drainRequest_work: "drainRequest e req body r = (close, r') \<Longrightarrow> work r' \<le> work r"
  by (auto simp: drainRequest_def split: if_splits prod.splits dest: drainBody_work)

definition worldWork :: "world \<Rightarrow> nat" where
  "worldWork y = (case cs_Reader (wd_state y) of Some r \<Rightarrow> work r | None \<Rightarrow> 0)"

lemma afterRequest_work:
  "afterRequest e env res r y = GoOn y' \<Longrightarrow> worldWork y' \<le> work r \<and> (\<exists>x. res = Inr x)"
  by (auto simp: afterRequest_def worldWork_def setProcessing_def Let_def
      split: sum.splits prod.splits bool.splits if_splits option.splits dest: drainRequest_work)

lemma serveIter_work:
  assumes "serveIter e env y = GoOn y'"
  shows "worldWork y' < worldWork y"
proof -
  obtain r w where rw: "cs_Reader (wd_state y) = Some r" "cs_Writer (wd_state y) = Some w"
    "serveRequest e env r w y = GoOn y'"
    using assms by (auto simp: serveIter_def split: option.splits if_splits)
  from rw(3) show ?thesis
    unfolding serveRequest_def Let_def
    by (auto split: prod.splits dest!: afterRequest_work handleRequest_work simp: worldWork_def [of y] rw(1))
qed

function serveHTTP :: "Engine \<Rightarrow> netEnv \<Rightarrow> world \<Rightarrow> serveOutcome \<times> world" where
  "serveHTTP e env y =
     (case serveIter e env y of Stop out y \<Rightarrow> (out, y) | GoOn y \<Rightarrow> serveHTTP e env y)"
  by pat_completeness auto
termination
  by (relation "measure (\<lambda>(_, _, y). worldWork y)") (auto dest: serveIter_work)

declare serveHTTP.simps [simp del]

subsection \<open>\<^verbatim>\<open>ServeConn\<close>\<close>

text \<open>The reader and writer from the pools, reset to the connection.\<close>

definition attachIO :: "Engine \<Rightarrow> netEnv \<Rightarrow> world \<Rightarrow> world" where
  "attachIO e env y =
     (let y = (case cs_Reader (wd_state y) of
                 Some r \<Rightarrow> y
               | None \<Rightarrow>
                   (case poolGet (pooledReader e) (np_pick env) (readerPool (wd_pools y)) of (r, pool) \<Rightarrow>
                      y\<lparr>wd_state := (wd_state y)\<lparr>cs_Reader := Some (r\<lparr>rd_buf := [], rd_src := wd_src y, rd_end := wd_end y\<rparr>)\<rparr>,
                        wd_pools := (wd_pools y)\<lparr>readerPool := pool\<rparr>\<rparr>))
      in case cs_Writer (wd_state y) of
           Some w \<Rightarrow> y
         | None \<Rightarrow>
             (case poolGet (pooledWriter e) (np_pick env) (writerPool (wd_pools y)) of (w, pool) \<Rightarrow>
                y\<lparr>wd_state := (wd_state y)\<lparr>cs_Writer :=
                     Some (w\<lparr>wr_buf := [], wr_err := None, wr_sent := wd_sent y, wr_room := wd_room y\<rparr>)\<rparr>,
                  wd_pools := (wd_pools y)\<lparr>writerPool := pool\<rparr>\<rparr>))"

definition setRemoteAddr :: "netEnv \<Rightarrow> world \<Rightarrow> world" where
  "setRemoteAddr env y =
     (if cs_RemoteAddr (wd_state y) = []
      then (case np_addr env of
              Some a \<Rightarrow> y\<lparr>wd_state := (wd_state y)\<lparr>cs_RemoteAddr := a\<rparr>\<rparr>
            | None \<Rightarrow> y)
      else y)"

text \<open>The read handler of a hijacked connection, called with its reader and writer.\<close>

definition callReadHandler :: "netEnv \<Rightarrow> objId \<Rightarrow> world \<Rightarrow> world" where
  "callReadHandler env h y =
     (case (cs_Reader (wd_state y), cs_Writer (wd_state y)) of
        (Some r, Some w) \<Rightarrow>
          (case np_readHandler env h r w of (res, r, w) \<Rightarrow>
             (let y = y\<lparr>wd_state := (wd_state y)\<lparr>cs_Reader := Some r, cs_Writer := Some w\<rparr>\<rparr>
              in setProcessing False (if res = HandlerOk then y else closeConn y)))
      | _ \<Rightarrow> setProcessing False y)"

definition releaseState :: "world \<Rightarrow> world" where
  "releaseState y =
     (case ReleaseConnectionState (wd_state y) (wd_pools y) of (s, ps) \<Rightarrow> y\<lparr>wd_state := s, wd_pools := ps\<rparr>)"

text \<open>\<^verbatim>\<open>ServeConn\<close>; \<open>found\<close> says whether the context has a connection state. \<open>None\<close> is a nil error.\<close>

definition ServeConn :: "Engine \<Rightarrow> netEnv \<Rightarrow> bool \<Rightarrow> world \<Rightarrow> string option \<times> world" where
  "ServeConn e env found y =
     (if \<not> found then (Some ''connection state not found'', y)
      else
        (let y = y\<lparr>wd_state := AcquireConnectionState (wd_state y)\<rparr>;
             y = (if cs_Processing (wd_state y) then y
                  else
                    (let y = setRemoteAddr env (attachIO e env (setProcessing True y))
                     in case cs_ReadHandler (wd_state y) of
                          Some h \<Rightarrow> callReadHandler env h y
                        | None \<Rightarrow> snd (serveHTTP e env y)))
         in (None, releaseState y)))"

end
