(* ===== verification/Conn_Serve.thy ===== *)
theory Conn_Serve
  imports Conn_Engine
begin

text \<open>
  What a call of \<^verbatim>\<open>serveHTTP\<close> does with the requests that arrive on a connection: each is given to the
  handler once and in order, a body the handler leaves unread does not run into the next request,
  and what the handler answers is what goes out; and what it does with a request that cannot be
  read and with a handler that panics.
\<close>

section \<open>Response writers over a sound connection\<close>

text \<open>The calls of a handler that does not hijack keep the writer usable.\<close>

definition usable :: "ResponseWriter \<Rightarrow> bool" where
  "usable w \<longleftrightarrow> ready w \<and> \<not> rw_hijacked w"

lemma usable_control: "ready w' \<Longrightarrow> control w' = control w \<Longrightarrow> usable w \<Longrightarrow> usable w'"
  using control_eqD(5) [of w' w] by (simp add: usable_def)

lemma usable_updates [simp]:
  "usable (w\<lparr>rw_header := h\<rparr>) = usable w" "usable (w\<lparr>rw_trailer := h\<rparr>) = usable w"
  "usable (w\<lparr>rw_pending := b\<rparr>) = usable w" "usable (w\<lparr>rw_statusCode := c\<rparr>) = usable w"
  by (simp_all add: usable_def ready_def)

lemma put_usable: "usable w \<Longrightarrow> \<exists>w'. put ps w = (None, w') \<and> usable w' \<and> control w' = control w"
  by (metis put_ready usable_control usable_def)

lemma flush_usable: "usable w \<Longrightarrow> \<exists>w'. flushBuffer w = (None, w') \<and> usable w'"
  by (metis flush_ready usable_control usable_def)

lemma ensureHeaderSent_usable: "usable w \<Longrightarrow> \<exists>w'. ensureHeaderSent date w = (None, w') \<and> usable w'"
proof (cases "rw_headerSent w")
  case True
  then show "usable w \<Longrightarrow> \<exists>w'. ensureHeaderSent date w = (None, w') \<and> usable w'" by (simp add: ensureHeaderSent_def)
next
  case False
  assume u: "usable w"
  then obtain w' where w': "ensureHeaderSent date w = (None, w')" "ready w'"
    "control w' = (control w)\<lparr>rw_chunked := willChunk w, rw_headerSent := True\<rparr>"
    using ensureHeaderSent_ready [of w] False unfolding usable_def by metis
  have "rw_hijacked w' = rw_hijacked w" using arg_cong [OF w'(3), of rw_hijacked] by (simp add: control_def)
  with w'(1,2) u show ?thesis by (simp add: usable_def)
qed

lemma putPending_usable: "usable w \<Longrightarrow> \<exists>w'. putPending w = (None, w') \<and> usable w'"
  using put_usable [of w] by (auto simp: putPending_def split: prod.split option.split) (metis prod.inject option.distinct(1))+

lemma putData_usable: "usable w \<Longrightarrow> \<exists>n w'. putData q w = ((n, None), w') \<and> usable w'"
  by (metis putData_ready usable_control usable_def)


lemma usable_sniff [simp]: "usable (sniff detect p w) = usable w"
  by (simp add: sniff_def)

lemma Write_usable: "usable w \<Longrightarrow> \<exists>n w'. rw_Write detect date p w = ((n, None), w') \<and> usable w'"
proof -
  assume u: "usable w"
  then have nh: "\<not> rw_hijacked w" by (simp add: usable_def)
  obtain n1 w1 where w1: "putData (B p) w = ((n1, None), w1)" "usable w1" using putData_usable [OF u] by metis
  have s: "usable (sniff detect p w)" using u by simp
  obtain w2 where w2: "ensureHeaderSent date (sniff detect p w) = (None, w2)" "usable w2"
    using ensureHeaderSent_usable [OF s] by metis
  obtain w3 where w3: "putPending w2 = (None, w3)" "usable w3" using putPending_usable [OF w2(2)] by metis
  obtain n4 w4 where w4: "putData (B p) w3 = ((n4, None), w4)" "usable w4" using putData_usable [OF w3(2)] by metis
  obtain n5 w5 where w5: "putData (B p) w2 = ((n5, None), w5)" "usable w5" using putData_usable [OF w2(2)] by metis
  show ?thesis
    using u nh w1 w2 w3 w4 w5 by (auto simp: rw_Write_def beforeWrite_def Let_def)
qed

lemma WriteString_usable: "usable w \<Longrightarrow> \<exists>n w'. rw_WriteString detect date p w = ((n, None), w') \<and> usable w'"
proof -
  assume u: "usable w"
  then have nh: "\<not> rw_hijacked w" by (simp add: usable_def)
  obtain n1 w1 where w1: "putData (S p) w = ((n1, None), w1)" "usable w1" using putData_usable [OF u] by metis
  have s: "usable (sniff detect p w)" using u by simp
  obtain w2 where w2: "ensureHeaderSent date (sniff detect p w) = (None, w2)" "usable w2"
    using ensureHeaderSent_usable [OF s] by metis
  obtain n3 w3 where w3: "putData (S p) w2 = ((n3, None), w3)" "usable w3" using putData_usable [OF w2(2)] by metis
  show ?thesis using u nh w1 w2 w3 by (auto simp: rw_WriteString_def)
qed

lemma copyLoop_usable: "usable w \<Longrightarrow> \<exists>m w'. copyLoop n src e w = ((m, e), w') \<and> usable w'"
proof (induction n src e w rule: copyLoop.induct)
  case (2 n b bs e w)
  let ?ps = "if rw_chunked w then [B (appendInt16 (length b)), B CRLF, B b, B CRLF] else [B b]"
  obtain w1 where "put ?ps w = (None, w1)" "usable w1" using put_usable [OF 2(3)] by metis
  with 2 show ?case by (cases "b = []") auto
qed simp

lemma ReadFrom_usable:
  assumes "usable w"
  shows "\<exists>m w'. rw_ReadFrom None date src e w = ((m, e), w') \<and> usable w'"
proof -
  obtain w1 where w1: "ensureHeaderSent date w = (None, w1)" "usable w1" using ensureHeaderSent_usable [OF assms] by metis
  obtain w2 where w2: "flushBuffer w1 = (None, w2)" "usable w2" using flush_usable [OF w1(2)] by metis
  from assms w1 w2 copyLoop_usable [OF w1(2), of 0 src e] copyLoop_usable [OF w2(2), of 0 src e]
  show ?thesis by (auto simp: rw_ReadFrom_def usable_def split: option.split)
qed

lemma Flush_usable:
  assumes "usable w"
  shows "usable (rw_Flush date w)"
proof -
  obtain w1 where w1: "ensureHeaderSent date w = (None, w1)" "usable w1" using ensureHeaderSent_usable [OF assms] by metis
  obtain w2 where w2: "putPending w1 = (None, w2)" "usable w2" using putPending_usable [OF w1(2)] by metis
  from assms w1 w2 flush_usable [OF assms] flush_usable [OF w1(2)] flush_usable [OF w2(2)]
  show ?thesis by (auto simp: rw_Flush_def)
qed

lemma EndResponse_usable:
  assumes "usable w"
  shows "\<exists>w'. EndResponse date w = (None, w') \<and> usable w'"
proof -
  define w0 where "w0 = (if \<not> rw_headerSent w \<and> firstHeaderValue (rw_header w) headerContentLength = []
    then w\<lparr>rw_header := setSingleHeaderValue headerContentLength (itoa (length (rw_pending w))) (rw_header w)\<rparr> else w)"
  have "usable w0" using assms by (simp add: w0_def)
  then obtain w1 where w1: "ensureHeaderSent date w0 = (None, w1)" "usable w1" using ensureHeaderSent_usable by metis
  obtain w2 where w2: "(if rw_pending w1 \<noteq> [] then put [B (rw_pending w1)] w1 else (None, w1)) = (None, w2)" "usable w2"
    using put_usable [OF w1(2), of "[B (rw_pending w1)]"] w1(2) by (cases "rw_pending w1 = []") auto
  let ?w = "w2\<lparr>rw_pending := []\<rparr>"
  obtain w3 where w3: "(if rw_chunked ?w then put (endPieces (rw_trailer ?w)) ?w else (None, ?w)) = (None, w3)" "usable w3"
    using put_usable [of ?w "endPieces (rw_trailer ?w)"] w2(2) by (cases "rw_chunked w2") auto
  obtain w4 where "flushBuffer w3 = (None, w4)" "usable w4" using flush_usable [OF w3(2)] by metis
  moreover have "\<not> rw_hijacked w" using assms by (simp add: usable_def)
  ultimately show ?thesis using w1(1) w2(1) w3(1) by (simp add: EndResponse_def Let_def w0_def [symmetric])
qed

text \<open>Handlers that neither panic nor hijack the connection.\<close>

fun calmOp :: "handlerOp \<Rightarrow> bool" where
  "calmOp OpHijack = False"
| "calmOp (OpReadFrom src e) = (e \<noteq> Some NilDeref)"
| "calmOp op = True"

primrec calm :: "handlerProg \<Rightarrow> bool" where
  "calm Return = True"
| "calm Panic = False"
| "calm (Call op k) = (calmOp op \<and> (\<forall>x. calm (k x)))"
| "calm (InstallReadHandler h p) = calm p"
| "calm (ReadBody n k) = (\<forall>x. calm (k x))"

lemma callOp_usable:
  assumes "usable w" "calmOp op"
  shows "\<exists>res w'. callOp detect date op w = (res, w', None) \<and> snd res \<noteq> Some NilDeref \<and> usable w'"
proof (cases op)
  case (OpWrite p)
  with Write_usable [OF assms(1)] show ?thesis by (metis (no_types, lifting) callOp.simps(4) case_prod_conv option.distinct(1) snd_conv)
next
  case (OpWriteString p)
  with WriteString_usable [OF assms(1)] show ?thesis by (metis (no_types, lifting) callOp.simps(5) case_prod_conv option.distinct(1) snd_conv)
next
  case (OpReadFrom src e)
  with assms(2) ReadFrom_usable [OF assms(1)] show ?thesis by (metis (no_types, lifting) calmOp.simps(2) callOp.simps(6) case_prod_conv snd_conv)
qed (use assms Flush_usable in \<open>auto simp: WriteHeader_def\<close>)

lemma runHandler_calm:
  assumes "calm p" "usable (hs_rw s)" "bodyLeft rest n (hs_body s) (hs_reader s)" "steady (hs_reader s)" "hs_detached s = None"
  shows "\<exists>s'. runHandler detect date p s = (False, s') \<and> usable (hs_rw s') \<and>
    bodyLeft rest n (hs_body s') (hs_reader s') \<and> steady (hs_reader s') \<and> hs_detached s' = None"
  using assms
proof (induction p arbitrary: s)
  case (Call op k)
  from callOp_usable [OF Call.prems(2), of op detect date] Call.prems(1) obtain res w
    where c: "callOp detect date op (hs_rw s) = (res, w, None)" "snd res \<noteq> Some NilDeref" "usable w" by auto
  have "calm (k res)" using Call.prems(1) by (cases res) simp
  with Call.IH [of "k res" "s\<lparr>hs_rw := w, hs_detached := hs_detached s\<rparr>"] Call.prems c show ?case by auto
next
  case (ReadBody n k)
  obtain res body r where b: "bodyRead n (hs_body s) (hs_reader s) = (res, body, r)" by (metis prod.exhaust)
  have "steady r" using b ReadBody.prems(3,4)
    by (cases "hs_body s") (auto simp: bodyLeft_def split: if_splits prod.splits dest: bufRead_steady)
  moreover have "calm (k res)" using ReadBody.prems(1) by (cases res) simp
  ultimately show ?case
    using ReadBody.IH [of "k res" "s\<lparr>hs_body := body, hs_reader := r\<rparr>"] ReadBody.prems b bodyLeft_read [OF ReadBody.prems(3) b]
    by auto
qed auto


section \<open>The contract of \<^verbatim>\<open>handleRequest\<close>\<close>

text \<open>
  What the loop needs of \<^verbatim>\<open>handleRequest\<close>: whenever a request can be read, the handler is given it, the
  rest of its body is all that is left in front of the next request, the connection stays, and
  \<open>resp req\<close> is added to the output; \<open>good\<close> is what holds of the writer and of the pool between
  requests when \<open>out\<close> has been written.
\<close>

definition handles ::
    "Engine \<Rightarrow> netEnv \<Rightarrow> (writer \<Rightarrow> ResponseWriter list \<Rightarrow> bytes \<Rightarrow> bool) \<Rightarrow> (ServerRequest \<Rightarrow> bytes) \<Rightarrow> bool" where
  "handles e env good resp \<longleftrightarrow>
     (\<forall>ctx x req r rest n out.
        good (ex_writer x) (ex_rws x) out \<longrightarrow>
        GetRequest (np_parseURI env) (np_addr env) ctx (ex_reader x) = (Inr req, r) \<longrightarrow>
        bodyLeft rest n (openBody (req_Body req)) r \<longrightarrow> steady r \<longrightarrow>
        (\<exists>body x'. handleRequest e env ctx x = (Inr (withTimeout e env req, body, False), x') \<and>
           bodyLeft rest n body (ex_reader x') \<and> steady (ex_reader x') \<and>
           good (ex_writer x') (ex_rws x') (out @ resp (withTimeout e env req)) \<and>
           ex_served x' = ex_served x @ [withTimeout e env req]))"

lemma withTimeout_Body [simp]: "req_Body (withTimeout e env req) = req_Body req"
  by (simp add: withTimeout_def)

lemma NewResponseWriter_usable:
  assumes "NewResponseWriter ctx (Some bw) i pool = (w, pool')" "soundWriter bw"
  shows "usable w"
  using assms by (auto simp: NewResponseWriter_def initResponseWriter_def usable_def ready_def split: prod.splits)

lemma usable_writerAfter:
  "usable w \<Longrightarrow> soundWriter (writerAfter bw s w)"
  by (auto simp: usable_def ready_def writerAfter_def split: option.splits)

lemma handleRequest_ok:
  assumes "GetRequest (np_parseURI env) (np_addr env) ctx (ex_reader x) = (Inr req, r)"
    and "NewResponseWriter ctx (Some (ex_writer x)) (np_pick env) (ex_rws x) = (w, rws)"
    and "runHandler (np_detect env) (np_date env) (e_Handler e (withTimeout e env req))
      \<lparr>hs_rw = w, hs_body = openBody (req_Body req), hs_reader = r, hs_handlers = ex_handlers x, hs_detached = None\<rparr> =
      (False, s)"
    and "EndResponse (np_date env) (hs_rw s) = (None, w')" "\<not> rw_hijacked w'"
  shows "handleRequest e env ctx x =
    (Inr (withTimeout e env req, hs_body s, False),
     \<lparr>ex_reader = hs_reader s, ex_writer = writerAfter (ex_writer x) s w', ex_handlers = hs_handlers s,
      ex_rws = rw_Release w' rws, ex_served = ex_served x @ [withTimeout e env req]\<rparr>)"
  using assms by (simp add: handleRequest_def Let_def Hijacked_def)

lemma handles_calm:
  assumes "\<And>req. calm (e_Handler e req)"
  shows "handles e env (\<lambda>w rws out. soundWriter w) (\<lambda>_. [])"
  unfolding handles_def
proof (intro allI impI)
  fix ctx req r rest n and x :: exchange
  assume a: "soundWriter (ex_writer x)" "GetRequest (np_parseURI env) (np_addr env) ctx (ex_reader x) = (Inr req, r)"
    "bodyLeft rest n (openBody (req_Body req)) r" "steady r"
  obtain w rws where w: "NewResponseWriter ctx (Some (ex_writer x)) (np_pick env) (ex_rws x) = (w, rws)" by force
  let ?req = "withTimeout e env req"
  let ?s = "\<lparr>hs_rw = w, hs_body = openBody (req_Body ?req), hs_reader = r, hs_handlers = ex_handlers x, hs_detached = None\<rparr>"
  have "calm (e_Handler e ?req)" "usable (hs_rw ?s)" "bodyLeft rest n (hs_body ?s) (hs_reader ?s)" "steady (hs_reader ?s)"
    "hs_detached ?s = None" using assms NewResponseWriter_usable [OF w a(1)] a(3,4) by simp_all
  from runHandler_calm [OF this] obtain s' where
    s': "runHandler (np_detect env) (np_date env) (e_Handler e ?req) ?s = (False, s')" "usable (hs_rw s')"
    "bodyLeft rest n (hs_body s') (hs_reader s')" "steady (hs_reader s')" by metis
  obtain w' where w': "EndResponse (np_date env) (hs_rw s') = (None, w')" "usable w'"
    using EndResponse_usable [OF s'(2)] by metis
  have "\<not> rw_hijacked w'" using w'(2) by (simp add: usable_def)
  from handleRequest_ok [OF a(2) w s'(1) [simplified] w'(1) this] s' usable_writerAfter [OF w'(2)]
  show "\<exists>body x'. handleRequest e env ctx x = (Inr (?req, body, False), x') \<and>
           bodyLeft rest n body (ex_reader x') \<and> steady (ex_reader x') \<and>
           soundWriter (ex_writer x') \<and> ex_served x' = ex_served x @ [?req]"
    by simp
qed

section \<open>Sequences of requests\<close>

text \<open>A request as a client prints it, and the conditions under which the server keeps the connection.\<close>

record wireRequest =
  wq_line :: requestLine
  wq_headers :: "headerLine list"
  wq_body :: bytes

definition printRequest :: "wireRequest \<Rightarrow> bytes" where
  "printRequest q = renderRequest (wq_line q) (wq_headers q) (wq_body q)"

definition wireMeta :: "wireRequest \<Rightarrow> messageMeta option" where
  "wireMeta q = applyMetas (newMeta REQUEST 0) (wq_headers q)"

definition plainRequest :: "wireRequest \<Rightarrow> Request" where
  "plainRequest q = expectedRequest (wq_line q) (wq_headers q) (the (wireMeta q))"

definition persistent :: "Engine \<Rightarrow> wireRequest \<Rightarrow> bool" where
  "persistent e q \<longleftrightarrow>
     requestLine_ok (wq_line q) \<and> plainTarget (rl_Target (wq_line q)) \<and> list_all header_ok (wq_headers q) \<and>
     length (renderRequestLine (wq_line q)) \<le> 4096 \<and>
     list_all (\<lambda>h. length (renderHeader h) \<le> 4096) (wq_headers q) \<and>
     (case wireMeta q of
        None \<Rightarrow> False
      | Some meta \<Rightarrow> \<not> m_hasTransferEncoding meta \<and> sint (m_contentLength meta) = int (length (wq_body q))) \<and>
     int (length (wq_body q)) \<le> e_maxDrainSize e \<and>
     \<not> req_Close (plainRequest q) \<and> headerGet (req_Header (plainRequest q)) connectionKey \<noteq> str ''close''"

text \<open>The request the handler is given: with its address, its context and its timeout.\<close>

definition seenRequest :: "Engine \<Rightarrow> netEnv \<Rightarrow> bytes \<Rightarrow> wireRequest \<Rightarrow> ServerRequest" where
  "seenRequest e env addr q =
     withTimeout e env
       (serverRequest (plainRequest q)
          (if addr \<noteq> [] then addr else case np_addr env of Some a \<Rightarrow> a | None \<Rightarrow> []) (np_ctx env) None)"


text \<open>Reading one request off the connection.\<close>

lemma wireMeta_bound:
  "wireMeta q = Some meta \<Longrightarrow> \<not> m_hasTransferEncoding meta \<Longrightarrow>
     sint (m_contentLength meta) = int (length (wq_body q)) \<Longrightarrow>
     req_Body (plainRequest q) = (if wq_body q = [] then NoBody else LimitedBody (int (length (wq_body q)))) \<and>
     req_ContentLength (plainRequest q) = int (length (wq_body q)) \<and> req_TransferEncoding (plainRequest q) = []"
  by (simp add: plainRequest_def expectedRequest_def)

lemma serverRequest_fields [simp]:
  "req_Body (serverRequest req a c t) = req_Body req" "req_Close (serverRequest req a c t) = req_Close req"
  "req_Header (serverRequest req a c t) = req_Header req"
  "req_ContentLength (serverRequest req a c t) = req_ContentLength req"
  "req_TransferEncoding (serverRequest req a c t) = req_TransferEncoding req"
  by (simp_all add: serverRequest_def Request.extend_def)

lemma withTimeout_fields [simp]:
  "req_Close (withTimeout e env req) = req_Close req" "req_Header (withTimeout e env req) = req_Header req"
  "req_ContentLength (withTimeout e env req) = req_ContentLength req"
  "req_TransferEncoding (withTimeout e env req) = req_TransferEncoding req"
  by (simp_all add: withTimeout_def)

lemma persistentE:
  assumes "persistent e q"
  obtains meta where "wireMeta q = Some meta" "\<not> m_hasTransferEncoding meta"
    "sint (m_contentLength meta) = int (length (wq_body q))"
  using assms by (auto simp: persistent_def split: option.splits)

lemma GetRequest_persistent:
  assumes "persistent e q" "unread r = printRequest q @ rest" "steady r"
    and "ctx_Req ctx = Some c" "RemoteAddrString ctx = addr"
  shows "\<exists>r'. GetRequest parseURI connAddr ctx r =
      (Inr (serverRequest (plainRequest q) (if addr \<noteq> [] then addr else case connAddr of Some a \<Rightarrow> a | None \<Rightarrow> []) c None), r') \<and>
    bodyLeft rest (int (length (wq_body q))) (openBody (req_Body (plainRequest q))) r' \<and> steady r'"
proof -
  obtain meta where m: "wireMeta q = Some meta" "\<not> m_hasTransferEncoding meta"
    "sint (m_contentLength meta) = int (length (wq_body q))" by (rule persistentE [OF assms(1)])
  have u: "unread r = renderRequest (wq_line q) (wq_headers q) (wq_body q @ rest)"
    using assms(2) by (simp add: printRequest_def renderRequest_def)
  obtain res r' where rr: "ReadRequest parseURI r = (res, r')" by force
  have "fst (ReadRequest parseURI r) = Inr (expectedRequest (wq_line q) (wq_headers q) meta) \<and>
      unread (snd (ReadRequest parseURI r)) = wq_body q @ rest"
    by (rule ReadRequest_reads) (use assms(1) m(1) u in \<open>auto simp: persistent_def wireMeta_def\<close>)
  with rr m(1) have "res = Inr (plainRequest q)" "unread r' = wq_body q @ rest"
    by (simp_all add: plainRequest_def)
  moreover have "steady r'" using ReadRequest_steady [OF assms(3), of parseURI] rr by simp
  ultimately show ?thesis
    using rr assms(4,5) wireMeta_bound [OF m] by (auto simp: GetRequest_def bodyLeft_def)
qed

text \<open>The marker the loop waits for is in every printed request.\<close>

lemma containsBytes_append: "containsBytes sep (a @ sep @ b)"
proof (induction a)
  case Nil
  show ?case
  proof (cases "sep @ b")
    case (Cons c cs)
    then show ?thesis by (metis append_Nil append_eq_conv_conj containsBytes.simps(2))
  qed simp
qed simp

lemma printRequest_marker: "containsBytes headerEndMarker (printRequest q @ rest)"
proof -
  obtain a b where "printRequest q @ rest = a @ headerEndMarker @ b"
  proof (cases "wq_headers q" rule: rev_cases)
    case Nil
    then show thesis
      by (intro that [of "renderRequestLine (wq_line q)" "wq_body q @ rest"])
        (simp add: printRequest_def renderRequest_def headerBlock_def headerEndMarker_def)
  next
    case (snoc hs h)
    then show thesis
      by (intro that [of "renderRequestLine (wq_line q) @ CRLF @ concat (map (\<lambda>l. l @ CRLF) (map renderHeader hs)) @ renderHeader h"
            "wq_body q @ rest"])
        (simp add: printRequest_def renderRequest_def headerBlock_def headerEndMarker_def)
  qed
  then show ?thesis by (simp add: containsBytes_append)
qed

lemma printRequest_not_Nil [simp]: "printRequest q \<noteq> []" "[] \<noteq> printRequest q"
  using printRequest_marker [of q "[]"] by (auto simp: headerEndMarker_def)

lemma notReady_marked:
  "np_arrived env r = Some (concat (rd_src r)) \<Longrightarrow> unread r = printRequest q @ rest \<Longrightarrow> notReady env r = None"
  using printRequest_marker [of q rest]
  by (cases "printRequest q @ rest")
    (auto simp del: concat_eq_Nil_conv append_is_Nil_conv simp: notReady_def unread_def headerEndMarker_def)


section \<open>The loop\<close>

text \<open>
  The state between two requests: reader and writer attached, \<open>rest\<close> still to be read, \<open>out\<close>
  written.
\<close>

definition between ::
    "(writer \<Rightarrow> ResponseWriter list \<Rightarrow> bytes \<Rightarrow> bool) \<Rightarrow> bytes \<Rightarrow> bytes \<Rightarrow> world \<Rightarrow> bool" where
  "between good out rest y \<longleftrightarrow>
     (\<exists>r w. cs_Reader (wd_state y) = Some r \<and> cs_Writer (wd_state y) = Some w \<and> good w (wd_rws y) out \<and>
        steady r \<and> unread r = rest) \<and> \<not> wd_closed y"

text \<open>The state when the call has returned: all that was not served is still on the connection.\<close>

definition handedBack ::
    "(writer \<Rightarrow> ResponseWriter list \<Rightarrow> bytes \<Rightarrow> bool) \<Rightarrow> bytes \<Rightarrow> bytes \<Rightarrow> world \<Rightarrow> bool" where
  "handedBack good out rest y \<longleftrightarrow>
     cs_Reader (wd_state y) = None \<and> cs_Writer (wd_state y) = None \<and> \<not> cs_Processing (wd_state y) \<and>
     \<not> wd_closed y \<and> concat (wd_src y) = rest \<and> (\<exists>w. good w (wd_rws y) out \<and> wd_sent y = wr_sent w)"

lemma detachIO_fields [simp]:
  "wd_rws (detachIO y) = wd_rws y" "wd_closed (detachIO y) = wd_closed y" "wd_served (detachIO y) = wd_served y"
  by (auto simp: detachIO_def Let_def split: option.split prod.split)

lemma detachIO_attached:
  assumes "cs_Reader (wd_state y) = Some r" "cs_Writer (wd_state y) = Some w"
  shows "wd_state (detachIO y) = (wd_state y)\<lparr>cs_Reader := None, cs_Writer := None\<rparr>"
    "wd_src (detachIO y) = rd_src r" "wd_sent (detachIO y) = wr_sent w"
  using assms releasePooledIO_eq [of "wd_state y" "wd_pools y"] by (auto simp: detachIO_def)

lemma setProcessing_fields [simp]:
  "wd_rws (setProcessing b y) = wd_rws y" "wd_closed (setProcessing b y) = wd_closed y"
  "wd_served (setProcessing b y) = wd_served y" "wd_src (setProcessing b y) = wd_src y"
  "wd_sent (setProcessing b y) = wd_sent y" "wd_room (setProcessing b y) = wd_room y" "wd_state (setProcessing b y) = (wd_state y)\<lparr>cs_Processing := b\<rparr>"
  by (simp_all add: setProcessing_def)

lemma handedBack_detach:
  assumes "cs_Reader (wd_state y) = Some r" "cs_Writer (wd_state y) = Some w" "rd_buf r = []" "unread r = rest"
    and "good w (wd_rws y) out" "\<not> wd_closed y"
  shows "handedBack good out rest (giveBack y)"
    "\<not> cs_Processing (wd_state y) \<Longrightarrow> handedBack good out rest (detachIO y)"
  using assms by (auto simp: handedBack_def giveBack_def detachIO_attached [OF assms(1,2)] unread_def)

lemma between_attached:
  assumes "cs_Reader (wd_state y) = Some r" "cs_Writer (wd_state y) = Some w" "good w (wd_rws y) out" "steady r"
    "unread r = rest" "\<not> wd_closed y"
  shows "between good out rest y"
  using assms by (auto simp: between_def)

text \<open>The drain leaves the next request in front.\<close>

lemma drainRequest_persistent:
  assumes "persistent e q" "bodyLeft rest (int (length (wq_body q))) body r" "steady r" "req = withTimeout e env (serverRequest (plainRequest q) a c t)"
    and "0 \<le> e_maxDrainSize e" "e_maxDrainSize e < 2 ^ 63 - 1"
  shows "\<exists>r'. drainRequest e req body r = (False, r') \<and> unread r' = rest \<and> steady r'"
proof -
  obtain meta where m: "wireMeta q = Some meta" "\<not> m_hasTransferEncoding meta"
    "sint (m_contentLength meta) = int (length (wq_body q))" by (rule persistentE [OF assms(1)])
  have fields: "req_ContentLength req = int (length (wq_body q))" "req_TransferEncoding req = []" "\<not> req_Close req"
    using wireMeta_bound [OF m] assms(1,4) by (simp_all add: persistent_def)
  have w: "wrap64 (e_maxDrainSize e + 1) = e_maxDrainSize e + 1"
    using assms(5,6) by (intro wrap64_small) simp_all
  show ?thesis
  proof (cases body)
    case (BodyLimited k)
    with assms(1,2) have "0 < int (length (wq_body q))" "k < e_maxDrainSize e + 1" "k \<le> e_maxDrainSize e"
      by (auto simp: bodyLeft_def persistent_def)
    with drainBody_limited [OF assms(2) [unfolded BodyLimited] _ assms(3), of "e_maxDrainSize e + 1"] BodyLimited fields w
    show ?thesis by (auto simp: drainRequest_def)
  qed (use assms(2,3) fields in \<open>auto simp: bodyLeft_def drainRequest_def\<close>)
qed


text \<open>What the laws of \<^verbatim>\<open>netpoll\<close> are relied on for: the connection is active, and what it says has arrived is there.\<close>

definition netpollLaws :: "netEnv \<Rightarrow> bool" where
  "netpollLaws env \<longleftrightarrow>
     (\<forall>r. np_active env r \<and> (\<exists>b. np_arrived env r = Some b \<and> prefix b (concat (rd_src r))))"

lemma serveRequest_persistent:
  assumes "handles e env good resp" "persistent e q" "0 \<le> e_maxDrainSize e" "e_maxDrainSize e < 2 ^ 63 - 1"
    and "cs_Writer (wd_state y) = Some w" "good w (wd_rws y) out" "steady r" "unread r = printRequest q @ rest"
    and "\<not> wd_closed y" "netpollLaws env"
  defines "req \<equiv> seenRequest e env (cs_RemoteAddr (wd_state y)) q"
  shows "\<exists>y'. wd_served y' = wd_served y @ [req] \<and> cs_RemoteAddr (wd_state y') = cs_RemoteAddr (wd_state y) \<and>
     (serveRequest e env r w y = GoOn y' \<and> between good (out @ resp req) rest y' \<or>
      serveRequest e env r w y = Stop Idle y' \<and> handedBack good (out @ resp req) rest y' \<and>
        (\<exists>r'. np_arrived env r' = Some [] \<and> concat (rd_src r') = rest))"
proof -
  let ?s = "wd_state y"
  obtain ctx0 ctxs where ctx0: "NewRequestContext (Some (np_conn env)) (Some (np_ctx env)) (Some (np_reader env))
      (Some (np_writer env)) (np_pick env) (wd_ctxs y) = (ctx0, ctxs)" by force
  let ?ctx = "SetOnSetReadHandler (Some (\<lambda>h handlers. handlers(np_conn env := Some h)))
      (SetRemoteAddrString (cs_RemoteAddr ?s) ctx0)"
  let ?x = "\<lparr>ex_reader = r, ex_writer = w, ex_handlers = (\<lambda>_. None)(np_conn env := cs_ReadHandler ?s),
      ex_rws = wd_rws y, ex_served = wd_served y\<rparr>"
  have ctx: "ctx_Req ?ctx = Some (np_ctx env)" "RemoteAddrString ?ctx = cs_RemoteAddr ?s"
    using ctx0 by (auto simp: NewRequestContext_def SetOnSetReadHandler_def SetRemoteAddrString_def ctx_Req_def
        RemoteAddrString_def split: prod.splits)
  let ?q = "serverRequest (plainRequest q)
      (if cs_RemoteAddr ?s \<noteq> [] then cs_RemoteAddr ?s else case np_addr env of Some a \<Rightarrow> a | None \<Rightarrow> []) (np_ctx env) None"
  have req: "req = withTimeout e env ?q" by (simp add: req_def seenRequest_def)
  obtain r1 where r1: "GetRequest (np_parseURI env) (np_addr env) ?ctx (ex_reader ?x) = (Inr ?q, r1)"
    "bodyLeft rest (int (length (wq_body q))) (openBody (req_Body ?q)) r1" "steady r1"
    using GetRequest_persistent [OF assms(2,8,7) ctx] by fastforce
  from assms(1) [unfolded handles_def, rule_format, of ?x out ?ctx ?q r1 rest "int (length (wq_body q))"] assms(6) r1
  obtain body x' where x': "handleRequest e env ?ctx ?x = (Inr (req, body, False), x')"
    "bodyLeft rest (int (length (wq_body q))) body (ex_reader x')" "steady (ex_reader x')"
    "good (ex_writer x') (ex_rws x') (out @ resp req)" "ex_served x' = wd_served y @ [req]"
    by (auto simp: req)
  obtain r2 where r2: "drainRequest e req body (ex_reader x') = (False, r2)" "unread r2 = rest" "steady r2"
    using drainRequest_persistent [OF assms(2) x'(2,3) req assms(3,4)] by blast
  have hdr: "headerGet (req_Header req) connectionKey \<noteq> str ''close''"
    using assms(2) by (simp add: persistent_def req)
  let ?y = "y\<lparr>wd_ctxs := ctx_Release ?ctx ctxs, wd_rws := ex_rws x', wd_served := ex_served x',
      wd_state := ?s\<lparr>cs_Writer := Some (ex_writer x'), cs_ReadHandler := ex_handlers x' (np_conn env),
        cs_Reader := Some r2\<rparr>\<rparr>"
  obtain b where b: "np_arrived env r2 = Some b" using assms(10) by (auto simp: netpollLaws_def)
  have iter: "serveRequest e env r w y =
      (if rd_buf r2 \<noteq> [] then GoOn ?y
       else if b \<noteq> [] then GoOn (setProcessing True (setProcessing False ?y))
       else Stop Idle (detachIO (setProcessing False ?y)))"
    using ctx0 x'(1) r2(1) hdr b by (simp add: serveRequest_def afterRequest_def Let_def)
  show ?thesis
  proof (cases "rd_buf r2 = [] \<and> b = []")
    case True
    have "handedBack good (out @ resp req) rest (detachIO (setProcessing False ?y))"
      by (rule handedBack_detach(2)) (use True r2(2) x'(4) assms(9) in auto)
    with iter True x'(5) b r2(2) show ?thesis
      by (intro exI [of _ "detachIO (setProcessing False ?y)"])
        (auto simp: detachIO_attached unread_def)
  next
    case False
    have "between good (out @ resp req) rest (if rd_buf r2 \<noteq> [] then ?y else setProcessing True (setProcessing False ?y))"
      by (rule between_attached) (use r2(2,3) x'(4) assms(9) in auto)
    with iter False x'(5) show ?thesis
      by (intro exI [of _ "if rd_buf r2 \<noteq> [] then ?y else setProcessing True (setProcessing False ?y)"]) auto
  qed
qed


text \<open>The whole call: a number of requests served, the others still on the connection.\<close>

definition servedSome ::
    "Engine \<Rightarrow> netEnv \<Rightarrow> (writer \<Rightarrow> ResponseWriter list \<Rightarrow> bytes \<Rightarrow> bool) \<Rightarrow> (ServerRequest \<Rightarrow> bytes) \<Rightarrow>
     bytes \<Rightarrow> world \<Rightarrow> wireRequest list \<Rightarrow> nat \<Rightarrow> bool" where
  "servedSome e env good resp out y qs k \<longleftrightarrow>
     (let seen = map (seenRequest e env (cs_RemoteAddr (wd_state y))) (take k qs)
      in k \<le> length qs \<and>
         (\<exists>o' y'. serveHTTP e env y = (o', y') \<and> o' \<in> {NoData, HeadMissing, Idle} \<and>
            wd_served y' = wd_served y @ seen \<and>
            handedBack good (out @ concat (map resp seen)) (concat (map printRequest (drop k qs))) y') \<and>
         ((\<forall>r. np_arrived env r = Some (concat (rd_src r))) \<longrightarrow> k = length qs))"

lemma servedSome_stop:
  assumes "serveIter e env y = Stop out' y'" "out' \<in> {NoData, HeadMissing, Idle}" "wd_served y' = wd_served y"
    and "handedBack good out (concat (map printRequest qs)) y'"
    and "(\<forall>r. np_arrived env r = Some (concat (rd_src r))) \<longrightarrow> qs = []"
  shows "servedSome e env good resp out y qs 0"
  using assms by (auto simp: servedSome_def serveHTTP.simps [of e env y])

lemma servedSome_more:
  assumes "serveIter e env y = GoOn y'" "wd_served y' = wd_served y @ [req]"
    and "cs_RemoteAddr (wd_state y') = cs_RemoteAddr (wd_state y)"
    and "req = seenRequest e env (cs_RemoteAddr (wd_state y)) q"
    and "servedSome e env good resp (out @ resp req) y' qs k"
  shows "servedSome e env good resp out y (q # qs) (Suc k)"
  using assms by (auto simp: servedSome_def serveHTTP.simps [of e env y] Let_def)

lemma serveHTTP_sequence:
  assumes "handles e env good resp" "0 \<le> e_maxDrainSize e" "e_maxDrainSize e < 2 ^ 63 - 1" "netpollLaws env"
  shows "between good out (concat (map printRequest qs)) y \<Longrightarrow> list_all (persistent e) qs \<Longrightarrow>
    \<exists>k. servedSome e env good resp out y qs k"
proof (induction qs arbitrary: y out)
  case Nil
  then obtain r w where y: "cs_Reader (wd_state y) = Some r" "cs_Writer (wd_state y) = Some w" "good w (wd_rws y) out"
    "unread r = []" "\<not> wd_closed y" by (auto simp: between_def)
  have "np_active env r" "np_arrived env r = Some []" "rd_buf r = []"
    using assms(4) y(4) by (auto simp: netpollLaws_def unread_def) (metis append_is_Nil_conv concat_eq_Nil_conv prefix_bot.extremum_uniqueI)
  with y have "serveIter e env y = Stop NoData (giveBack y)" by (simp add: serveIter_def notReady_def)
  moreover have "handedBack good out [] (giveBack y)"
    by (rule handedBack_detach(1)) (use y \<open>rd_buf r = []\<close> in auto)
  ultimately show ?case by (intro exI [of _ 0] servedSome_stop) (auto simp: giveBack_def)
next
  case (Cons q qs)
  then obtain r w where y: "cs_Reader (wd_state y) = Some r" "cs_Writer (wd_state y) = Some w" "good w (wd_rws y) out"
    "steady r" "unread r = printRequest q @ concat (map printRequest qs)" "\<not> wd_closed y"
    by (auto simp: between_def)
  have act: "np_active env r" using assms(4) by (simp add: netpollLaws_def)
  have p: "persistent e q" "list_all (persistent e) qs" using Cons.prems(2) by simp_all
  show ?case
  proof (cases "notReady env r")
    case (Some o')
    then have "rd_buf r = []" "o' \<in> {NoData, HeadMissing}"
      by (auto simp: notReady_def split: if_splits option.splits)
    moreover from Some y act have "serveIter e env y = Stop o' (giveBack y)" by (simp add: serveIter_def)
    moreover have "handedBack good out (concat (map printRequest (q # qs))) (giveBack y)"
      by (rule handedBack_detach(1)) (use y \<open>rd_buf r = []\<close> in auto)
    moreover have "\<not> (\<forall>r. np_arrived env r = Some (concat (rd_src r)))"
      using notReady_marked [OF _ y(5), of env] Some by auto
    ultimately show ?thesis
      by (intro exI [of _ 0] servedSome_stop) (auto simp: giveBack_def)
  next
    case None
    let ?req = "seenRequest e env (cs_RemoteAddr (wd_state y)) q"
    from None y act have iter: "serveIter e env y = serveRequest e env r w y" by (simp add: serveIter_def)
    from serveRequest_persistent [OF assms(1) p(1) assms(2,3) y(2,3,4,5,6) assms(4)] obtain y' where
      y': "wd_served y' = wd_served y @ [?req]" "cs_RemoteAddr (wd_state y') = cs_RemoteAddr (wd_state y)"
      "serveIter e env y = GoOn y' \<and> between good (out @ resp ?req) (concat (map printRequest qs)) y' \<or>
       serveIter e env y = Stop Idle y' \<and> handedBack good (out @ resp ?req) (concat (map printRequest qs)) y' \<and>
         (\<exists>r'. np_arrived env r' = Some [] \<and> concat (rd_src r') = concat (map printRequest qs))"
      unfolding iter by blast
    from y'(3) show ?thesis
    proof (elim disjE conjE exE)
      assume go: "serveIter e env y = GoOn y'" "between good (out @ resp ?req) (concat (map printRequest qs)) y'"
      from Cons.IH [OF go(2) p(2)] obtain k where "servedSome e env good resp (out @ resp ?req) y' qs k" by blast
      from servedSome_more [OF go(1) y'(1,2) refl this] show ?thesis by blast
    next
      fix r' assume stop: "serveIter e env y = Stop Idle y'"
        "handedBack good (out @ resp ?req) (concat (map printRequest qs)) y'"
        "np_arrived env r' = Some []" "concat (rd_src r') = concat (map printRequest qs)"
      have "(\<forall>r. np_arrived env r = Some (concat (rd_src r))) \<longrightarrow> qs = []"
      proof
        assume "\<forall>r. np_arrived env r = Some (concat (rd_src r))"
        with stop(3,4) have "concat (map printRequest qs) = []" by (metis option.inject)
        then show "qs = []" by (cases qs) auto
      qed
      with stop y'(1) have "servedSome e env good resp out y (q # qs) 1"
        by (auto simp: servedSome_def serveHTTP.simps [of e env y])
      then show ?thesis by blast
    qed
  qed
qed


section \<open>Handlers that answer\<close>

text \<open>A handler that sets headers and a status and writes a body in pieces.\<close>

fun writeProg :: "bytes list \<Rightarrow> handlerProg" where
  "writeProg [] = Return"
| "writeProg (p # ps) = Call (OpWrite p) (\<lambda>_. writeProg ps)"

definition answerProg :: "headerMap \<times> int \<times> bytes list \<Rightarrow> handlerProg" where
  "answerProg a =
     (case a of (h, code, ps) \<Rightarrow> Call (OpHeader h) (\<lambda>_. Call (OpWriteHeader code) (\<lambda>_. writeProg ps)))"

lemma runHandler_writeProg:
  "writeAll detect date ps (hs_rw s) = Some w \<Longrightarrow>
     \<exists>s'. runHandler detect date (writeProg ps) s = (False, s') \<and> hs_rw s' = w \<and> hs_body s' = hs_body s \<and>
       hs_reader s' = hs_reader s"
proof (induction ps arbitrary: s)
  case (Cons p ps)
  then obtain w1 where w1: "rw_Write detect date p (hs_rw s) = ((length p, None), w1)" "writeAll detect date ps w1 = Some w"
    by (auto split: prod.splits option.splits if_splits)
  with Cons.IH [of "s\<lparr>hs_rw := w1, hs_detached := hs_detached s\<rparr>"] show ?case by auto
qed auto

lemma writeAll_usable: "usable w \<Longrightarrow> writeAll detect date ps w = Some w' \<Longrightarrow> usable w'"
proof (induction ps arbitrary: w)
  case (Cons p ps)
  with Write_usable [OF Cons.prems(1), of detect date p] show ?case by (auto split: if_splits)
qed simp

lemma EndResponse_flushed:
  assumes "EndResponse date w = (None, w')" "\<not> rw_hijacked w" "rw_bufWriter w' = Some bw"
  shows "wr_buf bw = []"
proof -
  obtain w1 where "flushBuffer w1 = (None, w')"
    using assms(1,2) by (auto simp: EndResponse_def Let_def split: prod.splits option.splits if_splits)
  with assms(3) obtain bw1 where "flushWriter bw1 = (None, bw)"
    by (auto simp: flushBuffer_def split: option.splits prod.splits)
  with flushWriter_cases [of bw1] show ?thesis by auto
qed

lemma handles_answers:
  assumes "\<And>req. e_Handler e req = answerProg (answer req)" "\<And>req. unframed (fst (answer req))"
    and "\<And>x. np_detect env x \<noteq> []"
  shows "handles e env
     (\<lambda>w rws out. soundWriter w \<and> wr_buf w = [] \<and> wr_sent w = out \<and> list_all (\<lambda>w. w = zeroResponseWriter) rws)
     (\<lambda>req. case answer req of (h, code, ps) \<Rightarrow>
        responseBytes (np_detect env) (np_date env) h code (filter (\<lambda>p. p \<noteq> []) ps))"
  unfolding handles_def
proof (intro allI impI)
  fix ctx req r rest n out and x :: exchange
  assume good: "soundWriter (ex_writer x) \<and> wr_buf (ex_writer x) = [] \<and> wr_sent (ex_writer x) = out \<and>
      list_all (\<lambda>w. w = zeroResponseWriter) (ex_rws x)"
    and get: "GetRequest (np_parseURI env) (np_addr env) ctx (ex_reader x) = (Inr req, r)"
    and body: "bodyLeft rest n (openBody (req_Body req)) r" "steady r"
  let ?req = "withTimeout e env req"
  obtain h code ps where ans: "answer ?req = (h, code, ps)" by (metis prod.exhaust)
  obtain w rws where w: "NewResponseWriter ctx (Some (ex_writer x)) (np_pick env) (ex_rws x) = (w, rws)" by force
  then have w0: "w = initResponseWriter (ctx, Some (ex_writer x)) zeroResponseWriter" "list_all (\<lambda>w. w = zeroResponseWriter) rws"
    using rwPool.fresh [of "ex_rws x" "(ctx, Some (ex_writer x))" "np_pick env"] rwPool.get_rest [of "ex_rws x" "np_pick env"] good
    by (auto simp: NewResponseWriter_def split: prod.splits)
  have fresh: "ready w" "\<not> rw_hijacked w" "\<not> rw_headerSent w" "rw_trailer w = []" "rw_pending w = []" "wire w = out"
    using good by (simp_all add: w0(1) initResponseWriter_def zeroResponseWriter_def ready_def wire_def stream_def)
  have "unframed h" using assms(2) [of ?req] by (simp add: ans)
  from respond_bytes [where detect = "np_detect env" and date = "np_date env" and code = code and ps = ps, OF fresh(1-5) this assms(3)]
  obtain w1 w2 bw where
    w1: "writeAll (np_detect env) (np_date env) ps (WriteHeader code (w\<lparr>rw_header := h\<rparr>)) = Some w1"
    and w2: "EndResponse (np_date env) w1 = (None, w2)" "rw_bufWriter w2 = Some bw"
    and sent: "wr_sent bw = out @ responseBytes (np_detect env) (np_date env) h code (filter (\<lambda>p. p \<noteq> []) ps)"
    by (auto simp: respond_def fresh(6))
  let ?s = "\<lparr>hs_rw = w, hs_body = openBody (req_Body req), hs_reader = r, hs_handlers = ex_handlers x, hs_detached = None\<rparr>"
  from runHandler_writeProg [of "np_detect env" "np_date env" ps
      "?s\<lparr>hs_rw := WriteHeader code (w\<lparr>rw_header := h\<rparr>)\<rparr>" w1] w1 obtain s' where
    s': "runHandler (np_detect env) (np_date env) (e_Handler e ?req) ?s = (False, s')" "hs_rw s' = w1"
      "hs_body s' = openBody (req_Body req)" "hs_reader s' = r"
    by (auto simp: assms(1) ans answerProg_def)
  have u: "usable (hs_rw s')" "usable w2"
  proof -
    have "usable w" using fresh(1,2) by (simp add: usable_def)
    then have "usable (WriteHeader code (w\<lparr>rw_header := h\<rparr>))" by (simp add: WriteHeader_def)
    with writeAll_usable w1 s'(2) show "usable (hs_rw s')" by metis
    with EndResponse_usable [of "hs_rw s'" "np_date env"] w2(1) s'(2) show "usable w2" by auto
  qed
  have sound: "soundWriter bw" "wr_buf bw = []" "\<not> rw_hijacked w2"
    using u EndResponse_flushed [OF w2(1) _ w2(2)] s'(2) w2(2) by (auto simp: usable_def ready_def)
  have "writerAfter (ex_writer x) s' w2 = bw" using w2(2) by (simp add: writerAfter_def)
  with handleRequest_ok [OF get w s'(1) w2(1) [folded s'(2)] sound(3)] sound sent body s'(3,4) ans
    rwPool.put_clean [OF w0(2), of w2]
  show "\<exists>body x'. handleRequest e env ctx x = (Inr (?req, body, False), x') \<and>
      bodyLeft rest n body (ex_reader x') \<and> steady (ex_reader x') \<and>
      (soundWriter (ex_writer x') \<and> wr_buf (ex_writer x') = [] \<and>
       wr_sent (ex_writer x') = out @ (case answer ?req of (h, code, ps) \<Rightarrow>
         responseBytes (np_detect env) (np_date env) h code (filter (\<lambda>p. p \<noteq> []) ps)) \<and>
       list_all (\<lambda>w. w = zeroResponseWriter) (ex_rws x')) \<and>
      ex_served x' = ex_served x @ [?req]"
    by (simp add: rw_Release_def)
qed

end
