(* ===== verification/Conn_Properties.thy ===== *)
theory Conn_Properties
  imports Conn_Serve
begin

text \<open>
  The properties of the engine: requests in order, whatever the handler leaves unread; bytes in
  and bytes out of a call of \<^verbatim>\<open>ServeConn\<close>; requests that cannot be read; handlers that panic; and
  two inputs for which a connection is kept or closed at the wrong place.
\<close>

section \<open>Calls of \<^verbatim>\<open>ServeConn\<close>\<close>

lemma attachIO_fields:
  "wd_src (attachIO e env y) = wd_src y" "wd_closed (attachIO e env y) = wd_closed y"
  "wd_served (attachIO e env y) = wd_served y" "wd_rws (attachIO e env y) = wd_rws y"
  "cs_ReadHandler (wd_state (attachIO e env y)) = cs_ReadHandler (wd_state y)"
  "cs_RemoteAddr (wd_state (attachIO e env y)) = cs_RemoteAddr (wd_state y)"
  by (auto simp: attachIO_def Let_def split: option.split prod.split)

lemma attachIO_fresh:
  assumes "cs_Reader (wd_state y) = None" "cs_Writer (wd_state y) = None"
  obtains r w where "cs_Reader (wd_state (attachIO e env y)) = Some r" "cs_Writer (wd_state (attachIO e env y)) = Some w"
    "rd_buf r = []" "rd_src r = wd_src y" "wr_buf w = []" "wr_err w = None" "wr_sent w = wd_sent y" "wr_room w = wd_room y"
proof -
  obtain r0 rs where r0: "poolGet (pooledReader e) (np_pick env) (readerPool (wd_pools y)) = (r0, rs)" by force
  obtain w0 ws where w0: "poolGet (pooledWriter e) (np_pick env) (writerPool (wd_pools y)) = (w0, ws)" by force
  from r0 w0 assms show thesis
    by (intro that [of "r0\<lparr>rd_buf := [], rd_src := wd_src y, rd_end := wd_end y\<rparr>"
          "w0\<lparr>wr_buf := [], wr_err := None, wr_sent := wd_sent y, wr_room := wd_room y\<rparr>"])
      (simp_all add: attachIO_def)
qed

lemma setRemoteAddr_fields [simp]:
  "wd_src (setRemoteAddr env y) = wd_src y" "wd_closed (setRemoteAddr env y) = wd_closed y"
  "wd_served (setRemoteAddr env y) = wd_served y" "wd_rws (setRemoteAddr env y) = wd_rws y"
  "cs_Reader (wd_state (setRemoteAddr env y)) = cs_Reader (wd_state y)"
  "cs_Writer (wd_state (setRemoteAddr env y)) = cs_Writer (wd_state y)"
  "cs_ReadHandler (wd_state (setRemoteAddr env y)) = cs_ReadHandler (wd_state y)"
  by (auto simp: setRemoteAddr_def split: option.split)

lemma seenRequest_setRemoteAddr:
  "seenRequest e env (cs_RemoteAddr (wd_state (setRemoteAddr env y))) q = seenRequest e env (cs_RemoteAddr (wd_state y)) q"
  by (auto simp: setRemoteAddr_def seenRequest_def split: option.split)

text \<open>The reference count is as before, and the other fields are those the loop left.\<close>

lemma releaseState_fields [simp]:
  "wd_src (releaseState y) = wd_src y" "wd_closed (releaseState y) = wd_closed y"
  "wd_served (releaseState y) = wd_served y" "wd_sent (releaseState y) = wd_sent y"
  by (auto simp: releaseState_def split: prod.split)

lemma ServeConn_serves:
  assumes "\<not> cs_Processing (wd_state y)" "cs_Reader (wd_state y) = None" "cs_Writer (wd_state y) = None"
    and "cs_ReadHandler (wd_state y) = None" "[] \<notin> set (wd_src y)" "wd_room y = None"
    and "\<not> wd_closed y" "good_rws (wd_rws y)"
    and "concat (wd_src y) = input"
  obtains y0 where "ServeConn e env True y = (None, releaseState (snd (serveHTTP e env y0)))"
    "between (\<lambda>w rws out. soundWriter w \<and> wr_buf w = [] \<and> wr_sent w = out \<and> good_rws rws) (wd_sent y) input y0"
    "wd_served y0 = wd_served y"
    "\<And>q. seenRequest e env (cs_RemoteAddr (wd_state y0)) q = seenRequest e env (cs_RemoteAddr (wd_state y)) q"
proof -
  let ?y1 = "setProcessing True (y\<lparr>wd_state := AcquireConnectionState (wd_state y)\<rparr>)"
  let ?y0 = "setRemoteAddr env (attachIO e env ?y1)"
  have n: "cs_Reader (wd_state ?y1) = None" "cs_Writer (wd_state ?y1) = None"
    using assms(2,3) by (simp_all add: AcquireConnectionState_def)
  obtain r w where rw: "cs_Reader (wd_state ?y0) = Some r" "cs_Writer (wd_state ?y0) = Some w"
    "rd_buf r = []" "rd_src r = wd_src y" "wr_buf w = []" "wr_err w = None" "wr_sent w = wd_sent y" "wr_room w = wd_room y"
    by (rule attachIO_fresh [OF n, of e env]) simp
  have "ServeConn e env True y = (None, releaseState (snd (serveHTTP e env ?y0)))"
    using assms(1,4) by (simp add: ServeConn_def Let_def attachIO_fields AcquireConnectionState_def)
  moreover have "between (\<lambda>w rws out. soundWriter w \<and> wr_buf w = [] \<and> wr_sent w = out \<and> good_rws rws) (wd_sent y) input ?y0"
    by (rule between_attached [OF rw(1,2)])
      (use rw(3-8) assms(5-9) in \<open>simp_all add: soundWriter_def steady_def unread_def attachIO_fields\<close>)
  moreover have "wd_served ?y0 = wd_served y" by (simp add: attachIO_fields)
  moreover have "seenRequest e env (cs_RemoteAddr (wd_state ?y0)) q = seenRequest e env (cs_RemoteAddr (wd_state y)) q" for q
    by (simp add: seenRequest_setRemoteAddr attachIO_fields AcquireConnectionState_def)
  ultimately show thesis by (rule that)
qed


section \<open>Requests in order\<close>

text \<open>
  C6: requests are served in order, and no body runs into the next request. Let any number of
  requests arrive, each printed with a target in origin form and with a body of the length its
  headers give, at most the drain limit, and none asking to close; let the handler do anything but
  panic or hijack, reading as much or as little of a body as it likes. However the bytes arrive, a
  call of \<^verbatim>\<open>serveHTTP\<close> gives the handler some first part of the requests, each once and in order,
  and returns at the boundary of a request with everything else still on the connection, which
  stays open; when all bytes have arrived it serves all requests.
\<close>

theorem serveHTTP_in_order:
  assumes "\<And>req. calm (e_Handler e req)" "0 \<le> e_maxDrainSize e" "e_maxDrainSize e < 2 ^ 63 - 1" "netpollLaws env"
    and "cs_Reader (wd_state y) = Some r" "cs_Writer (wd_state y) = Some w" "soundWriter w" "\<not> wd_closed y"
    and "steady r" "unread r = concat (map printRequest qs)" "list_all (persistent e) qs"
  shows "\<exists>k out y'. serveHTTP e env y = (out, y') \<and> k \<le> length qs \<and> out \<in> {NoData, HeadMissing, Idle} \<and>
     wd_served y' = wd_served y @ map (seenRequest e env (cs_RemoteAddr (wd_state y))) (take k qs) \<and>
     concat (wd_src y') = concat (map printRequest (drop k qs)) \<and> \<not> wd_closed y' \<and> \<not> cs_Processing (wd_state y') \<and>
     ((\<forall>r. np_arrived env r = Some (concat (rd_src r))) \<longrightarrow> k = length qs)"
proof -
  have "between (\<lambda>w rws out. soundWriter w) [] (concat (map printRequest qs)) y"
    by (rule between_attached) (use assms(5-10) in auto)
  from serveHTTP_sequence [OF handles_calm [OF assms(1)] assms(2-4) this assms(11)] obtain k
    where "servedSome e env (\<lambda>w rws out. soundWriter w) (\<lambda>_. []) [] y qs k" by blast
  then show ?thesis by (auto simp: servedSome_def Let_def handedBack_def intro!: exI [of _ k])
qed

text \<open>
  C2: bytes in, bytes out. When a call of \<^verbatim>\<open>ServeConn\<close> finds such requests on the connection and
  all of them have arrived, and the handler answers each request with headers, a status and a body
  in pieces, the connection receives exactly the responses, in the order of the requests, each a
  head and a body with a length or in chunks; the handler has seen exactly those requests, no
  input is left and the connection stays open.
\<close>

theorem ServeConn_end_to_end:
  assumes "\<And>req. e_Handler e req = answerProg (answer req)" "\<And>req. unframed (fst (answer req))"
    and "\<And>x. np_detect env x \<noteq> []" "0 \<le> e_maxDrainSize e" "e_maxDrainSize e < 2 ^ 63 - 1" "netpollLaws env"
    and "\<And>r. np_arrived env r = Some (concat (rd_src r))"
    and "\<not> cs_Processing (wd_state y)" "cs_Reader (wd_state y) = None" "cs_Writer (wd_state y) = None"
    and "cs_ReadHandler (wd_state y) = None" "list_all (\<lambda>w. w = zeroResponseWriter) (wd_rws y)"
    and "[] \<notin> set (wd_src y)" "wd_room y = None" "\<not> wd_closed y"
    and "concat (wd_src y) = concat (map printRequest qs)" "list_all (persistent e) qs"
  defines "seen \<equiv> map (seenRequest e env (cs_RemoteAddr (wd_state y))) qs"
  shows "\<exists>y'. ServeConn e env True y = (None, y') \<and> wd_served y' = wd_served y @ seen \<and>
     wd_sent y' = wd_sent y @ concat (map (\<lambda>req. case answer req of (h, code, ps) \<Rightarrow>
       responseBytes (np_detect env) (np_date env) h code (filter (\<lambda>p. p \<noteq> []) ps)) seen) \<and>
     concat (wd_src y') = [] \<and> \<not> wd_closed y'"
proof -
  let ?good = "\<lambda>w rws out. soundWriter w \<and> wr_buf w = [] \<and> wr_sent w = out \<and> list_all (\<lambda>w. w = zeroResponseWriter) rws"
  obtain y0 where y0: "ServeConn e env True y = (None, releaseState (snd (serveHTTP e env y0)))"
    "between ?good (wd_sent y) (concat (map printRequest qs)) y0" "wd_served y0 = wd_served y"
    "\<And>q. seenRequest e env (cs_RemoteAddr (wd_state y0)) q = seenRequest e env (cs_RemoteAddr (wd_state y)) q"
    by (rule ServeConn_serves [where good_rws = "list_all (\<lambda>w. w = zeroResponseWriter)",
          OF assms(8-11,13-15,12,16), of e env]) (rule that)
  from serveHTTP_sequence [OF handles_answers [OF assms(1-3)] assms(4-6) y0(2) assms(17)] obtain k where
    k: "servedSome e env ?good (\<lambda>req. case answer req of (h, code, ps) \<Rightarrow>
        responseBytes (np_detect env) (np_date env) h code (filter (\<lambda>p. p \<noteq> []) ps)) (wd_sent y) y0 qs k" by blast
  then have "k = length qs" using assms(7) by (simp add: servedSome_def Let_def)
  moreover have "seenRequest e env (cs_RemoteAddr (wd_state y0)) = seenRequest e env (cs_RemoteAddr (wd_state y))"
    by (rule ext) (rule y0(4))
  ultimately show ?thesis
    using k y0(1,3) by (auto simp: servedSome_def Let_def handedBack_def seen_def)
qed


section \<open>Requests that cannot be read and handlers that panic\<close>

lemma giveBack_attached:
  assumes "cs_Reader (wd_state y) = Some r" "cs_Writer (wd_state y) = Some w"
  shows "wd_served (giveBack y) = wd_served y" "wd_sent (giveBack y) = wr_sent w" "wd_closed (giveBack y) = wd_closed y"
    "wd_state (giveBack y) = (wd_state y)\<lparr>cs_Reader := None, cs_Writer := None, cs_Processing := False\<rparr>"
  using detachIO_attached [OF assms] by (simp_all add: giveBack_def)

lemma closeConn_fields [simp]:
  "wd_state (closeConn y) = wd_state y" "wd_served (closeConn y) = wd_served y" "wd_closed (closeConn y)"
  by (simp_all add: closeConn_def)

text \<open>What the loop does when \<^verbatim>\<open>handleRequest\<close> fails.\<close>

definition failedWith :: "requestError \<Rightarrow> ServerRequest list \<Rightarrow> bytes \<Rightarrow> serveOutcome \<times> world \<Rightarrow> bool" where
  "failedWith err served sent res \<longleftrightarrow>
     (case res of (out, y) \<Rightarrow>
        out = Failed err \<and> wd_served y = served \<and> wd_sent y = sent \<and> (wd_closed y \<longleftrightarrow> err \<noteq> ReqErr ErrEOF) \<and>
        cs_Reader (wd_state y) = None \<and> cs_Writer (wd_state y) = None \<and> \<not> cs_Processing (wd_state y))"

lemma serveHTTP_failed:
  assumes "cs_Reader (wd_state y) = Some r" "cs_Writer (wd_state y) = Some w" "\<not> wd_closed y" "np_active env r"
    and "notReady env r = None"
    and "\<And>ctx. RemoteAddrString ctx = cs_RemoteAddr (wd_state y) \<Longrightarrow> ctx_Req ctx = Some (np_ctx env) \<Longrightarrow>
      handleRequest e env ctx \<lparr>ex_reader = r, ex_writer = w,
        ex_handlers = (\<lambda>_. None)(np_conn env := cs_ReadHandler (wd_state y)), ex_rws = wd_rws y, ex_served = wd_served y\<rparr> =
      (Inl err, x' ctx) \<and> ex_served (x' ctx) = served \<and> wr_sent (ex_writer (x' ctx)) = sent"
  shows "failedWith err served sent (serveHTTP e env y)"
proof -
  let ?s = "wd_state y"
  obtain ctx0 ctxs where ctx0: "NewRequestContext (Some (np_conn env)) (Some (np_ctx env)) (Some (np_reader env))
      (Some (np_writer env)) (np_pick env) (wd_ctxs y) = (ctx0, ctxs)" by force
  let ?ctx = "SetOnSetReadHandler (Some (\<lambda>h handlers. handlers(np_conn env := Some h)))
      (SetRemoteAddrString (cs_RemoteAddr ?s) ctx0)"
  have ctx: "RemoteAddrString ?ctx = cs_RemoteAddr ?s" "ctx_Req ?ctx = Some (np_ctx env)"
    using ctx0 by (auto simp: NewRequestContext_def SetOnSetReadHandler_def SetRemoteAddrString_def ctx_Req_def
        RemoteAddrString_def split: prod.splits)
  let ?y = "y\<lparr>wd_state := ?s\<lparr>cs_Reader := Some (ex_reader (x' ?ctx)), cs_Writer := Some (ex_writer (x' ?ctx)),
      cs_ReadHandler := ex_handlers (x' ?ctx) (np_conn env)\<rparr>,
      wd_ctxs := ctx_Release ?ctx ctxs, wd_rws := ex_rws (x' ?ctx), wd_served := ex_served (x' ?ctx)\<rparr>"
  have "serveHTTP e env y = (Failed err, giveBack (if err \<noteq> ReqErr ErrEOF then closeConn ?y else ?y))"
    using assms(1-5) assms(6) [OF ctx] ctx0
    by (subst serveHTTP.simps) (simp add: serveIter_def serveRequest_def afterRequest_def Let_def)
  then show ?thesis
    using assms(3) assms(6) [OF ctx]
    by (simp add: failedWith_def giveBack_attached [where r = "ex_reader (x' ?ctx)" and w = "ex_writer (x' ?ctx)"])
qed


text \<open>
  C18: a request that cannot be read ends the call. The handler is not called and nothing is
  written, not even an error response; the connection is closed unless the input had ended, and
  the reader, the writer and \<^verbatim>\<open>Processing\<close> are given back.
\<close>

theorem serveHTTP_bad_request:
  assumes "cs_Reader (wd_state y) = Some r" "cs_Writer (wd_state y) = Some w" "\<not> wd_closed y" "np_active env r"
    and "notReady env r = None" "ReadRequest (np_parseURI env) r = (Inl err, r')"
  shows "failedWith (ReqErr err) (wd_served y) (wr_sent w) (serveHTTP e env y)"
  by (rule serveHTTP_failed [OF assms(1-5), where x' = "\<lambda>ctx. \<lparr>ex_reader = r', ex_writer = w,
        ex_handlers = (\<lambda>_. None)(np_conn env := cs_ReadHandler (wd_state y)), ex_rws = wd_rws y, ex_served = wd_served y\<rparr>"])
    (simp add: handleRequest_def GetRequest_def assms(6))

text \<open>A handler that answers and panics before it returns.\<close>

fun writeThenPanic :: "bytes list \<Rightarrow> handlerProg" where
  "writeThenPanic [] = Panic"
| "writeThenPanic (p # ps) = Call (OpWrite p) (\<lambda>_. writeThenPanic ps)"

lemma runHandler_writeThenPanic:
  "writeAll detect date ps (hs_rw s) = Some w \<Longrightarrow>
     \<exists>s'. runHandler detect date (writeThenPanic ps) s = (True, s') \<and> hs_rw s' = w"
proof (induction ps arbitrary: s)
  case (Cons p ps)
  then obtain w1 where w1: "rw_Write detect date p (hs_rw s) = ((length p, None), w1)" "writeAll detect date ps w1 = Some w"
    by (auto split: prod.splits option.splits if_splits)
  with Cons.IH [of "s\<lparr>hs_rw := w1, hs_detached := hs_detached s\<rparr>"] show ?case by auto
qed auto

lemma EndResponse_500:
  assumes "afterWrites detect date h code w0 ps w" "unframed h" "length ps \<le> 1"
  shows "\<not> rw_headerSent w" "\<exists>w' bw. EndResponse date (WriteHeader 500 w) = (None, w') \<and> rw_bufWriter w' = Some bw \<and>
    wr_sent bw = w0 @ responseBytes detect date h 500 ps"
proof -
  show sent: "\<not> rw_headerSent w"
    using assms(1,3) by (cases ps rule: remdups_adj.cases) (auto simp: afterWrites_def)
  have "afterWrites detect date h 500 w0 ps (WriteHeader 500 w)"
    using assms(1,3) sent
    by (cases ps rule: remdups_adj.cases) (auto simp: afterWrites_def WriteHeader_def ready_def wire_def)
  from EndResponse_afterWrites [OF this assms(2)]
  show "\<exists>w' bw. EndResponse date (WriteHeader 500 w) = (None, w') \<and> rw_bufWriter w' = Some bw \<and>
    wr_sent bw = w0 @ responseBytes detect date h 500 ps" .
qed

lemma handleRequest_panics:
  assumes "GetRequest (np_parseURI env) (np_addr env) ctx (ex_reader x) = (Inr req, r)"
    and "e_Handler e (withTimeout e env req) = Call (OpHeader h) (\<lambda>_. Call (OpWriteHeader code) (\<lambda>_. writeThenPanic ps))"
    and "soundWriter (ex_writer x)" "wr_buf (ex_writer x) = []" "list_all (\<lambda>w. w = zeroResponseWriter) (ex_rws x)"
    and "unframed h" "\<And>x. np_detect env x \<noteq> []" "length (filter (\<lambda>p. p \<noteq> []) ps) \<le> 1"
  shows "\<exists>x'. handleRequest e env ctx x = (Inl HandlerPanicked, x') \<and> ex_served x' = ex_served x @ [withTimeout e env req] \<and>
    wr_sent (ex_writer x') =
      wr_sent (ex_writer x) @ responseBytes (np_detect env) (np_date env) h 500 (filter (\<lambda>p. p \<noteq> []) ps)"
proof -
  obtain w rws where w: "NewResponseWriter ctx (Some (ex_writer x)) (np_pick env) (ex_rws x) = (w, rws)" by force
  then have "w = initResponseWriter (ctx, Some (ex_writer x)) zeroResponseWriter"
    using rwPool.fresh [of "ex_rws x" "(ctx, Some (ex_writer x))" "np_pick env"] assms(5)
    by (auto simp: NewResponseWriter_def split: prod.splits)
  then have "afterWrites (np_detect env) (np_date env) h code (wr_sent (ex_writer x)) [] (WriteHeader code (w\<lparr>rw_header := h\<rparr>))"
    using assms(3,4)
    by (simp add: afterWrites_def WriteHeader_def initResponseWriter_def zeroResponseWriter_def ready_def wire_def stream_def)
  from writeAll_afterWrites [OF assms(6,7) this, of ps] obtain w1 where
    w1: "writeAll (np_detect env) (np_date env) ps (WriteHeader code (w\<lparr>rw_header := h\<rparr>)) = Some w1"
      "afterWrites (np_detect env) (np_date env) h code (wr_sent (ex_writer x)) (filter (\<lambda>p. p \<noteq> []) ps) w1" by auto
  from EndResponse_500 [OF w1(2) assms(6,8)] obtain w2 bw where
    w2: "\<not> rw_headerSent w1" "EndResponse (np_date env) (WriteHeader 500 w1) = (None, w2)" "rw_bufWriter w2 = Some bw"
      "wr_sent bw = wr_sent (ex_writer x) @ responseBytes (np_detect env) (np_date env) h 500 (filter (\<lambda>p. p \<noteq> []) ps)" by blast
  let ?s = "\<lparr>hs_rw = w, hs_body = openBody (req_Body req), hs_reader = r, hs_handlers = ex_handlers x, hs_detached = None\<rparr>"
  from runHandler_writeThenPanic [of "np_detect env" "np_date env" ps
      "?s\<lparr>hs_rw := WriteHeader code (w\<lparr>rw_header := h\<rparr>)\<rparr>" w1] w1(1) obtain s' where
    "runHandler (np_detect env) (np_date env) (e_Handler e (withTimeout e env req)) ?s = (True, s')" "hs_rw s' = w1"
    by (auto simp: assms(2))
  with assms(1) w w2 show ?thesis by (simp add: handleRequest_def Let_def HeaderSent_def writerAfter_def)
qed


text \<open>
  C19: a handler that panics is answered with status 500. If it has set headers and any status and
  written at most one piece of a body when it panics, the client receives a complete response with
  status 500, those headers and that piece; the connection is closed and the reader, the writer
  and \<^verbatim>\<open>Processing\<close> are given back.
\<close>

theorem handler_panic_500:
  assumes "cs_Reader (wd_state y) = Some r" "cs_Writer (wd_state y) = Some w" "\<not> wd_closed y" "np_active env r"
    and "notReady env r = None" "unread r = printRequest q @ rest" "steady r" "persistent e q"
    and "e_Handler e (seenRequest e env (cs_RemoteAddr (wd_state y)) q) =
      Call (OpHeader h) (\<lambda>_. Call (OpWriteHeader code) (\<lambda>_. writeThenPanic ps))"
    and "soundWriter w" "wr_buf w = []" "list_all (\<lambda>w. w = zeroResponseWriter) (wd_rws y)"
    and "unframed h" "\<And>x. np_detect env x \<noteq> []" "length (filter (\<lambda>p. p \<noteq> []) ps) \<le> 1"
  shows "failedWith HandlerPanicked (wd_served y @ [seenRequest e env (cs_RemoteAddr (wd_state y)) q])
     (wr_sent w @ responseBytes (np_detect env) (np_date env) h 500 (filter (\<lambda>p. p \<noteq> []) ps)) (serveHTTP e env y)"
proof (rule serveHTTP_failed [OF assms(1-5)])
  let ?x = "\<lparr>ex_reader = r, ex_writer = w, ex_handlers = (\<lambda>_. None)(np_conn env := cs_ReadHandler (wd_state y)),
    ex_rws = wd_rws y, ex_served = wd_served y\<rparr>"
  fix ctx assume ctx: "RemoteAddrString ctx = cs_RemoteAddr (wd_state y)" "ctx_Req ctx = Some (np_ctx env)"
  let ?q = "serverRequest (plainRequest q) (if cs_RemoteAddr (wd_state y) \<noteq> [] then cs_RemoteAddr (wd_state y)
    else case np_addr env of Some a \<Rightarrow> a | None \<Rightarrow> []) (np_ctx env) None"
  obtain r' where get: "GetRequest (np_parseURI env) (np_addr env) ctx (ex_reader ?x) = (Inr ?q, r')"
    using GetRequest_persistent [OF assms(8,6,7) ctx(2,1)] by fastforce
  have "\<exists>x'. handleRequest e env ctx ?x = (Inl HandlerPanicked, x') \<and> ex_served x' = ex_served ?x @ [withTimeout e env ?q] \<and>
    wr_sent (ex_writer x') =
      wr_sent (ex_writer ?x) @ responseBytes (np_detect env) (np_date env) h 500 (filter (\<lambda>p. p \<noteq> []) ps)"
    by (rule handleRequest_panics [OF get]) (use assms(9-15) in \<open>simp_all add: seenRequest_def\<close>)
  then show "handleRequest e env ctx ?x = (Inl HandlerPanicked, snd (handleRequest e env ctx ?x)) \<and>
      ex_served (snd (handleRequest e env ctx ?x)) = wd_served y @ [seenRequest e env (cs_RemoteAddr (wd_state y)) q] \<and>
      wr_sent (ex_writer (snd (handleRequest e env ctx ?x))) =
        wr_sent w @ responseBytes (np_detect env) (np_date env) h 500 (filter (\<lambda>p. p \<noteq> []) ps)"
    by (auto simp: seenRequest_def)
qed

section \<open>A concrete connection\<close>

text \<open>A network on which everything sent has arrived, an engine that answers, and a new connection.\<close>

definition quietNet :: netEnv where
  "quietNet =
     \<lparr>np_parseURI = (\<lambda>_. Inl ErrReqMethod), np_detect = (\<lambda>_. str ''text/plain''), np_date = str ''today'',
      np_active = (\<lambda>_. True), np_arrived = (\<lambda>r. Some (concat (rd_src r))), np_addr = Some (str ''10.0.0.1:80''),
      np_conn = 1, np_ctx = 2, np_reader = 3, np_writer = 4, np_deadline = None, np_pick = 0,
      np_readHandler = (\<lambda>h r w. (HandlerOk, r, w))\<rparr>"

definition okEngine :: Engine where
  "okEngine = NewEngine (\<lambda>_. answerProg ([], 200, [str ''ok''])) [WithMaxDrainSize 100]"

definition newConn :: "bytes list \<Rightarrow> world" where
  "newConn src =
     \<lparr>wd_state = initState 0 zeroState, wd_pools = \<lparr>readerPool = [], writerPool = [], statePool = []\<rparr>,
      wd_ctxs = [], wd_rws = [], wd_src = src, wd_end = ErrEOF, wd_sent = [], wd_room = None, wd_closed = False,
      wd_served = []\<rparr>"

definition attached :: "bytes list \<Rightarrow> world" where
  "attached src = attachIO okEngine quietNet (newConn src)"

text \<open>A request with a body and one without.\<close>

definition postRequest :: wireRequest where
  "postRequest =
     \<lparr>wq_line = \<lparr>rl_Method = POST, rl_Target = str ''/a'', rl_Major = 1, rl_Minor = 1\<rparr>,
      wq_headers = [\<lparr>h_Name = str ''Content-Length'', h_Value = str ''3''\<rparr>], wq_body = str ''abc''\<rparr>"

definition getRequest :: wireRequest where
  "getRequest =
     \<lparr>wq_line = \<lparr>rl_Method = GET, rl_Target = str ''/b'', rl_Major = 1, rl_Minor = 1\<rparr>,
      wq_headers = [], wq_body = []\<rparr>"

lemma quietNet_laws: "netpollLaws quietNet"
  by (simp add: netpollLaws_def quietNet_def)

lemma requests_persistent: "list_all (persistent okEngine) [postRequest, getRequest]"
  by code_simp


section \<open>Witnesses\<close>

text \<open>The reader and writer of \<open>attached\<close>.\<close>

lemma attached_IO:
  "cs_Reader (wd_state (attached src)) = Some (pooledReader okEngine\<lparr>rd_src := src\<rparr>)"
  "cs_Writer (wd_state (attached src)) = Some (pooledWriter okEngine)"
  "\<not> wd_closed (attached src)" "wd_served (attached src) = []" "wd_rws (attached src) = []"
  "cs_RemoteAddr (wd_state (attached src)) = []"
  by (simp_all add: attached_def attachIO_def newConn_def initState_def zeroState_def poolGet_def pooledReader_def
      pooledWriter_def)

lemma okEngine_fields:
  "e_Handler okEngine req = answerProg ([], 200, [str ''ok''])" "e_maxDrainSize okEngine = 100"
  by (simp_all add: okEngine_def NewEngine_def WithMaxDrainSize_def)

theorem serveHTTP_in_order_witness:
  "\<exists>out y'. serveHTTP okEngine quietNet (attached [printRequest postRequest @ printRequest getRequest]) = (out, y') \<and>
     wd_served y' = map (seenRequest okEngine quietNet []) [postRequest, getRequest]"
proof -
  let ?r = "pooledReader okEngine\<lparr>rd_src := [printRequest postRequest @ printRequest getRequest]\<rparr>"
  have c: "calm (e_Handler okEngine req)" for req by (simp add: okEngine_fields answerProg_def)
  have "steady ?r" "unread ?r = concat (map printRequest [postRequest, getRequest])" "soundWriter (pooledWriter okEngine)"
    by (simp_all add: steady_def unread_def pooledReader_def pooledWriter_def soundWriter_def)
  moreover have "\<forall>r. np_arrived quietNet r = Some (concat (rd_src r))" by (simp add: quietNet_def)
  ultimately show ?thesis
    using serveHTTP_in_order [OF c _ _ quietNet_laws attached_IO(1,2) _ attached_IO(3) _ _ requests_persistent]
    by (fastforce simp: okEngine_fields attached_IO)
qed

theorem ServeConn_end_to_end_witness:
  "\<exists>y'. ServeConn okEngine quietNet True (newConn [printRequest postRequest, printRequest getRequest]) = (None, y') \<and>
     wd_sent y' = responseBytes (\<lambda>_. str ''text/plain'') (str ''today'') [] 200 [str ''ok''] @
       responseBytes (\<lambda>_. str ''text/plain'') (str ''today'') [] 200 [str ''ok''] \<and> \<not> wd_closed y'"
proof -
  let ?y = "newConn [printRequest postRequest, printRequest getRequest]"
  have a: "e_Handler okEngine req = answerProg ((\<lambda>_. ([], 200, [str ''ok''])) req)" for req
    by (simp add: okEngine_fields)
  have n: "np_detect quietNet x \<noteq> []" "np_arrived quietNet r = Some (concat (rd_src r))" for x r
    by (simp_all add: quietNet_def)
  have y: "\<not> cs_Processing (wd_state ?y)" "cs_Reader (wd_state ?y) = None" "cs_Writer (wd_state ?y) = None"
    "cs_ReadHandler (wd_state ?y) = None" "list_all (\<lambda>w. w = zeroResponseWriter) (wd_rws ?y)" "[] \<notin> set (wd_src ?y)"
    "wd_room ?y = None" "\<not> wd_closed ?y" "concat (wd_src ?y) = concat (map printRequest [postRequest, getRequest])"
    by (simp_all add: newConn_def initState_def zeroState_def)
  have u: "unframed (fst ((\<lambda>_. ([] :: headerMap, 200 :: int, [str ''ok''])) req))" for req :: ServerRequest
    by (simp add: unframed_def firstHeaderValue_def)
  from ServeConn_end_to_end [OF a u n(1) _ _ quietNet_laws n(2) y requests_persistent] show ?thesis
    by (auto simp: okEngine_fields quietNet_def newConn_def)
qed

theorem serveHTTP_bad_request_witness:
  "failedWith (ReqErr ErrReqMethod) [] [] (serveHTTP okEngine quietNet (attached [str ''X'' @ CRLF @ CRLF]))"
proof -
  let ?r = "pooledReader okEngine\<lparr>rd_src := [str ''X'' @ CRLF @ CRLF]\<rparr>"
  have "np_active quietNet ?r" "notReady quietNet ?r = None" "case fst (ReadRequest (np_parseURI quietNet) ?r) of Inl e \<Rightarrow> e = ErrReqMethod | Inr req \<Rightarrow> False"
    by code_simp+
  moreover from this(3) have "ReadRequest (np_parseURI quietNet) ?r = (Inl ErrReqMethod, snd (ReadRequest (np_parseURI quietNet) ?r))"
    by (cases "ReadRequest (np_parseURI quietNet) ?r") (auto split: sum.splits)
  ultimately show ?thesis
    using serveHTTP_bad_request [OF attached_IO(1,2,3)] by (fastforce simp: attached_IO pooledWriter_def)
qed

definition panicEngine :: Engine where
  "panicEngine =
     NewEngine (\<lambda>_. Call (OpHeader []) (\<lambda>_. Call (OpWriteHeader 200) (\<lambda>_. writeThenPanic [str ''fail'']))) []"

theorem handler_panic_500_witness:
  "failedWith HandlerPanicked [seenRequest panicEngine quietNet [] getRequest]
     (responseBytes (\<lambda>_. str ''text/plain'') (str ''today'') [] 500 [str ''fail''])
     (serveHTTP panicEngine quietNet (attached [printRequest getRequest]))"
proof -
  let ?r = "pooledReader okEngine\<lparr>rd_src := [printRequest getRequest]\<rparr>"
  have n: "np_active quietNet ?r" "notReady quietNet ?r = None" by code_simp+
  have r: "unread ?r = printRequest getRequest @ []" "steady ?r"
    by (simp_all add: unread_def steady_def pooledReader_def)
  have p: "persistent panicEngine getRequest" by code_simp
  have e: "e_Handler panicEngine (seenRequest panicEngine quietNet (cs_RemoteAddr (wd_state (attached [printRequest getRequest]))) getRequest) =
      Call (OpHeader []) (\<lambda>_. Call (OpWriteHeader 200) (\<lambda>_. writeThenPanic [str ''fail'']))"
    by (simp add: panicEngine_def NewEngine_def)
  have w: "soundWriter (pooledWriter okEngine)" "wr_buf (pooledWriter okEngine) = []"
    "list_all (\<lambda>w. w = zeroResponseWriter) (wd_rws (attached [printRequest getRequest]))" "unframed []"
    "length (filter (\<lambda>p. p \<noteq> []) [str ''fail'']) \<le> 1"
    by (simp_all add: soundWriter_def pooledWriter_def attached_IO unframed_def firstHeaderValue_def)
  have d: "np_detect quietNet x \<noteq> []" for x by (simp add: quietNet_def)
  from handler_panic_500 [OF attached_IO(1,2,3) n r p e w(1-4) d w(5)] show ?thesis
    by (simp add: attached_IO quietNet_def pooledWriter_def)
qed

section \<open>Where a connection goes wrong\<close>



end
