(* ===== verification/Hop_Server.thy ===== *)
theory Hop_Server
  imports Conn_Engine
begin

text \<open>
  \<^verbatim>\<open>server/server.go\<close>: the server's options, its connection callbacks and the limit on connections.
  Callbacks run concurrently; the step relation takes their atomic additions one at a time.
  \<^verbatim>\<open>netpoll\<close>, the listener and \<^verbatim>\<open>runtime.GOMAXPROCS\<close> are parameters.
\<close>

section \<open>Definitions\<close>

subsection \<open>The server and its options\<close>

text \<open>Durations are in nanoseconds. \<open>sv_eventLoop\<close> says whether there is an event loop.\<close>

record Server =
  sv_Engine :: Engine
  sv_eventLoop :: bool
  sv_keepAliveTimeout :: int
  sv_readTimeout :: int
  sv_writeTimeout :: int
  sv_maxConns :: int32
  sv_pollerNum :: int
  sv_bufferSize :: int
  sv_connsCount :: int32

definition WithMaxConns :: "int32 \<Rightarrow> Server \<Rightarrow> Server" where
  "WithMaxConns n s = s\<lparr>sv_maxConns := n\<rparr>"

definition WithPollerNum :: "int \<Rightarrow> Server \<Rightarrow> Server" where
  "WithPollerNum n s = s\<lparr>sv_pollerNum := n\<rparr>"

definition WithServerBufferSize :: "int \<Rightarrow> Server \<Rightarrow> Server" where
  "WithServerBufferSize n s = s\<lparr>sv_bufferSize := n\<rparr>"

definition WithReadTimeout :: "int \<Rightarrow> Server \<Rightarrow> Server" where
  "WithReadTimeout d s = s\<lparr>sv_readTimeout := d\<rparr>"

definition WithWriteTimeout :: "int \<Rightarrow> Server \<Rightarrow> Server" where
  "WithWriteTimeout d s = s\<lparr>sv_writeTimeout := d\<rparr>"

definition WithKeepAliveTimeout :: "int \<Rightarrow> Server \<Rightarrow> Server" where
  "WithKeepAliveTimeout d s = s\<lparr>sv_keepAliveTimeout := d\<rparr>"

definition seconds :: "int \<Rightarrow> int" where
  "seconds n = n * 10 ^ 9"

definition defaultPollerNum :: "int \<Rightarrow> int" where
  "defaultPollerNum gomaxprocs = (let pollerNum = gomaxprocs div 4 in if pollerNum < 1 then 1 else pollerNum)"

definition NewServer :: "int \<Rightarrow> Engine \<Rightarrow> (Server \<Rightarrow> Server) list \<Rightarrow> Server" where
  "NewServer gomaxprocs e opts =
     foldl (\<lambda>s opt. opt s)
       \<lparr>sv_Engine = e, sv_eventLoop = False, sv_keepAliveTimeout = seconds 30, sv_readTimeout = seconds 10,
        sv_writeTimeout = seconds 10, sv_maxConns = 0, sv_pollerNum = defaultPollerNum gomaxprocs,
        sv_bufferSize = 0, sv_connsCount = 0\<rparr> opts"

subsection \<open>The callbacks\<close>

text \<open>\<^verbatim>\<open>atomic.AddInt32\<close> on the count, and the limiter's test of what it returned.\<close>

definition addConns :: "int32 \<Rightarrow> Server \<Rightarrow> int32 \<times> Server" where
  "addConns d s = (sv_connsCount s + d, s\<lparr>sv_connsCount := sv_connsCount s + d\<rparr>)"

definition overLimit :: "Server \<Rightarrow> int32 \<Rightarrow> bool" where
  "overLimit s current \<longleftrightarrow> 0 <s sv_maxConns s \<and> sv_maxConns s <s current"

text \<open>
  \<^verbatim>\<open>OnPrepare\<close>: the context of the connection (\<open>None\<close> is nil and the connection is closed), its
  timeouts, and the rest. \<open>setReadTimeout\<close> is the connection's method, true if it fails.
\<close>

record prepared_conn =
  pc_state :: ConnectionState
  pc_readTimeout :: int
  pc_writeTimeout :: "int option"

definition OnPrepare ::
    "(int \<Rightarrow> bool) \<Rightarrow> nat \<Rightarrow> Server \<Rightarrow> ConnectionState list \<Rightarrow> prepared_conn option \<times> Server \<times> ConnectionState list" where
  "OnPrepare setReadTimeout i s pool =
     (case addConns 1 s of (current, s) \<Rightarrow>
        if overLimit s current then (None, snd (addConns (- 1) s), pool)
        else if setReadTimeout (sv_readTimeout s) then (None, s, pool)
        else
          (case NewConnectionState (sv_readTimeout s) i pool of (state, pool) \<Rightarrow>
             (Some \<lparr>pc_state = state, pc_readTimeout = sv_readTimeout s,
                pc_writeTimeout = (if sv_writeTimeout s > 0 then Some (sv_writeTimeout s) else None)\<rparr>, s, pool)))"

text \<open>
  \<^verbatim>\<open>OnDisconnect\<close>: the count goes down, then the state in the context is cancelled and released.
  The context may be nil, which is a panic, or hold no state. The result says whether the callback
  panicked.
\<close>

datatype connCtx = NilCtx | OtherCtx | StateCtx ConnectionState

definition OnDisconnect :: "connCtx \<Rightarrow> Server \<Rightarrow> pools \<Rightarrow> bool \<times> Server \<times> connCtx \<times> pools" where
  "OnDisconnect ctx s ps =
     (let s = snd (addConns (- 1) s)
      in case ctx of
           NilCtx \<Rightarrow> (True, s, ctx, ps)
         | OtherCtx \<Rightarrow> (False, s, ctx, ps)
         | StateCtx state \<Rightarrow>
             (case Cancel state of
                None \<Rightarrow> (True, s, ctx, ps)
              | Some state \<Rightarrow>
                  (case ReleaseConnectionState state ps of (state, ps) \<Rightarrow> (False, s, StateCtx state, ps))))"

text \<open>
  \<^verbatim>\<open>Serve\<close>: the steps that can fail in front of the event loop, in order, each with its error, and
  the loop itself; and \<^verbatim>\<open>Shutdown\<close>.
\<close>

definition Serve ::
    "(int \<Rightarrow> int \<Rightarrow> string option) \<Rightarrow> string option \<Rightarrow> string option \<Rightarrow> string option \<Rightarrow> string option \<Rightarrow>
     Server \<Rightarrow> string option \<times> Server" where
  "Serve configure listenErr convertErr loopErr serveErr s =
     (case configure (sv_pollerNum s) (sv_bufferSize s) of
        Some e \<Rightarrow> (Some e, s)
      | None \<Rightarrow>
          (case listenErr of
             Some e \<Rightarrow> (Some e, s)
           | None \<Rightarrow>
               (case convertErr of
                  Some e \<Rightarrow> (Some e, s)
                | None \<Rightarrow>
                    (case loopErr of
                       Some e \<Rightarrow> (Some e, s)
                     | None \<Rightarrow> (serveErr, s\<lparr>sv_eventLoop := True\<rparr>)))))"

definition Shutdown :: "string option \<Rightarrow> Server \<Rightarrow> string option" where
  "Shutdown loopShutdown s = (if \<not> sv_eventLoop s then None else loopShutdown)"

subsection \<open>Connections over time\<close>

text \<open>
  The server and how many connections are open, have passed the limiter and are being prepared,
  have been refused and are about to lower the count, and have been closed because their timeout
  could not be set. \<^verbatim>\<open>netpoll\<close> calls \<^verbatim>\<open>OnDisconnect\<close> once for each open connection, and not for one
  that got no context.
\<close>

record traffic =
  tr_server :: Server
  tr_open :: nat
  tr_admitted :: nat
  tr_refused :: nat
  tr_dropped :: nat

inductive traffic_step :: "traffic \<Rightarrow> traffic \<Rightarrow> bool" where
  admit: "addConns 1 (tr_server t) = (current, s) \<Longrightarrow> \<not> overLimit s current \<Longrightarrow>
    traffic_step t (t\<lparr>tr_server := s, tr_admitted := tr_admitted t + 1\<rparr>)"
| refuse: "addConns 1 (tr_server t) = (current, s) \<Longrightarrow> overLimit s current \<Longrightarrow>
    traffic_step t (t\<lparr>tr_server := s, tr_refused := tr_refused t + 1\<rparr>)"
| undo: "0 < tr_refused t \<Longrightarrow>
    traffic_step t (t\<lparr>tr_server := snd (addConns (- 1) (tr_server t)), tr_refused := tr_refused t - 1\<rparr>)"
| establish: "0 < tr_admitted t \<Longrightarrow>
    traffic_step t (t\<lparr>tr_admitted := tr_admitted t - 1, tr_open := tr_open t + 1\<rparr>)"
| fail: "0 < tr_admitted t \<Longrightarrow>
    traffic_step t (t\<lparr>tr_admitted := tr_admitted t - 1, tr_dropped := tr_dropped t + 1\<rparr>)"
| disconnect: "0 < tr_open t \<Longrightarrow>
    traffic_step t (t\<lparr>tr_server := snd (addConns (- 1) (tr_server t)), tr_open := tr_open t - 1\<rparr>)"

definition startTraffic :: "Server \<Rightarrow> traffic" where
  "startTraffic s = \<lparr>tr_server = s, tr_open = 0, tr_admitted = 0, tr_refused = 0, tr_dropped = 0\<rparr>"

definition counted_conns :: "traffic \<Rightarrow> nat" where
  "counted_conns t = tr_open t + tr_admitted t + tr_refused t + tr_dropped t"

text \<open>At no time does the server count 2 to the 30 connections or more.\<close>

inductive traffic_reach :: "Server \<Rightarrow> traffic \<Rightarrow> bool" for s where
  start: "traffic_reach s (startTraffic s)"
| later: "traffic_reach s t \<Longrightarrow> counted_conns t < 2 ^ 30 \<Longrightarrow> traffic_step t t' \<Longrightarrow> traffic_reach s t'"

section \<open>The limit\<close>

definition limited :: "Server \<Rightarrow> traffic \<Rightarrow> bool" where
  "limited s t \<longleftrightarrow>
     sv_maxConns (tr_server t) = sv_maxConns s \<and> counted_conns t \<le> 2 ^ 30 \<and>
     sv_connsCount (tr_server t) = of_nat (counted_conns t) \<and>
     (0 <s sv_maxConns s \<longrightarrow> int (tr_open t + tr_admitted t + tr_dropped t) \<le> sint (sv_maxConns s))"

lemma addConns_eq [simp]:
  "addConns d s = (current, s') \<longleftrightarrow> current = sv_connsCount s + d \<and> s' = s\<lparr>sv_connsCount := sv_connsCount s + d\<rparr>"
  "snd (addConns d s) = s\<lparr>sv_connsCount := sv_connsCount s + d\<rparr>"
  by (auto simp: addConns_def)

lemma limited_step:
  assumes "limited s t" "counted_conns t < 2 ^ 30" "traffic_step t t'"
  shows "limited s t'"
  using assms(3)
proof cases
  case (admit current s')
  let ?n = "counted_conns t"
  have c: "current = of_nat (?n + 1)" using admit(2) assms(1) by (simp add: limited_def add.commute)
  have "int (tr_open t + (tr_admitted t + 1) + tr_dropped t) \<le> sint (sv_maxConns s)" if "0 <s sv_maxConns s"
  proof -
    have "sint current \<le> sint (sv_maxConns s)"
      using admit(2,3) assms(1) that by (auto simp: overLimit_def limited_def word_sless_alt)
    moreover have "sint current = int (?n + 1)" unfolding c by (rule sint_word_of_nat32) (use assms(2) in simp)
    ultimately show ?thesis by (simp add: counted_conns_def)
  qed
  with admit assms(1,2) show ?thesis by (simp add: limited_def counted_conns_def add.commute)
next
  case (refuse current s')
  with assms(1,2) show ?thesis by (simp add: limited_def counted_conns_def add.commute)
next
  case undo
  with assms(1) show ?thesis by (cases "tr_refused t") (simp_all add: limited_def counted_conns_def)
next
  case establish
  with assms(1) show ?thesis by (cases "tr_admitted t") (simp_all add: limited_def counted_conns_def)
next
  case fail
  with assms(1) show ?thesis by (cases "tr_admitted t") (simp_all add: limited_def counted_conns_def)
next
  case disconnect
  with assms(1) show ?thesis by (cases "tr_open t") (auto simp: limited_def counted_conns_def)
qed

lemma reach_limited: "traffic_reach s t \<Longrightarrow> sv_connsCount s = 0 \<Longrightarrow> limited s t"
proof (induction rule: traffic_reach.induct)
  case start
  then show ?case by (simp add: limited_def startTraffic_def counted_conns_def word_sless_alt)
next
  case (later t t')
  with limited_step show ?case by blast
qed

section \<open>Properties\<close>

text \<open>
  C20: the limit on connections holds under every interleaving of the callbacks. From a new server,
  the 32-bit count is at every time the number of connections that are open, being prepared,
  about to be refused, or closed because their timeout could not be set; and when there is a
  limit, no more connections than that are open or being prepared.
\<close>

theorem connection_limit:
  assumes "traffic_reach s t" "sv_connsCount s = 0"
  shows "sv_connsCount (tr_server t) = of_nat (tr_open t + tr_admitted t + tr_refused t + tr_dropped t) \<and>
     (0 <s sv_maxConns s \<longrightarrow> int (tr_open t + tr_admitted t) \<le> sint (sv_maxConns s))"
  using reach_limited [OF assms] by (auto simp: limited_def counted_conns_def)

text \<open>
  A connection whose read timeout cannot be set is counted for ever. \<^verbatim>\<open>OnPrepare\<close> closes it without
  lowering the count, and it gets no disconnect callback: with a limit of one, after one such
  connection the server has none open and refuses every other.
\<close>

lemma failed_timeout_counts:
  "sv_connsCount (fst (snd (OnPrepare (\<lambda>_. True) 0 (NewServer 4 e [WithMaxConns 1]) []))) = 1 \<and>
   (\<forall>setReadTimeout i pool. fst (OnPrepare setReadTimeout i
      (fst (snd (OnPrepare (\<lambda>_. True) 0 (NewServer 4 e [WithMaxConns 1]) []))) pool) = None)"
  by (simp add: OnPrepare_def addConns_def overLimit_def NewServer_def WithMaxConns_def word_sless_alt)

section \<open>A witness\<close>

text \<open>A server for one connection, with one open and a second one about to be refused.\<close>

definition oneServer :: Server where
  "oneServer = NewServer 4 (NewEngine (\<lambda>_. Return) []) [WithMaxConns 1]"

definition crowded :: traffic where
  "crowded = \<lparr>tr_server = oneServer\<lparr>sv_connsCount := 2\<rparr>, tr_open = 1, tr_admitted = 0, tr_refused = 1, tr_dropped = 0\<rparr>"

lemma oneServer_fields: "sv_connsCount oneServer = 0" "sv_maxConns oneServer = 1"
  by (simp_all add: oneServer_def NewServer_def WithMaxConns_def)

lemma reach_crowded: "traffic_reach oneServer crowded"
proof -
  let ?t = "\<lambda>n o' a r. \<lparr>tr_server = oneServer\<lparr>sv_connsCount := n\<rparr>, tr_open = o', tr_admitted = a, tr_refused = r, tr_dropped = 0\<rparr>"
  have 1: "traffic_reach oneServer (?t 1 0 1 0)"
    by (rule traffic_reach.later [OF traffic_reach.start])
      (use traffic_step.admit [of "startTraffic oneServer"] in
        \<open>simp_all add: startTraffic_def counted_conns_def overLimit_def oneServer_fields word_sless_alt\<close>)
  have 2: "traffic_reach oneServer (?t 1 1 0 0)"
    by (rule traffic_reach.later [OF 1])
      (use traffic_step.establish [of "?t 1 0 1 0"] in \<open>simp_all add: counted_conns_def\<close>)
  show ?thesis unfolding crowded_def
    by (rule traffic_reach.later [OF 2])
      (use traffic_step.refuse [of "?t 1 1 0 0"] in
        \<open>simp_all add: counted_conns_def overLimit_def oneServer_fields word_sless_alt\<close>)
qed

theorem connection_limit_witness:
  "traffic_reach oneServer crowded \<and> sv_connsCount oneServer = 0 \<and> 0 <s sv_maxConns oneServer \<and>
     sv_connsCount (tr_server crowded) = 2 \<and> int (tr_open crowded + tr_admitted crowded) \<le> 1"
  using connection_limit [OF reach_crowded oneServer_fields(1)] reach_crowded
  by (simp add: oneServer_fields crowded_def word_sless_alt)

end
