(* ===== verification/Tcp_Listen.thy ===== *)
theory Tcp_Listen
  imports Hop_Prelude
begin

text \<open>
  \<^verbatim>\<open>internal/tcplisten\<close>, as built on Linux: the listener's address, the socket and its options, the
  backlog. The kernel's answers are parameters; what is done to sockets is a trace of calls.
\<close>

section \<open>Definitions\<close>

subsection \<open>Addresses\<close>

text \<open>\<^verbatim>\<open>safeIntToUint32\<close>; errors are their messages.\<close>

definition safeIntToUint32 :: "int \<Rightarrow> string + 32 word" where
  "safeIntToUint32 i =
     (if i < 0 then Inl ''value is negative, cannot convert to uint32''
      else if i > 2 ^ 32 - 1 then Inl ''value exceeds uint32 max value''
      else Inr (word_of_int i))"

text \<open>\<^verbatim>\<open>net.TCPAddr\<close>; a nil address has no bytes. \<^verbatim>\<open>To4\<close> and \<^verbatim>\<open>To16\<close> of \<^verbatim>\<open>net.IP\<close>; nil is the empty list.\<close>

record TCPAddr =
  ta_IP :: bytes
  ta_Port :: int
  ta_Zone :: string

definition v4Prefix :: bytes where
  "v4Prefix = replicate 10 0 @ [255, 255]"

definition To4 :: "bytes \<Rightarrow> bytes" where
  "To4 ip = (if length ip = 4 then ip
             else if length ip = 16 \<and> take 12 ip = v4Prefix then drop 12 ip else [])"

definition To16 :: "bytes \<Rightarrow> bytes" where
  "To16 ip = (if length ip = 4 then v4Prefix @ ip else if length ip = 16 then ip else [])"

text \<open>\<^verbatim>\<open>copy\<close> into an array of \<open>n\<close> zero bytes.\<close>

definition copyInto :: "nat \<Rightarrow> bytes \<Rightarrow> bytes" where
  "copyInto n b = take n b @ replicate (n - length b) 0"

datatype Sockaddr = SockaddrInet4 int bytes | SockaddrInet6 int bytes "32 word"
datatype domain = AF_INET | AF_INET6

text \<open>The zone's index; \<open>ifIndex\<close> is \<^verbatim>\<open>net.InterfaceByName\<close>.\<close>

definition zoneId :: "(string \<Rightarrow> string + int) \<Rightarrow> string \<Rightarrow> string + 32 word" where
  "zoneId ifIndex zone =
     (if zone \<noteq> []
      then (case ifIndex zone of
              Inl e \<Rightarrow> Inl e
            | Inr i \<Rightarrow>
                (case safeIntToUint32 i of
                   Inl e \<Rightarrow> Inl (''unexpected convert net interface index int to uint32: '' @ e)
                 | Inr z \<Rightarrow> Inr z))
      else Inr 0)"

definition getSockaddr ::
    "(string \<Rightarrow> string \<Rightarrow> string + TCPAddr) \<Rightarrow> (string \<Rightarrow> string + int) \<Rightarrow> string \<Rightarrow> string \<Rightarrow>
     string + Sockaddr \<times> domain" where
  "getSockaddr resolve ifIndex network addr =
     (case resolve network addr of
        Inl e \<Rightarrow> Inl e
      | Inr tcpAddr \<Rightarrow>
          if network = ''tcp4''
          then Inr (SockaddrInet4 (ta_Port tcpAddr) (copyInto 4 (To4 (ta_IP tcpAddr))), AF_INET)
          else if network = ''tcp6''
          then (case zoneId ifIndex (ta_Zone tcpAddr) of
                  Inl e \<Rightarrow> Inl e
                | Inr z \<Rightarrow> Inr (SockaddrInet6 (ta_Port tcpAddr) (copyInto 16 (To16 (ta_IP tcpAddr))) z, AF_INET6))
          else if network = ''tcp''
          then
            (let ip = (if ta_IP tcpAddr = [] then v4Prefix @ [0, 0, 0, 0] else ta_IP tcpAddr)
             in case zoneId ifIndex (ta_Zone tcpAddr) of
                  Inl e \<Rightarrow> Inl e
                | Inr z \<Rightarrow> Inr (SockaddrInet6 (ta_Port tcpAddr) (copyInto 16 (To16 ip)) z, AF_INET6))
          else Inl (''only tcp, tcp4, or tcp6 is supported '' @ network))"

subsection \<open>The backlog\<close>

text \<open>
  \<^verbatim>\<open>kernelVersion\<close>: the loop over the release, with \<open>values\<close> what has been stored so far. The variable
  \<^verbatim>\<open>value\<close> keeps its contents when a number ends.
\<close>

fun releaseLoop :: "int list \<Rightarrow> int \<Rightarrow> bytes \<Rightarrow> int list" where
  "releaseLoop values value [] = values"
| "releaseLoop values value (c # cs) =
     (if 48 \<le> c \<and> c \<le> 57 then releaseLoop values (wrap64 (value * 10 + int (unat (c - 48)))) cs
      else
        (let values = values @ [value]
         in if length values \<ge> 2 then values else releaseLoop values value cs))"

definition kernelVersion :: "bytes option \<Rightarrow> int \<times> int" where
  "kernelVersion uname =
     (case uname of
        None \<Rightarrow> (0, 0)
      | Some rl \<Rightarrow>
          (case releaseLoop [] 0 rl of
             [] \<Rightarrow> (0, 0)
           | [major] \<Rightarrow> (major, 0)
           | major # minor # _ \<Rightarrow> (major, minor)))"

definition maxAckBacklog :: "bytes option \<Rightarrow> int \<Rightarrow> int" where
  "maxAckBacklog uname n =
     (case kernelVersion uname of (major, minor) \<Rightarrow>
        (let sz = (if major > 4 \<or> (major = 4 \<and> minor \<ge> 1) then 32 else 16 :: nat);
             u = 2 ^ sz - 1
         in if n > u then u else n))"

text \<open>\<^verbatim>\<open>strings.TrimSpace\<close> on ASCII text, and \<^verbatim>\<open>strconv.Atoi\<close> (\<open>None\<close>: an error).\<close>

definition isSpace :: "byte \<Rightarrow> bool" where
  "isSpace c \<longleftrightarrow> c \<in> {9, 10, 11, 12, 13, 32}"

definition TrimSpace :: "bytes \<Rightarrow> bytes" where
  "TrimSpace s = rev (dropWhile isSpace (rev (dropWhile isSpace s)))"

fun digitsValue :: "int \<Rightarrow> bytes \<Rightarrow> int option" where
  "digitsValue n [] = Some n"
| "digitsValue n (c # cs) = (if 48 \<le> c \<and> c \<le> 57 then digitsValue (10 * n + int (unat (c - 48))) cs else None)"

definition Atoi :: "bytes \<Rightarrow> int option" where
  "Atoi s =
     (let neg = (s \<noteq> [] \<and> hd s = 45);
          digits = (if s \<noteq> [] \<and> (hd s = 45 \<or> hd s = 43) then tl s else s)
      in if digits = [] then None
         else (case digitsValue 0 digits of
                 None \<Rightarrow> None
               | Some n \<Rightarrow>
                   (let n = (if neg then - n else n)
                    in if - (2 ^ 63) \<le> n \<and> n < 2 ^ 63 then Some n else None)))"

text \<open>\<^verbatim>\<open>soMaxConn\<close>; the arguments are \<^verbatim>\<open>unix.SOMAXCONN\<close> and what reading \<^verbatim>\<open>/proc/sys/net/core/somaxconn\<close> gives.\<close>

datatype fileRead = NotExist | ReadFailed string | Contents bytes

definition soMaxConn :: "int \<Rightarrow> fileRead \<Rightarrow> bytes option \<Rightarrow> string + int" where
  "soMaxConn somaxconn file uname =
     (case file of
        NotExist \<Rightarrow> Inr somaxconn
      | ReadFailed e \<Rightarrow> Inl e
      | Contents contents \<Rightarrow>
          (case Atoi (TrimSpace contents) of
             None \<Rightarrow> Inl ''cannot parse somaxconn''
           | Some n \<Rightarrow>
               if n \<le> 0 then Inl ''cannot parse somaxconn''
               else Inr (if n > 2 ^ 16 - 1 then maxAckBacklog uname n else n)))"

subsection \<open>Sockets\<close>

text \<open>
  The calls, the constants they are given, and the kernel's answers: \<open>k_call\<close> is the error of a
  call, \<open>k_socket\<close> the answer to \<^verbatim>\<open>socket\<close> with and without the two flags, \<open>k_listener\<close> the error of
  \<^verbatim>\<open>net.FileListener\<close>.
\<close>

datatype sockOpt = SO_REUSEADDR | TCP_NODELAY | SO_REUSEPORT | TCP_DEFER_ACCEPT | TCP_FASTOPEN

datatype sysCall =
    Socket nat
  | CloseOnExec nat
  | SetNonblock nat
  | SetsockoptInt nat sockOpt int
  | Bind nat Sockaddr
  | Listen nat int
  | Close nat
  | FileListener nat
  | CloseListener

datatype errno = EPROTONOSUPPORT | EINVAL | Errno string

record kernel =
  k_socket :: "bool \<Rightarrow> domain \<Rightarrow> errno + nat"
  k_call :: "sysCall \<Rightarrow> string option"
  k_somaxconn :: int
  k_somaxconnFile :: fileRead
  k_uname :: "bytes option"

text \<open>\<^verbatim>\<open>newSocketCloexecOld\<close> and \<^verbatim>\<open>newSocketCloexec\<close>: the descriptor, and the calls that were made.\<close>

definition newSocketCloexecOld :: "kernel \<Rightarrow> domain \<Rightarrow> (string + nat) \<times> sysCall list" where
  "newSocketCloexecOld k d =
     (case k_socket k False d of
        Inl e \<Rightarrow> (Inl ''cannot create listening socket'', [])
      | Inr fd \<Rightarrow>
          (case k_call k (SetNonblock fd) of
             Some e \<Rightarrow>
               (Inl (''cannot make non-blocked listening socket: '' @ e),
                [Socket fd, CloseOnExec fd, SetNonblock fd, Close fd])
           | None \<Rightarrow> (Inr fd, [Socket fd, CloseOnExec fd, SetNonblock fd])))"

definition newSocketCloexec :: "kernel \<Rightarrow> domain \<Rightarrow> (string + nat) \<times> sysCall list" where
  "newSocketCloexec k d =
     (case k_socket k True d of
        Inr fd \<Rightarrow> (Inr fd, [Socket fd])
      | Inl e \<Rightarrow>
          if e = EPROTONOSUPPORT \<or> e = EINVAL then newSocketCloexecOld k d
          else (Inl ''cannot create listening unblocked socket'', []))"

record Config =
  cfg_ReusePort :: bool
  cfg_DeferAccept :: bool
  cfg_FastOpen :: bool
  cfg_Backlog :: int

definition fastOpenQlen :: int where
  "fastOpenQlen = 16 * 1024"

text \<open>Calls in order, each with the text its error is wrapped in, up to the first that fails.\<close>

fun attemptAll :: "kernel \<Rightarrow> (sysCall \<times> string) list \<Rightarrow> string option \<times> sysCall list" where
  "attemptAll k [] = (None, [])"
| "attemptAll k ((c, msg) # cs) =
     (case k_call k c of
        Some e \<Rightarrow> (Some (msg @ e), [c])
      | None \<Rightarrow> (case attemptAll k cs of (err, tr) \<Rightarrow> (err, c # tr)))"

definition enableDeferAccept :: "nat \<Rightarrow> sysCall \<times> string" where
  "enableDeferAccept fd = (SetsockoptInt fd TCP_DEFER_ACCEPT 1, ''cannot enable TCP_DEFER_ACCEPT: '')"

definition enableFastOpen :: "nat \<Rightarrow> sysCall \<times> string" where
  "enableFastOpen fd = (SetsockoptInt fd TCP_FASTOPEN fastOpenQlen, ''cannot enable TCP_FASTOPEN(qlen=16384): '')"

definition setupCalls :: "Config \<Rightarrow> nat \<Rightarrow> Sockaddr \<Rightarrow> (sysCall \<times> string) list" where
  "setupCalls cfg fd sa =
     [(SetsockoptInt fd SO_REUSEADDR 1, ''cannot enable SO_REUSEADDR: ''),
      (SetsockoptInt fd TCP_NODELAY 1, ''cannot disable Nagle's algorithm: '')] @
     (if cfg_ReusePort cfg then [(SetsockoptInt fd SO_REUSEPORT 1, ''cannot enable SO_REUSEPORT: '')] else []) @
     (if cfg_DeferAccept cfg then [enableDeferAccept fd] else []) @
     (if cfg_FastOpen cfg then [enableFastOpen fd] else []) @
     [(Bind fd sa, ''cannot bind: '')]"

definition fdSetup :: "Config \<Rightarrow> kernel \<Rightarrow> nat \<Rightarrow> Sockaddr \<Rightarrow> string option \<times> sysCall list" where
  "fdSetup cfg k fd sa =
     (case attemptAll k (setupCalls cfg fd sa) of
        (Some e, tr) \<Rightarrow> (Some e, tr)
      | (None, tr) \<Rightarrow>
          (case (if cfg_Backlog cfg \<le> 0 then soMaxConn (k_somaxconn k) (k_somaxconnFile k) (k_uname k)
                 else Inr (cfg_Backlog cfg)) of
             Inl e \<Rightarrow> (Some (''cannot determine backlog to pass to listen(2): '' @ e), tr)
           | Inr backlog \<Rightarrow>
               (case attemptAll k [(Listen fd backlog, ''cannot listen: '')] of (err, tr') \<Rightarrow> (err, tr @ tr'))))"

text \<open>\<^verbatim>\<open>NewListener\<close>: \<open>None\<close> is a listener.\<close>

definition NewListener ::
    "(string \<Rightarrow> string \<Rightarrow> string + TCPAddr) \<Rightarrow> (string \<Rightarrow> string + int) \<Rightarrow> kernel \<Rightarrow> Config \<Rightarrow> string \<Rightarrow> string \<Rightarrow>
     string option \<times> sysCall list" where
  "NewListener resolve ifIndex k cfg network addr =
     (case getSockaddr resolve ifIndex network addr of
        Inl e \<Rightarrow> (Some e, [])
      | Inr (sa, soType) \<Rightarrow>
          (case newSocketCloexec k soType of
             (Inl e, tr) \<Rightarrow> (Some e, tr)
           | (Inr fd, tr) \<Rightarrow>
               (case fdSetup cfg k fd sa of
                  (Some e, tr') \<Rightarrow> (Some e, tr @ tr' @ [Close fd])
                | (None, tr') \<Rightarrow>
                    (case k_call k (FileListener fd) of
                       Some e \<Rightarrow> (Some e, tr @ tr' @ [FileListener fd, Close fd])
                     | None \<Rightarrow>
                         (case k_call k (Close fd) of
                            Some e \<Rightarrow> (Some e, tr @ tr' @ [FileListener fd, Close fd, CloseListener])
                          | None \<Rightarrow> (None, tr @ tr' @ [FileListener fd, Close fd]))))))"

section \<open>The kernel's version\<close>

text \<open>The number that digits spell.\<close>

definition number :: "bytes \<Rightarrow> int" where
  "number ds = foldl (\<lambda>n c. 10 * n + int (unat (c - 48))) 0 ds"

abbreviation (input) digits :: "bytes \<Rightarrow> bool" where
  "digits ds \<equiv> list_all (\<lambda>c. 48 \<le> c \<and> c \<le> (57 :: byte)) ds"

lemma digit_bound: "48 \<le> c \<Longrightarrow> c \<le> (57 :: byte) \<Longrightarrow> unat (c - 48) \<le> 9"
  by (simp add: word_le_nat_alt unat_sub)

lemma number_append1: "number (ds @ [c]) = 10 * number ds + int (unat (c - 48))"
  by (simp add: number_def)

lemma number_bound: "digits ds \<Longrightarrow> 0 \<le> number ds \<and> number ds < 10 ^ length ds"
proof (induction ds rule: rev_induct)
  case (snoc c ds)
  then have "int (unat (c - 48)) \<le> int 9" by (intro of_nat_mono digit_bound) simp_all
  moreover have "0 \<le> int (unat (c - 48))" by simp
  ultimately show ?case using snoc unfolding number_append1 by simp
qed (simp add: number_def)

lemma number_append: "number (ms @ ns) = number ms * 10 ^ length ns + number ns"
proof (induction ns rule: rev_induct)
  case (snoc c ns)
  then show ?case using number_append1 [of "ms @ ns" c] number_append1 [of ns c] by (simp add: algebra_simps)
qed (simp add: number_def)

lemma releaseLoop_digits:
  "digits pre \<Longrightarrow> digits ds \<Longrightarrow> length pre + length ds \<le> 18 \<Longrightarrow>
     releaseLoop vs (number pre) (ds @ rest) = releaseLoop vs (number (pre @ ds)) rest"
proof (induction ds arbitrary: pre)
  case (Cons c ds)
  have "number (pre @ [c]) < 10 ^ 18"
  proof -
    have "number (pre @ [c]) < 10 ^ length (pre @ [c])" using number_bound [of "pre @ [c]"] Cons.prems by simp
    also have "\<dots> \<le> (10 :: int) ^ 18" using Cons.prems(3) by (intro power_increasing) simp_all
    finally show ?thesis .
  qed
  moreover have "0 \<le> number (pre @ [c])" using number_bound [of "pre @ [c]"] Cons.prems by simp
  ultimately have "wrap64 (number pre * 10 + int (unat (c - 48))) = number (pre @ [c])"
    using wrap64_small [of "number (pre @ [c])"] by (simp add: number_append1 mult.commute)
  with Cons.IH [of "pre @ [c]"] Cons.prems show ?case by simp
qed simp

lemma releaseLoop_two:
  assumes "digits ms" "digits ns" "length ms + length ns \<le> 18" "\<not> (48 \<le> c \<and> c \<le> 57)" "\<not> (48 \<le> d \<and> d \<le> 57)"
  shows "releaseLoop [] 0 (ms @ c # ns @ d # rest) = [number ms, number (ms @ ns)]"
proof -
  have "releaseLoop [] 0 (ms @ c # ns @ d # rest) = releaseLoop [number ms] (number ms) (ns @ d # rest)"
    using releaseLoop_digits [of "[]" ms "[]" "c # ns @ d # rest"] assms by (auto simp: number_def)
  also have "\<dots> = [number ms, number (ms @ ns)]"
    using releaseLoop_digits [OF assms(1,2,3), of "[number ms]" "d # rest"] assms(5) by auto
  finally show ?thesis .
qed

section \<open>Calls\<close>

lemma attemptAll_ok: "attemptAll k cs = (None, tr) \<Longrightarrow> tr = map fst cs"
proof (induction cs arbitrary: tr)
  case (Cons c cs)
  then show ?case by (cases c) (auto split: option.splits prod.splits)
qed simp

text \<open>Setting up a socket neither opens nor closes one.\<close>

definition neutral :: "sysCall \<Rightarrow> bool" where
  "neutral c \<longleftrightarrow> (case c of Socket fd \<Rightarrow> False | Close fd \<Rightarrow> False | FileListener fd \<Rightarrow> False | CloseListener \<Rightarrow> False | _ \<Rightarrow> True)"

lemma attemptAll_neutral: "list_all (\<lambda>c. neutral (fst c)) cs \<Longrightarrow> list_all neutral (snd (attemptAll k cs))"
proof (induction cs)
  case (Cons c cs)
  then show ?case by (cases c) (auto split: option.splits prod.splits)
qed simp

lemma fdSetup_neutral: "list_all neutral (snd (fdSetup cfg k fd sa))"
proof -
  have "list_all (\<lambda>c. neutral (fst c)) (setupCalls cfg fd sa)"
    by (simp add: setupCalls_def neutral_def enableDeferAccept_def enableFastOpen_def)
  from attemptAll_neutral [OF this, of k] show ?thesis
    by (auto simp: fdSetup_def neutral_def [of "Listen fd n" for n] split: prod.splits option.splits sum.splits)
qed

lemma neutral_counts:
  "list_all neutral tr \<Longrightarrow> count_list tr (Socket fd) = 0 \<and> count_list tr (Close fd) = 0 \<and> count_list tr CloseListener = 0 \<and>
     filter (\<lambda>c. case c of FileListener fd \<Rightarrow> k_call k c = None | _ \<Rightarrow> False) tr = []"
  by (induction tr) (auto simp: neutral_def split: sysCall.splits)


section \<open>Properties\<close>

text \<open>
  C27: a listener leaks no descriptor. Whatever the kernel answers, \<^verbatim>\<open>NewListener\<close> closes every socket it
  opens exactly once, also when it succeeds, because the listener has a copy of its own; and a
  listener that was made is left open exactly when no error is returned.
\<close>

theorem NewListener_no_leak:
  "case NewListener resolve ifIndex k cfg network addr of (err, tr) \<Rightarrow>
     count_list tr (Socket fd) = count_list tr (Close fd) \<and>
     length (filter (\<lambda>c. case c of FileListener fd \<Rightarrow> k_call k c = None | _ \<Rightarrow> False) tr) =
       count_list tr CloseListener + (if err = None then 1 else 0)"
proof (cases "getSockaddr resolve ifIndex network addr")
  case (Inr p)
  obtain sa soType where p: "p = (sa, soType)" by force
  obtain res tr where s: "newSocketCloexec k soType = (res, tr)" by force
  then have sock: "case res of
      Inl e \<Rightarrow> count_list tr (Socket fd) = count_list tr (Close fd)
    | Inr fd' \<Rightarrow> count_list tr (Socket fd) = (if fd = fd' then 1 else 0) \<and> count_list tr (Close fd) = 0"
    "count_list tr CloseListener = 0"
    "filter (\<lambda>c. case c of FileListener fd \<Rightarrow> k_call k c = None | _ \<Rightarrow> False) tr = []"
    by (auto simp: newSocketCloexec_def newSocketCloexecOld_def split: sum.splits option.splits if_splits)
  show ?thesis
  proof (cases res)
    case (Inl e)
    with Inr p s sock show ?thesis by (simp add: NewListener_def)
  next
    case fd': (Inr fd')
    obtain err tr' where f: "fdSetup cfg k fd' sa = (err, tr')" by force
    then have "list_all neutral tr'" using fdSetup_neutral [of cfg k fd' sa] by simp
    note n = neutral_counts [OF this, of fd k]
    from Inr p s sock fd' f n show ?thesis
      by (cases err; cases "k_call k (FileListener fd')"; cases "k_call k (Close fd')") (simp_all add: NewListener_def)
  qed
qed (simp add: NewListener_def)

text \<open>
  C29: what \<^verbatim>\<open>kernelVersion\<close> and \<^verbatim>\<open>maxAckBacklog\<close> make of a release \<open>M.N\<close> of at most eighteen digits.
  The major number is right; the minor number comes out as the digits of both, because the first
  is not cleared. So every 4.x kernel counts as 4.1 or later, 4.0 too, for which the comment asks
  for 16 bits: the backlog is cut to 16 bits exactly when the major number is below 4.
\<close>

theorem kernelVersion_reads:
  assumes "digits ms" "digits ns" "ns \<noteq> []" "length ms + length ns \<le> 18"
    and "\<not> (48 \<le> c \<and> c \<le> 57)" "\<not> (48 \<le> d \<and> d \<le> 57)"
  shows "kernelVersion (Some (ms @ c # ns @ d # rest)) = (number ms, number ms * 10 ^ length ns + number ns) \<and>
     maxAckBacklog (Some (ms @ c # ns @ d # rest)) n = min n (if number ms \<ge> 4 then 2 ^ 32 - 1 else 2 ^ 16 - 1)"
proof -
  have v: "kernelVersion (Some (ms @ c # ns @ d # rest)) = (number ms, number ms * 10 ^ length ns + number ns)"
    by (simp add: kernelVersion_def releaseLoop_two [OF assms(1,2,4,5,6)] number_append)
  have "1 \<le> number ms * 10 ^ length ns + number ns" if "number ms = 4"
  proof -
    have "(1 :: int) \<le> 10 ^ length ns" by simp
    with number_bound [OF assms(2)] that show ?thesis by simp
  qed
  with v show ?thesis by (auto simp: maxAckBacklog_def min_def)
qed

theorem kernelVersion_reads_witness:
  "kernelVersion (Some (str ''4.0.9'')) = (4, 40) \<and> maxAckBacklog (Some (str ''4.0.9'')) 100000 = 100000"
proof -
  have "digits (str ''4'')" "digits (str ''0'')" "str ''0'' \<noteq> []" "length (str ''4'') + length (str ''0'') \<le> 18"
    "\<not> (48 \<le> (46 :: byte) \<and> (46 :: byte) \<le> 57)" by simp_all
  from kernelVersion_reads [OF this(1-5) this(5), of "str ''9''" 100000] show ?thesis
    by (simp add: number_def)
qed


text \<open>A kernel that refuses nothing.\<close>

definition kindKernel :: kernel where
  "kindKernel =
     \<lparr>k_socket = (\<lambda>_ _. Inr 3), k_call = (\<lambda>_. None), k_somaxconn = 4096,
      k_somaxconnFile = Contents (str ''128'' @ [10]), k_uname = Some (str ''5.10.0'')\<rparr>"


end
