(* ===== verification/Spec2Isabelle.thy ===== *)
theory Spec2Isabelle
  imports Split_Delivery Read_Request Response_Safety Conn_Safety Conn_Properties Hop_Server Tcp_Listen
begin

text \<open>
  \<^bold>\<open>A verification of the http-over-polling server.\<close>

  The program is an HTTP/1.1 server in Go that runs \<^verbatim>\<open>net/http\<close> handlers on connections of the event
  loop \<^verbatim>\<open>netpoll\<close>. Its parts, and how they work together:

  \<^item> \<^verbatim>\<open>internal/tcplisten\<close> makes the listening socket, \<^verbatim>\<open>server\<close> starts the event loop and limits the
    number of connections. For each connection \<^verbatim>\<open>netpoll\<close> calls \<^verbatim>\<open>OnPrepare\<close>, which makes a connection
    state, then \<^verbatim>\<open>engine.ServeConn\<close> whenever data arrives, and \<^verbatim>\<open>OnDisconnect\<close> at the end.
  \<^item> \<^verbatim>\<open>engine\<close> serves the requests that have arrived: it takes a buffered reader and writer from pools,
    reads a request (\<^verbatim>\<open>adaptor.GetRequest\<close>, \<^verbatim>\<open>parser.ReadRequest\<close>), runs the handler on a response
    writer (\<^verbatim>\<open>adaptor.ResponseWriter\<close>), drains what the handler left of the body, and goes on with the
    next request or gives everything back. The connection state carries a reference count and a
    flag that keeps concurrent calls apart. \<^verbatim>\<open>appcontext\<close> holds what a request needs of its
    connection.
  \<^item> \<^verbatim>\<open>internal/parser\<close> also has an incremental parser with callbacks, \<^verbatim>\<open>Parser.Execute\<close>, with a
    reference parser for whole messages and several fast paths.

  \<^bold>\<open>Conventions.\<close> A Go struct is a record, an enumeration a datatype, an error a constructor of an
  error type or an \<open>option\<close>, a panic an error value or \<open>None\<close>. Bytes are \<open>8 word\<close>, \<^verbatim>\<open>int32\<close> is \<open>32 word\<close>
  and compared with \<open>sint\<close>; \<^verbatim>\<open>int\<close> is \<open>int\<close> with \<open>wrap64\<close> where it could overflow. Pointers that are
  only passed on are handles. A \<^verbatim>\<open>sync.Pool\<close> is a list, and which object it returns is an argument.
  Callbacks of the parser and system calls of the listener are traces. A \<^verbatim>\<open>bufio.Reader\<close> is its
  buffer and the results of the reads still to come, so that a statement about every reader is one
  about every way the bytes can arrive.

  \<^bold>\<open>The theories.\<close>

  \<^descr> Shared vocabulary: \<^theory_text>\<open>Hop_Prelude\<close>.
  \<^descr> \<^verbatim>\<open>internal/parser\<close>, pure parts: \<^theory_text>\<open>Byte_Scan\<close> (\<^verbatim>\<open>scan.go\<close>, \<^verbatim>\<open>unhex.go\<close>), \<^theory_text>\<open>Http_Method\<close> (\<^verbatim>\<open>method.go\<close>),
    \<^theory_text>\<open>Byte_Cursor\<close> (\<^verbatim>\<open>cursor.go\<close>, with the interface \<open>byte_cursor\<close>), \<^theory_text>\<open>Start_Line\<close> (\<^verbatim>\<open>startline.go\<close>,
    \<^verbatim>\<open>headers.go\<close>), \<^theory_text>\<open>Framing\<close> (\<^verbatim>\<open>framing.go\<close>, \<^verbatim>\<open>chunked.go\<close>), \<^theory_text>\<open>Message\<close> (\<^verbatim>\<open>parseMessageDetailed\<close> of
    \<^verbatim>\<open>engine.go\<close>). They give the exact grammar of every kind of line, the exact grammar of whole
    messages, and that parsing inverts printing.
  \<^descr> \<^verbatim>\<open>internal/parser\<close>, the parser object: \<^theory_text>\<open>Parser_State\<close> (\<^verbatim>\<open>parser.go\<close>, \<^verbatim>\<open>setting.go\<close> and the state
    helpers of \<^verbatim>\<open>engine.go\<close>), \<^theory_text>\<open>Fast_Request\<close>, \<^theory_text>\<open>Fast_Chunked\<close>, \<^theory_text>\<open>Fast_Response\<close>, \<^theory_text>\<open>Fast_Split\<close> (the fast
    paths of \<^verbatim>\<open>engine.go\<close>), \<^theory_text>\<open>Parser_Execute\<close> (\<^verbatim>\<open>Execute\<close> and the pending path), \<^theory_text>\<open>Split_Delivery\<close> (a
    request over several calls). They show that the fast analyzers agree with the reference parser,
    that messages are delivered once, completely and in order, an invariant of every reachable
    parser, on which inputs the chunk consumer returns, and one on which it does not.
  \<^descr> \<^verbatim>\<open>request.go\<close>: \<^theory_text>\<open>Buffered_Reader\<close> (\<^verbatim>\<open>bufio.Reader\<close> and \<^verbatim>\<open>readCRLFLine\<close>, with the interface
    \<open>line_reader\<close>) and \<^theory_text>\<open>Read_Request\<close>: \<^verbatim>\<open>ReadRequest\<close> reads a printed request back and does not depend
    on how its bytes arrive.
  \<^descr> \<^verbatim>\<open>appcontext.go\<close>: \<^theory_text>\<open>App_Context\<close>, with the contract \<open>recycled\<close> of pooled objects, which is
    interpreted for request contexts, response writers and connection states.
  \<^descr> \<^verbatim>\<open>adaptor.go\<close>: \<^theory_text>\<open>Buffered_Writer\<close> (\<^verbatim>\<open>bufio.Writer\<close>, with the interface \<open>byte_sink\<close>),
    \<^theory_text>\<open>Response_Writer\<close> (every method of the response writer), \<^theory_text>\<open>Response_Wire\<close> (the bytes a response
    puts on the wire), \<^theory_text>\<open>Response_Roundtrip\<close> (they parse back to the response), \<^theory_text>\<open>Response_Safety\<close>
    (recycling, hijacking, and two ways in which a response goes wrong).
  \<^descr> \<^verbatim>\<open>engine/engine.go\<close>: \<^theory_text>\<open>Conn_State\<close> (the connection state, its reference count, the step relation
    of concurrent calls), \<^theory_text>\<open>Conn_Safety\<close> (lifetime and mutual exclusion, and the interleavings in which
    they fail), \<^theory_text>\<open>Request_Body\<close> (the body readers of the standard library and the drain),
    \<^theory_text>\<open>Conn_Engine\<close> (\<^verbatim>\<open>ServeConn\<close>, \<^verbatim>\<open>serveHTTP\<close>, \<^verbatim>\<open>handleRequest\<close>, \<^verbatim>\<open>GetRequest\<close>), \<^theory_text>\<open>Conn_Serve\<close> and
    \<^theory_text>\<open>Conn_Properties\<close> (requests in order, bytes in and bytes out, errors and panics, and two inputs on
    which the connection goes wrong).
  \<^descr> \<^verbatim>\<open>server/server.go\<close>: \<^theory_text>\<open>Hop_Server\<close> (options, callbacks, the limit under interleaving).
  \<^descr> \<^verbatim>\<open>internal/tcplisten\<close>: \<^theory_text>\<open>Tcp_Listen\<close> (addresses, socket options, backlog, descriptors).

  \<^bold>\<open>How the parts are joined.\<close> The engine's theorems rest on those of its parts: \<^verbatim>\<open>ServeConn\<close> reads with
  \<^verbatim>\<open>ReadRequest\<close>, whose reading of printed requests is proved over \<open>line_reader\<close>; what the handler's
  calls put out is what \<open>Response_Wire\<close> computes over \<open>byte_sink\<close>; pooled objects are fresh by
  \<open>recycled\<close>. What the loop needs of \<^verbatim>\<open>handleRequest\<close> is the predicate \<open>handles\<close>, shown for every
  handler that neither panics nor hijacks, and for handlers that answer. The concurrent model of
  \<open>Conn_State\<close> abstracts what happens inside the guarded section to a change of the state's fields;
  \<open>Conn_Engine\<close> is that section for a single call.

  \<^bold>\<open>Bounds.\<close> Loops are total functions with a termination proof: over the bytes still to come for
  the readers and \<^verbatim>\<open>serveHTTP\<close>, over the buffer for the parsers. The chunk consumer and the split
  response path can loop for ever in Go and are \<open>partial_function\<close>s, for which returning is proved
  where it holds. No fuel is used. The step relations assume fewer than 2 to the 30 calls or
  connections at a time, below the range of the 32-bit counts; the kernel's release has at most
  eighteen digits in its first two numbers, below the range of \<^verbatim>\<open>int\<close>; the drain limit is below the
  greatest \<^verbatim>\<open>int64\<close>.

  \<^bold>\<open>Parameters.\<close> \<^verbatim>\<open>netpoll\<close> (whether a connection is active, what has arrived, when callbacks run),
  \<^verbatim>\<open>url.ParseRequestURI\<close>, \<^verbatim>\<open>http.DetectContentType\<close>, the clock, \<^verbatim>\<open>net.ResolveTCPAddr\<close>,
  \<^verbatim>\<open>net.InterfaceByName\<close> and the kernel. \<open>netpollLaws\<close> says what is relied on of \<^verbatim>\<open>netpoll\<close>; \<open>orderly\<close> and
  \<open>serial\<close> say what is relied on of the order of its callbacks. Handlers are programs that read the
  body and call the response writer, and may depend on what those calls return; they do not assign
  fields of the request.

  \<^bold>\<open>Not modelled.\<close> The example program; logging; the goroutine behind \<^verbatim>\<open>CloseNotify\<close> and the one that
  refreshes the date; what a hijacked connection's new owner does with it, other than that its
  reads lose nothing; deadlines, except that of the drain; data races inside a single step of the
  concurrent models; the listener of systems other than Linux; the \<^verbatim>\<open>excess\<close> limit aside, \<^verbatim>\<open>net/http\<close>
  beyond the functions the code calls.
\<close>

end
